(* ===== verification/Prelude.thy ===== *)
theory Prelude
  imports Main "HOL-Library.Word" "HOL-Library.List_Lexorder" "HOL-Library.Char_ord"
begin

text \<open>
  Shared ground of the development: faults as values and the sequencing of fallible
  steps, the C++ heap (\<^verbatim>\<open>new[]\<close>, \<^verbatim>\<open>delete[]\<close>, \<^verbatim>\<open>memcpy\<close>) as an explicit store,
  \<^verbatim>\<open>std::map\<close> as a key-ordered association list behind an interface locale, and the
  generic list lemmas the components use.
\<close>

named_theorems res_simps \<open>evaluation of fallible steps\<close>
named_theorems heap_simps \<open>reading back what the heap operations wrote\<close>

section \<open>Faults and fallible steps\<close>

text \<open>
  \<open>ExitProcess n\<close> is a call of \<^verbatim>\<open>exit(n)\<close>; \<open>WouldBlock\<close> is a lock call that cannot
  return while the lock is as it is; \<open>BadAlloc\<close> is the exception of an allocation that cannot be
  made; the other values are the undefined behaviours of C++ that the sources can run into.
\<close>

datatype fault =
    NullDeref
  | BadFree
  | OutOfBounds
  | UseAfterFree
  | WouldBlock
  | DivByZero
  | Uninitialised
  | BadAlloc
  | ExitProcess int

type_synonym 'a res = "fault + 'a"

definition bindR :: "'a res \<Rightarrow> ('a \<Rightarrow> 'b res) \<Rightarrow> 'b res" where
  "bindR m f = (case m of Inl e \<Rightarrow> Inl e | Inr x \<Rightarrow> f x)"

lemma bindR_simps [simp, res_simps]:
  "bindR (Inr x) f = f x"
  "bindR (Inl e) f = Inl e"
  by (simp_all add: bindR_def)

lemma bindR_eq_Inr:
  "bindR m f = Inr y \<longleftrightarrow> (\<exists>x. m = Inr x \<and> f x = Inr y)"
  by (cases m) simp_all

lemma bindR_assoc: "bindR (bindR m f) g = bindR m (\<lambda>x. bindR (f x) g)"
  by (cases m) simp_all

fun foldR :: "('a \<Rightarrow> 's \<Rightarrow> 's res) \<Rightarrow> 'a list \<Rightarrow> 's \<Rightarrow> 's res" where
  "foldR f [] s = Inr s"
| "foldR f (x # xs) s = bindR (f x s) (foldR f xs)"

lemma foldR_append: "foldR f (xs @ ys) s = bindR (foldR f xs s) (foldR f ys)"
  by (induction xs arbitrary: s) (auto simp: bindR_def split: sum.split)

lemma foldR_id: "(\<And>x. x \<in> set xs \<Longrightarrow> f x s = Inr s) \<Longrightarrow> foldR f xs s = Inr s"
  by (induction xs) simp_all

text \<open>A loop whose body keeps an invariant and never faults never faults.\<close>

lemma foldR_invariant:
  assumes "I 0 s"
    and "\<And>i s. i < length xs \<Longrightarrow> I i s \<Longrightarrow> \<exists>s'. f (xs ! i) s = Inr s' \<and> I (Suc i) s'"
  shows "\<exists>s'. foldR f xs s = Inr s' \<and> I (length xs) s'"
  using assms
proof (induction xs arbitrary: s I)
  case Nil
  then show ?case by simp
next
  case (Cons x xs)
  from Cons.prems(2) [of 0 s] Cons.prems(1)
  obtain s1 where s1: "f x s = Inr s1" "I (Suc 0) s1" by auto
  have "\<exists>s'. foldR f xs s1 = Inr s' \<and> I (Suc (length xs)) s'"
  proof (rule Cons.IH [where I = "\<lambda>i. I (Suc i)"])
    show "I (Suc 0) s1" by (rule s1(2))
    show "\<exists>s'. f (xs ! i) s = Inr s' \<and> I (Suc (Suc i)) s'"
      if "i < length xs" and "I (Suc i) s" for i s
      using Cons.prems(2) [of "Suc i" s] that by simp
  qed
  with s1(1) show ?case by simp
qed

section \<open>Simulation\<close>

text \<open>
  Runs of a fallible step function and of a total specification, and the interface of a
  functional refinement: every admissible step of an implementation succeeds, keeps its
  invariant, answers what the specification answers and leaves every step that was admissible
  admissible and meaning the same. The run of any sequence of steps then refines the run of
  the specification.
\<close>

fun runR :: "('o \<Rightarrow> 'c \<Rightarrow> ('r \<times> 'c) res) \<Rightarrow> 'o list \<Rightarrow> 'c \<Rightarrow> ('r list \<times> 'c) res" where
  "runR step [] c = Inr ([], c)"
| "runR step (x # xs) c =
     bindR (step x c) (\<lambda>(r, c'). bindR (runR step xs c') (\<lambda>(rs, c''). Inr (r # rs, c'')))"

fun run_spec :: "('p \<Rightarrow> 'a \<Rightarrow> 'r \<times> 'a) \<Rightarrow> 'p list \<Rightarrow> 'a \<Rightarrow> 'r list \<times> 'a" where
  "run_spec step [] a = ([], a)"
| "run_spec step (x # xs) a =
     (let (r, a') = step x a; (rs, a'') = run_spec step xs a' in (r # rs, a''))"

locale refinement =
  fixes inv :: "'c \<Rightarrow> bool"
    and abs :: "'c \<Rightarrow> 'a"
    and cstep :: "'o \<Rightarrow> 'c \<Rightarrow> ('r \<times> 'c) res"
    and astep :: "'p \<Rightarrow> 'a \<Rightarrow> 'r \<times> 'a"
    and adm :: "'c \<Rightarrow> 'o \<Rightarrow> bool"
    and aop :: "'c \<Rightarrow> 'o \<Rightarrow> 'p"
  assumes step:
    "inv c \<Longrightarrow> adm c x \<Longrightarrow>
       \<exists>r c'. cstep x c = Inr (r, c') \<and> inv c' \<and> astep (aop c x) (abs c) = (r, abs c') \<and>
         (\<forall>y. adm c y \<longrightarrow> adm c' y \<and> aop c' y = aop c y)"
begin

lemma run_refines:
  "inv c \<Longrightarrow> \<forall>x \<in> set xs. adm c x \<Longrightarrow>
     \<exists>rs c'. runR cstep xs c = Inr (rs, c') \<and> inv c' \<and>
       run_spec astep (map (aop c) xs) (abs c) = (rs, abs c') \<and>
       (\<forall>y. adm c y \<longrightarrow> adm c' y \<and> aop c' y = aop c y)"
proof (induction xs arbitrary: c)
  case Nil
  then show ?case by simp
next
  case (Cons x xs)
  obtain r c1 where c1: "cstep x c = Inr (r, c1)" "inv c1"
    "astep (aop c x) (abs c) = (r, abs c1)" "\<forall>y. adm c y \<longrightarrow> adm c1 y \<and> aop c1 y = aop c y"
    using step [of c x] Cons.prems by auto
  obtain rs c' where c': "runR cstep xs c1 = Inr (rs, c')" "inv c'"
    "run_spec astep (map (aop c1) xs) (abs c1) = (rs, abs c')"
    "\<forall>y. adm c1 y \<longrightarrow> adm c' y \<and> aop c' y = aop c1 y"
    using Cons.IH [OF c1(2)] Cons.prems(2) c1(4) by fastforce
  have "map (aop c1) xs = map (aop c) xs" using Cons.prems(2) c1(4) by auto
  with c1 c' show ?case by auto
qed

end

section \<open>Lists\<close>

lemma take_Cons_replicate [simp]: "take n (x # replicate n x) = replicate n x"
  by (simp flip: replicate_Suc)

text \<open>Looking for the element with a key.\<close>

lemma find_remove1_other: "\<not> P x \<Longrightarrow> find P (remove1 x xs) = find P xs"
  by (induction xs) auto

lemma find_remove1_only:
  "find (\<lambda>x. f x = k) xs = Some x \<Longrightarrow> distinct (map f xs) \<Longrightarrow> find (\<lambda>x. f x = k) (remove1 x xs) = None"
proof (induction xs)
  case (Cons a xs)
  show ?case
  proof (cases "f a = k")
    case True
    then show ?thesis using Cons.prems by (simp add: find_None_iff) (metis imageI)
  next
    case False
    then have "find (\<lambda>x. f x = k) xs = Some x" "f x = k" using Cons.prems(1) by (auto simp: find_Some_iff)
    then show ?thesis using Cons False by auto
  qed
qed simp

lemma find_append: "find P (xs @ ys) = (case find P xs of None \<Rightarrow> find P ys | Some x \<Rightarrow> Some x)"
  by (induction xs) auto

section \<open>Decimal numbers\<close>

text \<open>\<^verbatim>\<open>printf("%d")\<close>, and \<^verbatim>\<open>%0wd\<close> on numbers that are not negative.\<close>

definition digit_char :: "nat \<Rightarrow> char" where
  "digit_char d = char_of (48 + d)"

fun print_nat :: "nat \<Rightarrow> string" where
  "print_nat n = (if n < 10 then [digit_char n] else print_nat (n div 10) @ [digit_char (n mod 10)])"

declare print_nat.simps [simp del]

definition print_int :: "int \<Rightarrow> string" where
  "print_int i = (if i < 0 then CHR ''-'' # print_nat (nat (- i)) else print_nat (nat i))"

definition print_padded :: "nat \<Rightarrow> nat \<Rightarrow> string" where
  "print_padded w n = replicate (w - length (print_nat n)) (CHR ''0'') @ print_nat n"

lemma of_char_digit [simp]: "d < 10 \<Longrightarrow> (of_char (digit_char d) :: nat) = 48 + d"
  by (simp add: digit_char_def)

lemma print_nat_length: "n < 10 ^ k \<Longrightarrow> 0 < k \<Longrightarrow> 1 \<le> length (print_nat n) \<and> length (print_nat n) \<le> k"
proof (induction n arbitrary: k rule: print_nat.induct)
  case (1 n)
  show ?case
  proof (cases "n < 10")
    case True
    with 1 show ?thesis by (subst (1 2) print_nat.simps) simp
  next
    case False
    with 1(2,3) obtain k' where k: "k = Suc k'" "0 < k'"
      by (cases k; cases "k - 1") auto
    then have "n div 10 < 10 ^ k'" using 1(2) by (simp add: less_mult_imp_div_less mult.commute)
    with 1(1) [OF False _ k(2)] k False show ?thesis by (subst (1 2) print_nat.simps) simp
  qed
qed

lemma length_print_padded: "n < 10 ^ w \<Longrightarrow> 0 < w \<Longrightarrow> length (print_padded w n) = w"
  using print_nat_length [of n w] by (simp add: print_padded_def)

section \<open>The heap\<close>

text \<open>
  A pointer to an array is the number of its block, \<open>0\<close> is \<^verbatim>\<open>NULL\<close>. A cell that was
  allocated and not written yet holds no value (\<open>None\<close>). Blocks are numbered upwards and
  a number is never given out twice, so a stale pointer stays stale.
\<close>

type_synonym addr = nat
type_synonym cell = "char option"

record heap =
  blocks :: "addr \<rightharpoonup> cell list"
  hp_next :: addr

definition empty_heap :: heap where
  "empty_heap = \<lparr>blocks = Map.empty, hp_next = 1\<rparr>"

definition heap_ok :: "heap \<Rightarrow> bool" where
  "heap_ok h \<longleftrightarrow> 0 < hp_next h \<and> dom (blocks h) \<subseteq> {0<..<hp_next h}"

text \<open>\<^verbatim>\<open>new char[n]\<close>\<close>

definition new_array :: "nat \<Rightarrow> heap \<Rightarrow> addr \<times> heap" where
  "new_array n h =
     (hp_next h,
      \<lparr>blocks = (blocks h)(hp_next h \<mapsto> replicate n None), hp_next = Suc (hp_next h)\<rparr>)"

text \<open>\<^verbatim>\<open>delete[] p\<close>: nothing on \<^verbatim>\<open>NULL\<close>, undefined on anything but a live block.\<close>

definition delete_array :: "addr \<Rightarrow> heap \<Rightarrow> heap res" where
  "delete_array p h =
     (if p = 0 then Inr h
      else case blocks h p of
        None \<Rightarrow> Inl BadFree
      | Some b \<Rightarrow> Inr (h\<lparr>blocks := (blocks h)(p := None)\<rparr>))"

definition read_cells :: "addr \<Rightarrow> nat \<Rightarrow> nat \<Rightarrow> heap \<Rightarrow> cell list res" where
  "read_cells p off n h =
     (if p = 0 then Inl NullDeref
      else case blocks h p of
        None \<Rightarrow> Inl UseAfterFree
      | Some b \<Rightarrow> (if off + n \<le> length b then Inr (take n (drop off b)) else Inl OutOfBounds))"

definition write_cells :: "addr \<Rightarrow> nat \<Rightarrow> cell list \<Rightarrow> heap \<Rightarrow> heap res" where
  "write_cells p off cs h =
     (if p = 0 then Inl NullDeref
      else case blocks h p of
        None \<Rightarrow> Inl UseAfterFree
      | Some b \<Rightarrow>
          (if off + length cs \<le> length b
           then Inr (h\<lparr>blocks := (blocks h)(p \<mapsto> take off b @ cs @ drop (off + length cs) b)\<rparr>)
           else Inl OutOfBounds))"

text \<open>\<^verbatim>\<open>memcpy(dst + doff, src + soff, n)\<close>\<close>

definition memcpy :: "addr \<Rightarrow> nat \<Rightarrow> addr \<Rightarrow> nat \<Rightarrow> nat \<Rightarrow> heap \<Rightarrow> heap res" where
  "memcpy dst doff src soff n h =
     bindR (read_cells src soff n h) (\<lambda>cs. write_cells dst doff cs h)"

lemma heap_ok_empty [simp]: "heap_ok empty_heap"
  by (simp add: heap_ok_def empty_heap_def)

lemma heap_ok_null [simp]: "heap_ok h \<Longrightarrow> blocks h 0 = None"
  by (auto simp: heap_ok_def)

lemma heap_ok_next: "heap_ok h \<Longrightarrow> blocks h (hp_next h) = None"
  by (auto simp: heap_ok_def)

lemma heap_ok_pos [simp]: "heap_ok h \<Longrightarrow> 0 < hp_next h"
  by (simp add: heap_ok_def)

lemma heap_ok_live: "heap_ok h \<Longrightarrow> blocks h p = Some b \<Longrightarrow> p \<noteq> 0 \<and> p < hp_next h"
  by (auto simp: heap_ok_def)

lemma new_array_ok: "heap_ok h \<Longrightarrow> new_array n h = (p, h') \<Longrightarrow> heap_ok h'"
  by (fastforce simp: new_array_def heap_ok_def)

lemma new_array_fresh: "heap_ok h \<Longrightarrow> new_array n h = (p, h') \<Longrightarrow> p \<noteq> 0 \<and> blocks h p = None"
  by (auto simp: new_array_def heap_ok_next)

lemma new_array_blocks [heap_simps]:
  "new_array n h = (p, h') \<Longrightarrow> blocks h' = (blocks h)(p \<mapsto> replicate n None)"
  by (auto simp: new_array_def)

lemma delete_array_live:
  "blocks h p = Some b \<Longrightarrow> p \<noteq> 0 \<Longrightarrow>
     delete_array p h = Inr (h\<lparr>blocks := (blocks h)(p := None)\<rparr>)"
  by (simp add: delete_array_def)

lemma heap_ok_delete: "heap_ok h \<Longrightarrow> heap_ok (h\<lparr>blocks := (blocks h)(p := None)\<rparr>)"
  by (auto simp: heap_ok_def)

lemma heap_ok_update:
  "heap_ok h \<Longrightarrow> blocks h p = Some b \<Longrightarrow> heap_ok (h\<lparr>blocks := (blocks h)(p \<mapsto> b')\<rparr>)"
  by (auto simp: heap_ok_def)

section \<open>std::map\<close>

text \<open>
  A \<^verbatim>\<open>std::map\<close> is the list of its entries in key order; \<open>map_of\<close> is \<^verbatim>\<open>find\<close>,
  \<open>length\<close> is \<^verbatim>\<open>size\<close> and iteration follows the list.
\<close>

type_synonym ('k, 'v) smap = "('k \<times> 'v) list"

fun smap_put :: "'k::linorder \<Rightarrow> 'v \<Rightarrow> ('k, 'v) smap \<Rightarrow> ('k, 'v) smap" where
  "smap_put k v [] = [(k, v)]"
| "smap_put k v ((k', v') # m) =
     (if k < k' then (k, v) # (k', v') # m
      else if k = k' then (k, v) # m
      else (k', v') # smap_put k v m)"

text \<open>\<^verbatim>\<open>insert\<close> keeps an entry that is there and says so.\<close>

definition smap_insert :: "'k::linorder \<Rightarrow> 'v \<Rightarrow> ('k, 'v) smap \<Rightarrow> bool \<times> ('k, 'v) smap" where
  "smap_insert k v m =
     (case map_of m k of None \<Rightarrow> (True, smap_put k v m) | Some _ \<Rightarrow> (False, m))"

definition smap_erase :: "'k \<Rightarrow> ('k, 'v) smap \<Rightarrow> ('k, 'v) smap" where
  "smap_erase k m = filter (\<lambda>e. fst e \<noteq> k) m"

definition smap_ok :: "('k::linorder, 'v) smap \<Rightarrow> bool" where
  "smap_ok m \<longleftrightarrow> sorted_wrt (<) (map fst m)"

lemma fst_set_smap_put: "fst ` set (smap_put k v m) = insert k (fst ` set m)"
  by (induction k v m rule: smap_put.induct) auto

lemma smap_ok_put: "smap_ok m \<Longrightarrow> smap_ok (smap_put k v m)"
proof (induction k v m rule: smap_put.induct)
  case (1 k v)
  then show ?case by (simp add: smap_ok_def)
next
  case (2 k v k' v' m)
  then show ?case
    using fst_set_smap_put [of k v m] by (force simp: smap_ok_def)
qed

lemma smap_ok_erase: "smap_ok m \<Longrightarrow> smap_ok (smap_erase k m)"
  unfolding smap_ok_def smap_erase_def
  by (induction m) auto

lemma map_of_smap_put: "smap_ok m \<Longrightarrow> map_of (smap_put k v m) = (map_of m)(k \<mapsto> v)"
proof (induction k v m rule: smap_put.induct)
  case (1 k v)
  then show ?case by simp
next
  case (2 k v k' v' m)
  have "smap_ok m" using "2.prems" by (simp add: smap_ok_def)
  with 2 show ?case by (auto simp: fun_eq_iff)
qed

lemma map_of_smap_erase: "map_of (smap_erase k m) = (map_of m)(k := None)"
  by (induction m) (auto simp: smap_erase_def fun_eq_iff)

lemma smap_ok_distinct: "smap_ok m \<Longrightarrow> distinct (map fst m)"
  by (simp add: smap_ok_def strict_sorted_iff)

lemma smap_ok_tail: "smap_ok (e # m) \<Longrightarrow> smap_ok m"
  by (simp add: smap_ok_def)

text \<open>The interface the components rely on, and what follows from it alone.\<close>

locale ordered_map =
  fixes find :: "'m \<Rightarrow> 'k \<Rightarrow> 'v option"
    and put :: "'k \<Rightarrow> 'v \<Rightarrow> 'm \<Rightarrow> 'm"
    and erase :: "'k \<Rightarrow> 'm \<Rightarrow> 'm"
    and ok :: "'m \<Rightarrow> bool"
  assumes find_put: "ok m \<Longrightarrow> find (put k v m) = (find m)(k \<mapsto> v)"
    and find_erase: "ok m \<Longrightarrow> find (erase k m) = (find m)(k := None)"
    and ok_put: "ok m \<Longrightarrow> ok (put k v m)"
    and ok_erase: "ok m \<Longrightarrow> ok (erase k m)"
begin

lemma find_put_same: "ok m \<Longrightarrow> find (put k v m) k = Some v"
  by (simp add: find_put)

lemma find_put_other: "ok m \<Longrightarrow> k' \<noteq> k \<Longrightarrow> find (put k v m) k' = find m k'"
  by (simp add: find_put)

lemma find_erase_same: "ok m \<Longrightarrow> find (erase k m) k = None"
  by (simp add: find_erase)

lemma find_erase_other: "ok m \<Longrightarrow> k' \<noteq> k \<Longrightarrow> find (erase k m) k' = find m k'"
  by (simp add: find_erase)

lemma find_erase_put: "ok m \<Longrightarrow> find m k = None \<Longrightarrow> find (erase k (put k v m)) = find m"
  by (auto simp: find_put find_erase ok_put fun_eq_iff)

end

lemma smap_erase_absent: "map_of m k = None \<Longrightarrow> smap_erase k m = m"
  by (auto simp: smap_erase_def map_of_eq_None_iff image_iff intro!: filter_True)

interpretation smap: ordered_map map_of smap_put smap_erase smap_ok
  by unfold_locales (simp_all add: map_of_smap_put map_of_smap_erase smap_ok_put smap_ok_erase)

lemma smap_insert_fresh:
  "map_of m k = None \<Longrightarrow> smap_insert k v m = (True, smap_put k v m)"
  by (simp add: smap_insert_def)

lemma map_of_smap_insert:
  "map_of (snd (smap_insert k v m)) = (if map_of m k = None then (map_of m)(k \<mapsto> v) else map_of m)"
proof -
  have "map_of (smap_put k v m) = (map_of m)(k \<mapsto> v)"
    by (induction k v m rule: smap_put.induct) (auto simp: fun_eq_iff)
  then show ?thesis by (auto simp: smap_insert_def split: option.split)
qed

lemma smap_ok_insert: "smap_ok m \<Longrightarrow> smap_insert k v m = (b, m') \<Longrightarrow> smap_ok m'"
  by (auto simp: smap_insert_def smap_ok_put split: option.splits)

lemma length_smap_put:
  "smap_ok m \<Longrightarrow> length (smap_put k v m) = (if map_of m k = None then Suc (length m) else length m)"
proof (induction k v m rule: smap_put.induct)
  case (1 k v)
  then show ?case by simp
next
  case (2 k v k' v' m)
  have "map_of m k = None" if "k < k'"
    using that "2.prems" by (auto simp: smap_ok_def map_of_eq_None_iff)
  with 2 smap_ok_tail [OF "2.prems"] show ?case by auto
qed

section \<open>Key-value stores\<close>

text \<open>
  Sessions, the session manager and the server each have the same three methods over a
  \<^verbatim>\<open>std::map<string, void*>\<close>. The interface: storing always succeeds, reading finds what was
  stored last, and removing forgets the key; the value \<open>remove\<close> returns is \<open>False\<close> in
  every case, as all three copies of the code return it.
\<close>

locale kv_store =
  fixes kv_inv :: "'s \<Rightarrow> bool"
    and kv_view :: "'s \<Rightarrow> string \<rightharpoonup> addr"
    and kv_put :: "string \<Rightarrow> addr \<Rightarrow> 's \<Rightarrow> (bool \<times> 's) res"
    and kv_get :: "string \<Rightarrow> 's \<Rightarrow> ((bool \<times> addr) \<times> 's) res"
    and kv_remove :: "string \<Rightarrow> 's \<Rightarrow> (bool \<times> 's) res"
  assumes put_ok:
      "kv_inv s \<Longrightarrow> \<exists>s'. kv_put k v s = Inr (True, s') \<and> kv_inv s' \<and> kv_view s' = (kv_view s)(k \<mapsto> v)"
    and get_ok:
      "kv_inv s \<Longrightarrow>
         kv_get k s = Inr (case kv_view s k of None \<Rightarrow> (False, 0) | Some v \<Rightarrow> (True, v), s)"
    and remove_ok:
      "kv_inv s \<Longrightarrow>
         \<exists>s'. kv_remove k s = Inr (False, s') \<and> kv_inv s' \<and> kv_view s' = (kv_view s)(k := None)"
begin

lemma get_after_put:
  assumes "kv_inv s"
  shows "\<exists>s'. kv_put k v s = Inr (True, s') \<and> kv_get k s' = Inr ((True, v), s') \<and>
     (\<forall>k'. k' \<noteq> k \<longrightarrow> map_sum id fst (kv_get k' s') = map_sum id fst (kv_get k' s))"
  using put_ok [OF assms, of k v] get_ok [OF assms] get_ok by auto

lemma get_after_remove:
  assumes "kv_inv s"
  shows "\<exists>s'. kv_remove k s = Inr (False, s') \<and> kv_get k s' = Inr ((False, 0), s') \<and>
     (\<forall>k'. k' \<noteq> k \<longrightarrow> map_sum id fst (kv_get k' s') = map_sum id fst (kv_get k' s))"
  using remove_ok [OF assms, of k] get_ok [OF assms] get_ok by auto

end

section \<open>What holds if an operation returns\<close>

definition returns :: "('a \<Rightarrow> bool) \<Rightarrow> 'a res \<Rightarrow> bool" where
  "returns Q m \<longleftrightarrow> (case m of Inl _ \<Rightarrow> True | Inr x \<Rightarrow> Q x)"

lemma returns_simps [simp]: "returns Q (Inr x) = Q x" "returns Q (Inl e)"
  by (simp_all add: returns_def)

lemma returns_bind: "returns P m \<Longrightarrow> (\<And>x. m = Inr x \<Longrightarrow> P x \<Longrightarrow> returns Q (f x)) \<Longrightarrow> returns Q (bindR m f)"
  by (cases m) auto

lemma returns_mono: "returns P m \<Longrightarrow> (\<And>x. P x \<Longrightarrow> Q x) \<Longrightarrow> returns Q m"
  by (cases m) auto

lemma returns_any: "returns (\<lambda>_. True) m"
  by (cases m) auto

lemma returns_write:
  "(\<And>h'. write_cells p off cs h = Inr h' \<Longrightarrow> returns Q (f h')) \<Longrightarrow> returns Q (bindR (write_cells p off cs h) f)"
  by (rule returns_bind [OF returns_any])

lemma returnsD: "returns Q m \<Longrightarrow> m = Inr x \<Longrightarrow> Q x"
  by simp

lemma returns_foldR:
  "(\<And>x s. P s \<Longrightarrow> returns P (f x s)) \<Longrightarrow> P s \<Longrightarrow> returns P (foldR f xs s)"
proof (induction xs arbitrary: s)
  case (Cons x xs)
  have "returns P (bindR (f x s) (foldR f xs))"
    by (rule returns_bind [of P]) (use Cons in auto)
  then show ?case by simp
qed simp

end
