(* ===== verification/Events.thy ===== *)
theory Events
  imports Prelude
begin

text \<open>
  The class \<^verbatim>\<open>svr::Event\<close> of \<^verbatim>\<open>server.h\<close> and the enumerations it uses. An event either
  owns a copy of its data (length above 0: a heap block of length + 1 cells that the
  destructor frees) or borrows a pointer (length 0). The heap is passed explicitly, so double
  frees, leaks and reads of freed memory are visible in the results.
\<close>

named_theorems event_defs \<open>definitions of the operations on events\<close>

section \<open>Enumerations\<close>

datatype Level = LEVEL_SERVER | LEVEL_USER

datatype Status = STATUS_RUNNING | STATUS_READY | STATUS_SUSPEND | STATUS_HALT

datatype Priority = PRI_LOW | PRI_MEDIUM | PRI_HIGH

section \<open>Event\<close>

record Event =
  ev_pData :: addr
  ev_length :: int
  ev_status :: Status
  ev_level :: Level
  ev_priority :: Priority

definition Event_default :: Event where
  "Event_default =
     \<lparr>ev_pData = 0, ev_length = 0, ev_status = STATUS_READY, ev_level = LEVEL_USER,
      ev_priority = PRI_MEDIUM\<rparr>"

text \<open>
  \<^verbatim>\<open>p = new char[n + 1]; p[n] = 0; memcpy_s(p, n, src, n)\<close>, the way both constructors
  and the assignment operator write it. \<open>allocate\<close> writes the terminator last.
\<close>

definition copy_data :: "addr \<Rightarrow> int \<Rightarrow> heap \<Rightarrow> (addr \<times> heap) res" where
  "copy_data src len h =
     (let (p, h1) = new_array (nat len + 1) h in
      bindR (write_cells p (nat len) [Some (CHR 0x00)] h1) (\<lambda>h2.
      bindR (memcpy p 0 src 0 (nat len) h2) (\<lambda>h3. Inr (p, h3))))"

definition Event_create ::
  "addr \<Rightarrow> int \<Rightarrow> Status \<Rightarrow> Level \<Rightarrow> Priority \<Rightarrow> heap \<Rightarrow> (Event \<times> heap) res" where
  "Event_create src len status level pri h =
     (if src \<noteq> 0 \<and> len > 0 then
        bindR (copy_data src len h) (\<lambda>(p, h').
          Inr (\<lparr>ev_pData = p, ev_length = len, ev_status = status, ev_level = level,
                ev_priority = pri\<rparr>, h'))
      else if len = 0 then
        Inr (\<lparr>ev_pData = src, ev_length = len, ev_status = status, ev_level = level,
              ev_priority = pri\<rparr>, h)
      else
        Inr (\<lparr>ev_pData = 0, ev_length = 0, ev_status = status, ev_level = level,
              ev_priority = pri\<rparr>, h))"

definition Event_copy :: "Event \<Rightarrow> heap \<Rightarrow> (Event \<times> heap) res" where
  "Event_copy e h =
     (if ev_length e > 0 then
        bindR (copy_data (ev_pData e) (ev_length e) h) (\<lambda>(p, h').
          Inr (\<lparr>ev_pData = p, ev_length = ev_length e, ev_status = ev_status e,
                ev_level = ev_level e, ev_priority = ev_priority e\<rparr>, h'))
      else
        Inr (\<lparr>ev_pData = ev_pData e, ev_length = ev_length e, ev_status = ev_status e,
              ev_level = ev_level e, ev_priority = ev_priority e\<rparr>, h))"

text \<open>\<^verbatim>\<open>if (pData != NULL && length > 0) delete[] pData;\<close>, also the whole destructor.\<close>

definition Event_destroy :: "Event \<Rightarrow> heap \<Rightarrow> heap res" where
  "Event_destroy e h =
     (if ev_pData e \<noteq> 0 \<and> ev_length e > 0 then delete_array (ev_pData e) h else Inr h)"

text \<open>
  The assignment operator works on objects, and the right-hand side may be the object
  assigned to. The objects are the slots of an array; the right-hand side is a slot or an
  object outside the array.
\<close>

datatype event_ref = Ext Event | Slot nat

fun deref :: "Event list \<Rightarrow> event_ref \<Rightarrow> Event" where
  "deref arr (Ext e) = e"
| "deref arr (Slot i) = arr ! i"

definition Event_assign ::
  "nat \<Rightarrow> event_ref \<Rightarrow> Event list \<Rightarrow> heap \<Rightarrow> (Event list \<times> heap) res" where
  "Event_assign d r arr h =
     bindR (Event_destroy (arr ! d) h) (\<lambda>h1.
     let a1 = arr[d := (arr ! d)\<lparr>ev_status := ev_status (deref arr r)\<rparr>];
         a2 = a1[d := (a1 ! d)\<lparr>ev_level := ev_level (deref a1 r)\<rparr>];
         a3 = a2[d := (a2 ! d)\<lparr>ev_priority := ev_priority (deref a2 r)\<rparr>];
         a4 = a3[d := (a3 ! d)\<lparr>ev_length := ev_length (deref a3 r)\<rparr>]
     in if ev_length (deref a4 r) > 0 then
          (let (p, h2) = new_array (nat (ev_length (a4 ! d)) + 1) h1;
               a5 = a4[d := (a4 ! d)\<lparr>ev_pData := p\<rparr>]
           in bindR (write_cells p (nat (ev_length (a5 ! d))) [Some (CHR 0x00)] h2) (\<lambda>h3.
              bindR (memcpy p 0 (ev_pData (deref a5 r)) 0 (nat (ev_length (deref a5 r))) h3) (\<lambda>h4.
              Inr (a5, h4))))
        else Inr (a4[d := (a4 ! d)\<lparr>ev_pData := ev_pData (deref a4 r)\<rparr>], h1))"

definition Event_allocate ::
  "addr \<Rightarrow> int \<Rightarrow> Event \<Rightarrow> heap \<Rightarrow> (int \<times> Event \<times> heap) res" where
  "Event_allocate src len e h =
     (if ev_status e \<noteq> STATUS_READY then Inr (-1, e, h)
      else if src \<noteq> 0 \<and> len > 0 then
        bindR (Event_destroy e h) (\<lambda>h1.
        let (p, h2) = new_array (nat len + 1) h1 in
        bindR (memcpy p 0 src 0 (nat len) h2) (\<lambda>h3.
        bindR (write_cells p (nat len) [Some (CHR 0x00)] h3) (\<lambda>h4.
        Inr (len, e\<lparr>ev_length := len, ev_pData := p\<rparr>, h4))))
      else if len = 0 then
        bindR (Event_destroy e h) (\<lambda>h1. Inr (0, e\<lparr>ev_length := 0, ev_pData := src\<rparr>, h1))
      else Inr (-1, e, h))"

definition Event_release :: "Event \<Rightarrow> heap \<Rightarrow> (Event \<times> heap) res" where
  "Event_release e h =
     bindR (Event_destroy e h) (\<lambda>h1. Inr (e\<lparr>ev_pData := 0, ev_length := 0\<rparr>, h1))"

definition Event_getData :: "Event \<Rightarrow> addr" where "Event_getData e = ev_pData e"
definition Event_getLength :: "Event \<Rightarrow> int" where "Event_getLength e = ev_length e"
definition Event_getStatus :: "Event \<Rightarrow> Status" where "Event_getStatus e = ev_status e"
definition Event_getLevel :: "Event \<Rightarrow> Level" where "Event_getLevel e = ev_level e"
definition Event_getPriority :: "Event \<Rightarrow> Priority" where "Event_getPriority e = ev_priority e"

declare Event_create_def [event_defs] Event_copy_def [event_defs] Event_destroy_def [event_defs]
  Event_assign_def [event_defs] Event_allocate_def [event_defs] Event_release_def [event_defs]

section \<open>What an event holds\<close>

text \<open>The block an event owns, if any, and whether the heap has it as the event says.\<close>

definition ev_owned :: "Event \<Rightarrow> addr set" where
  "ev_owned e = (if ev_length e > 0 then {ev_pData e} else {})"

definition ev_ok :: "heap \<Rightarrow> Event \<Rightarrow> bool" where
  "ev_ok h e \<longleftrightarrow> ev_length e \<ge> 0 \<and>
     (ev_length e > 0 \<longrightarrow> ev_pData e \<noteq> 0 \<and>
        (case blocks h (ev_pData e) of
           None \<Rightarrow> False
         | Some b \<Rightarrow> length b = nat (ev_length e) + 1 \<and> b ! nat (ev_length e) = Some (CHR 0x00)))"

text \<open>The value of an event, independent of where its data lies.\<close>

datatype payload = Owned "cell list" | Borrowed addr

definition ev_payload :: "heap \<Rightarrow> Event \<Rightarrow> payload" where
  "ev_payload h e =
     (if ev_length e > 0
      then Owned (case blocks h (ev_pData e) of None \<Rightarrow> [] | Some b \<Rightarrow> take (nat (ev_length e)) b)
      else Borrowed (ev_pData e))"

type_synonym event_value = "payload \<times> Status \<times> Level \<times> Priority"

definition ev_value :: "heap \<Rightarrow> Event \<Rightarrow> event_value" where
  "ev_value h e = (ev_payload h e, ev_status e, ev_level e, ev_priority e)"

lemma ev_value_cong:
  "ev_owned e \<subseteq> A \<Longrightarrow> (\<And>p. p \<in> A \<Longrightarrow> blocks h' p = blocks h p) \<Longrightarrow> ev_value h' e = ev_value h e"
  by (auto simp: ev_value_def ev_payload_def ev_owned_def split: if_splits)

lemma ev_ok_cong:
  "ev_owned e \<subseteq> A \<Longrightarrow> (\<And>p. p \<in> A \<Longrightarrow> blocks h' p = blocks h p) \<Longrightarrow> ev_ok h' e = ev_ok h e"
  by (auto simp: ev_ok_def ev_owned_def split: if_splits)

lemma ev_ok_live: "ev_ok h e \<Longrightarrow> ev_owned e \<subseteq> dom (blocks h) \<and> 0 \<notin> ev_owned e"
  by (auto simp: ev_ok_def ev_owned_def split: option.splits)

lemma ev_ok_default [simp]: "ev_ok h Event_default" "ev_owned Event_default = {}"
  by (simp_all add: ev_ok_def ev_owned_def Event_default_def)

subsection \<open>Copying the data\<close>

text \<open>
  From a live block with at least \<open>len\<close> cells, \<open>copy_data\<close> succeeds; the new block is
  fresh, holds the data and the terminator, and no other block changes.
\<close>

lemma copy_data_ok:
  assumes "heap_ok h" and "blocks h src = Some b" and "nat len \<le> length b"
  shows "\<exists>h'. copy_data src len h = Inr (hp_next h, h') \<and> heap_ok h' \<and>
     blocks h' = (blocks h)(hp_next h \<mapsto> take (nat len) b @ [Some (CHR 0x00)])"
proof -
  have "src \<noteq> 0" "src \<noteq> hp_next h"
    using heap_ok_live [OF assms(1,2)] by auto
  then show ?thesis
    using assms heap_ok_pos [OF assms(1)]
    by (auto simp: copy_data_def new_array_def write_cells_def memcpy_def read_cells_def
        heap_ok_def min_absorb2)
qed

subsection \<open>Every operation on a well-formed event\<close>

lemma Event_destroy_ok:
  assumes "heap_ok h" and "ev_ok h e"
  shows "\<exists>h'. Event_destroy e h = Inr h' \<and> heap_ok h' \<and> blocks h' = blocks h |` (- ev_owned e)"
proof (cases "ev_length e > 0")
  case True
  then have p: "ev_pData e \<noteq> 0" "blocks h (ev_pData e) \<noteq> None"
    using assms(2) by (auto simp: ev_ok_def split: option.splits)
  then have "Event_destroy e h = Inr (h\<lparr>blocks := (blocks h)(ev_pData e := None)\<rparr>)"
    using True by (auto simp: Event_destroy_def delete_array_def)
  with True heap_ok_delete [OF assms(1)] show ?thesis
    by (auto simp: ev_owned_def restrict_map_def fun_eq_iff)
next
  case False
  with assms(1) show ?thesis
    by (simp add: Event_destroy_def ev_owned_def restrict_map_def)
qed

lemma Event_release_ok:
  assumes "heap_ok h" and "ev_ok h e"
  shows "\<exists>h'. Event_release e h = Inr (e\<lparr>ev_pData := 0, ev_length := 0\<rparr>, h') \<and>
     heap_ok h' \<and> blocks h' = blocks h |` (- ev_owned e)"
  using Event_destroy_ok [OF assms] by (auto simp: Event_release_def)

lemma Event_copy_ok:
  assumes "heap_ok h" and "ev_ok h e"
  shows "\<exists>e' h'. Event_copy e h = Inr (e', h') \<and> heap_ok h' \<and> ev_ok h' e' \<and>
     ev_value h' e' = ev_value h e \<and> ev_owned e' \<inter> dom (blocks h) = {} \<and>
     dom (blocks h') = dom (blocks h) \<union> ev_owned e' \<and>
     (\<forall>p \<in> dom (blocks h). blocks h' p = blocks h p)"
proof (cases "ev_length e > 0")
  case True
  then obtain b where b: "blocks h (ev_pData e) = Some b" "length b = nat (ev_length e) + 1"
    using assms(2) by (auto simp: ev_ok_def split: option.splits)
  then obtain h' where h': "copy_data (ev_pData e) (ev_length e) h = Inr (hp_next h, h')"
    "heap_ok h'"
    "blocks h' = (blocks h)(hp_next h \<mapsto> take (nat (ev_length e)) b @ [Some (CHR 0x00)])"
    using copy_data_ok [OF assms(1), of "ev_pData e" b "ev_length e"] by auto
  have fresh: "blocks h (hp_next h) = None" using assms(1) by (rule heap_ok_next)
  show ?thesis
    using True h' b fresh assms(1)
    by (auto simp: Event_copy_def ev_ok_def ev_value_def ev_payload_def ev_owned_def nth_append)
next
  case False
  then have "Event_copy e h = Inr (e, h)" by (simp add: Event_copy_def)
  with False assms show ?thesis by (auto simp: ev_owned_def)
qed

lemma Event_create_ok:
  assumes "heap_ok h" and "len > 0 \<Longrightarrow> blocks h src = Some b" and "len > 0 \<Longrightarrow> nat len \<le> length b"
  shows "\<exists>e h'. Event_create src len st lv pri h = Inr (e, h') \<and> heap_ok h' \<and> ev_ok h' e \<and>
     ev_value h' e = (if len > 0 then Owned (take (nat len) b)
                      else if len = 0 then Borrowed src else Borrowed 0, st, lv, pri) \<and>
     ev_owned e \<inter> dom (blocks h) = {} \<and> dom (blocks h') = dom (blocks h) \<union> ev_owned e \<and>
     (\<forall>p \<in> dom (blocks h). blocks h' p = blocks h p)"
proof (cases "len > 0")
  case True
  then have src: "blocks h src = Some b" "nat len \<le> length b" using assms(2,3) by auto
  then have "src \<noteq> 0" using heap_ok_live [OF assms(1)] by blast
  moreover obtain h' where h': "copy_data src len h = Inr (hp_next h, h')" "heap_ok h'"
    "blocks h' = (blocks h)(hp_next h \<mapsto> take (nat len) b @ [Some (CHR 0x00)])"
    using copy_data_ok [OF assms(1) src] by auto
  moreover have fresh: "blocks h (hp_next h) = None" using assms(1) by (rule heap_ok_next)
  ultimately show ?thesis
    using True src(2) assms(1)
    by (auto simp: Event_create_def ev_ok_def ev_value_def ev_payload_def ev_owned_def nth_append)
next
  case False
  with assms(1) show ?thesis
    by (auto simp: Event_create_def ev_ok_def ev_value_def ev_payload_def ev_owned_def)
qed

text \<open>Assignment from another object frees the old data and copies the new.\<close>

lemma Event_assign_other:
  assumes "d < length arr" and "r \<noteq> Slot d"
  shows "Event_assign d r arr h =
     bindR (Event_destroy (arr ! d) h) (\<lambda>h1.
     bindR (Event_copy (deref arr r) h1) (\<lambda>(e, h2). Inr (arr[d := e], h2)))"
proof -
  have d: "deref (xs[d := x]) r = deref xs r" for x xs
    using assms(2) by (cases r) auto
  have u: "e\<lparr>ev_status := s, ev_level := l, ev_priority := p, ev_length := n, ev_pData := a\<rparr> =
     \<lparr>ev_pData = a, ev_length = n, ev_status = s, ev_level = l, ev_priority = p\<rparr>"
    for e :: Event and s l p n a by (cases e) simp
  show ?thesis
    using assms(1)
    by (cases "0 < ev_length (deref arr r)"; cases "Event_destroy (arr ! d) h")
      (simp_all add: Event_assign_def Event_copy_def copy_data_def d u Let_def bindR_assoc split_def)
qed

lemma Event_assign_ok:
  assumes "heap_ok h" and "d < length arr" and "r \<noteq> Slot d"
    and "ev_ok h (arr ! d)" and "ev_ok h (deref arr r)"
    and "ev_owned (arr ! d) \<inter> ev_owned (deref arr r) = {}"
  shows "\<exists>e h'. Event_assign d r arr h = Inr (arr[d := e], h') \<and> heap_ok h' \<and> ev_ok h' e \<and>
     ev_value h' e = ev_value h (deref arr r) \<and>
     ev_owned e \<inter> (dom (blocks h) - ev_owned (arr ! d)) = {} \<and>
     dom (blocks h') = dom (blocks h) - ev_owned (arr ! d) \<union> ev_owned e \<and>
     (\<forall>p \<in> dom (blocks h) - ev_owned (arr ! d). blocks h' p = blocks h p)"
proof -
  let ?src = "deref arr r" and ?O = "ev_owned (arr ! d)"
  obtain h1 where h1: "Event_destroy (arr ! d) h = Inr h1" "heap_ok h1"
    "blocks h1 = blocks h |` (- ?O)"
    using Event_destroy_ok [OF assms(1,4)] by auto
  have dom1: "dom (blocks h1) = dom (blocks h) - ?O" using h1(3) by auto
  have same1: "blocks h1 p = blocks h p" if "p \<in> ev_owned ?src" for p
    using that assms(6) h1(3) by (auto simp: restrict_map_def)
  have src1: "ev_ok h1 ?src" "ev_value h1 ?src = ev_value h ?src"
    using assms(5) ev_ok_cong [OF subset_refl same1] ev_value_cong [OF subset_refl same1]
    by simp_all
  from Event_copy_ok [OF h1(2) src1(1)]
  obtain e h2 where e: "Event_copy ?src h1 = Inr (e, h2)" "heap_ok h2" "ev_ok h2 e"
    "ev_value h2 e = ev_value h1 ?src" "ev_owned e \<inter> dom (blocks h1) = {}"
    "dom (blocks h2) = dom (blocks h1) \<union> ev_owned e"
    "\<forall>p \<in> dom (blocks h1). blocks h2 p = blocks h1 p" by blast
  have "Event_assign d r arr h = Inr (arr[d := e], h2)"
    using Event_assign_other [OF assms(2,3)] h1(1) e(1) by simp
  moreover have "\<forall>p \<in> dom (blocks h) - ?O. blocks h2 p = blocks h p"
    using e(7) dom1 h1(3) by (auto simp: restrict_map_def)
  ultimately show ?thesis
    using e dom1 src1(2) by auto
qed

text \<open>
  The assignment operator does not survive self-assignment: it frees its own block
  first and then copies a fresh, never written block onto itself, so an event that owned data
  ends up with as many cells and no value in any of them.
\<close>

lemma Event_self_assign_loses_data:
  assumes "heap_ok h" and "d < length arr" and "ev_ok h (arr ! d)" and "0 < ev_length (arr ! d)"
  shows "\<exists>arr' h'. Event_assign d (Slot d) arr h = Inr (arr', h') \<and>
     ev_length (arr' ! d) = ev_length (arr ! d) \<and>
     ev_payload h' (arr' ! d) = Owned (replicate (nat (ev_length (arr ! d))) None)"
proof -
  obtain h1 where h1: "Event_destroy (arr ! d) h = Inr h1" "heap_ok h1"
    using Event_destroy_ok [OF assms(1,3)] by auto
  have "0 < hp_next h1" using h1(2) by simp
  with assms h1(1) show ?thesis
    by (simp add: Event_assign_def new_array_def write_cells_def memcpy_def read_cells_def
        Let_def ev_payload_def)
qed

text \<open>A live event holding one byte, in an array of one slot.\<close>

lemma Event_self_assign_loses_data_witness:
  "\<exists>arr' h'. Event_assign 0 (Slot 0) [Event_default\<lparr>ev_pData := 1, ev_length := 1\<rparr>]
      \<lparr>blocks = [1 \<mapsto> [Some (CHR ''a''), Some (CHR 0x00)]], hp_next = 2\<rparr> = Inr (arr', h') \<and>
     ev_length (arr' ! 0) = 1 \<and> ev_payload h' (arr' ! 0) = Owned [None]"
  using Event_self_assign_loses_data
    [of "\<lparr>blocks = [1 \<mapsto> [Some (CHR ''a''), Some (CHR 0x00)]], hp_next = 2\<rparr>" 0
        "[Event_default\<lparr>ev_pData := 1, ev_length := 1\<rparr>]"]
  by (simp add: heap_ok_def ev_ok_def Event_default_def)

text \<open>
  \<^verbatim>\<open>allocate\<close> on a well-formed event: it refuses an event that is not ready and a
  negative length with -1 and changes nothing; otherwise it frees what the event owned,
  returns the length and leaves the event well-formed, owning a copy of the source or
  borrowing the pointer.
\<close>

lemma Event_allocate_ok:
  assumes "heap_ok h" and "ev_ok h e"
    and "len > 0 \<Longrightarrow> blocks h src = Some b" and "len > 0 \<Longrightarrow> nat len \<le> length b"
    and "src \<notin> ev_owned e"
  shows "\<exists>ret e' h'. Event_allocate src len e h = Inr (ret, e', h') \<and> heap_ok h' \<and> ev_ok h' e' \<and>
     (if ev_status e \<noteq> STATUS_READY \<or> len < 0 then ret = -1 \<and> e' = e \<and> h' = h
      else ret = len \<and>
        ev_payload h' e' = (if len > 0 then Owned (take (nat len) b) else Borrowed src) \<and>
        dom (blocks h') = dom (blocks h) - ev_owned e \<union> ev_owned e')"
proof (cases "ev_status e \<noteq> STATUS_READY \<or> len < 0")
  case True
  then have "Event_allocate src len e h = Inr (-1, e, h)" by (auto simp: Event_allocate_def)
  with True assms(1,2) show ?thesis by auto
next
  case False
  obtain h1 where h1: "Event_destroy e h = Inr h1" "heap_ok h1" "blocks h1 = blocks h |` (- ev_owned e)"
    using Event_destroy_ok [OF assms(1,2)] by auto
  show ?thesis
  proof (cases "len = 0")
    case True
    with False h1 show ?thesis
      by (auto simp: Event_allocate_def ev_ok_def ev_payload_def ev_owned_def)
  next
    case nz: False
    then have len: "len > 0" and b: "blocks h src = Some b" "nat len \<le> length b"
      using False assms(3,4) by auto
    then have src: "blocks h1 src = Some b" "src \<noteq> 0" "src \<noteq> hp_next h1"
      using h1 assms(5) heap_ok_live [OF assms(1)] heap_ok_next [OF h1(2)]
      by (auto simp: restrict_map_def)
    have "dom (blocks h1) = dom (blocks h) - ev_owned e" using h1(3) by auto
    with False len b h1 src heap_ok_pos [OF h1(2)] show ?thesis
      by (auto simp: Event_allocate_def new_array_def write_cells_def memcpy_def read_cells_def
          ev_ok_def ev_payload_def ev_owned_def heap_ok_def nth_append min_absorb2)
  qed
qed

lemma Event_allocate_ok_witness:
  "\<exists>ret e' h'. Event_allocate 1 2 Event_default
      \<lparr>blocks = [1 \<mapsto> [Some (CHR ''a''), Some (CHR ''b'')]], hp_next = 2\<rparr> = Inr (ret, e', h') \<and>
     ret = 2 \<and> ev_payload h' e' = Owned [Some (CHR ''a''), Some (CHR ''b'')]"
  using Event_allocate_ok
    [of "\<lparr>blocks = [1 \<mapsto> [Some (CHR ''a''), Some (CHR ''b'')]], hp_next = 2\<rparr>" Event_default 2 1
        "[Some (CHR ''a''), Some (CHR ''b'')]"]
  by (auto simp: heap_ok_def ev_ok_def Event_default_def ev_owned_def)

end
