(* ===== verification/Locks.thy ===== *)
theory Locks
  imports Prelude
begin

text \<open>
  The lock wrappers of \<^verbatim>\<open>svrutil.h\<close>: \<^verbatim>\<open>SRWLock\<close> and \<^verbatim>\<open>CriticalSection\<close>. The Windows
  primitives they call are a parameter: a record of functions on an unknown lock state, a
  call that does not return being \<open>None\<close>. What the wrappers rely on is the locale
  \<open>srw_laws\<close>. \<open>exclusive\<close> and \<open>shared\<close> bracket the body of a method between the
  acquire and the release call, the way every locked method of the sources is written.
\<close>

section \<open>SRWLock\<close>

record 'l srw_api =
  InitializeSRWLock :: 'l
  AcquireSRWLockExclusive :: "'l \<Rightarrow> 'l option"
  AcquireSRWLockShared :: "'l \<Rightarrow> 'l option"
  ReleaseSRWLockExclusive :: "'l \<Rightarrow> 'l"
  ReleaseSRWLockShared :: "'l \<Rightarrow> 'l"
  TryAcquireSRWLockExclusive :: "'l \<Rightarrow> 'l option"
  TryAcquireSRWLockShared :: "'l \<Rightarrow> 'l option"

record 'l SRWLock =
  srw_lock :: 'l
  readThreadCount :: int
  writeThreadCount :: int

definition SRWLock_init :: "'l srw_api \<Rightarrow> 'l SRWLock" where
  "SRWLock_init api =
     \<lparr>srw_lock = InitializeSRWLock api, readThreadCount = 0, writeThreadCount = 0\<rparr>"

definition AcquireExclusive :: "'l srw_api \<Rightarrow> 'l SRWLock \<Rightarrow> 'l SRWLock res" where
  "AcquireExclusive api l =
     (let l1 = l\<lparr>writeThreadCount := writeThreadCount l + 1\<rparr>
      in case AcquireSRWLockExclusive api (srw_lock l1) of
           None \<Rightarrow> Inl WouldBlock
         | Some k \<Rightarrow> Inr (l1\<lparr>srw_lock := k\<rparr>))"

definition AcquireShared :: "'l srw_api \<Rightarrow> 'l SRWLock \<Rightarrow> 'l SRWLock res" where
  "AcquireShared api l =
     (let l1 = l\<lparr>readThreadCount := readThreadCount l + 1\<rparr>
      in case AcquireSRWLockShared api (srw_lock l1) of
           None \<Rightarrow> Inl WouldBlock
         | Some k \<Rightarrow> Inr (l1\<lparr>srw_lock := k\<rparr>))"

definition ReleaseExclusive :: "'l srw_api \<Rightarrow> 'l SRWLock \<Rightarrow> 'l SRWLock" where
  "ReleaseExclusive api l =
     (let l1 = l\<lparr>writeThreadCount := writeThreadCount l - 1\<rparr>
      in l1\<lparr>srw_lock := ReleaseSRWLockExclusive api (srw_lock l1)\<rparr>)"

definition ReleaseShared :: "'l srw_api \<Rightarrow> 'l SRWLock \<Rightarrow> 'l SRWLock" where
  "ReleaseShared api l =
     (let l1 = l\<lparr>readThreadCount := readThreadCount l - 1\<rparr>
      in l1\<lparr>srw_lock := ReleaseSRWLockShared api (srw_lock l1)\<rparr>)"

definition TryAcquireExclusive :: "'l srw_api \<Rightarrow> 'l SRWLock \<Rightarrow> bool \<times> 'l SRWLock" where
  "TryAcquireExclusive api l =
     (case TryAcquireSRWLockExclusive api (srw_lock l) of
        Some k \<Rightarrow> (True, l\<lparr>srw_lock := k, writeThreadCount := writeThreadCount l + 1\<rparr>)
      | None \<Rightarrow> (False, l))"

definition TryAcquireShared :: "'l srw_api \<Rightarrow> 'l SRWLock \<Rightarrow> bool \<times> 'l SRWLock" where
  "TryAcquireShared api l =
     (case TryAcquireSRWLockShared api (srw_lock l) of
        Some k \<Rightarrow> (True, l\<lparr>srw_lock := k, readThreadCount := readThreadCount l + 1\<rparr>)
      | None \<Rightarrow> (False, l))"

text \<open>
  \<open>sleep\<close> is what the system's call does to the lock (nothing, if it never returns). The method ends
  without returning a value, so its caller gets whatever \<open>garbage\<close> is found.
\<close>

definition SleepConditionVariable :: "('l \<Rightarrow> 'l option) \<Rightarrow> bool \<Rightarrow> 'l SRWLock \<Rightarrow> (bool \<times> 'l SRWLock) res" where
  "SleepConditionVariable sleep garbage l =
     (case sleep (srw_lock l) of None \<Rightarrow> Inl WouldBlock | Some k \<Rightarrow> Inr (garbage, l\<lparr>srw_lock := k\<rparr>))"

text \<open>A method body between the acquire call and the release call.\<close>

definition exclusive ::
  "'l srw_api \<Rightarrow> ('s \<Rightarrow> 'l SRWLock) \<Rightarrow> ('l SRWLock \<Rightarrow> 's \<Rightarrow> 's)
     \<Rightarrow> ('s \<Rightarrow> ('a \<times> 's) res) \<Rightarrow> 's \<Rightarrow> ('a \<times> 's) res" where
  "exclusive api get set_lock body s =
     bindR (AcquireExclusive api (get s)) (\<lambda>l.
     bindR (body (set_lock l s)) (\<lambda>(r, s').
     Inr (r, set_lock (ReleaseExclusive api (get s')) s')))"

definition shared ::
  "'l srw_api \<Rightarrow> ('s \<Rightarrow> 'l SRWLock) \<Rightarrow> ('l SRWLock \<Rightarrow> 's \<Rightarrow> 's)
     \<Rightarrow> ('s \<Rightarrow> ('a \<times> 's) res) \<Rightarrow> 's \<Rightarrow> ('a \<times> 's) res" where
  "shared api get set_lock body s =
     bindR (AcquireShared api (get s)) (\<lambda>l.
     bindR (body (set_lock l s)) (\<lambda>(r, s').
     Inr (r, set_lock (ReleaseShared api (get s')) s')))"

text \<open>No thread holds the lock.\<close>

definition idle :: "'l srw_api \<Rightarrow> 'l SRWLock \<Rightarrow> bool" where
  "idle api l \<longleftrightarrow> srw_lock l = InitializeSRWLock api"

subsection \<open>What the wrapper relies on\<close>

text \<open>
  The documented behaviour of slim reader/writer locks: an initialised lock can be taken in
  either mode, a release undoes the matching acquire, an exclusive owner excludes everybody
  and a shared owner excludes exclusive ones (a lock taken once is not taken again: SRW locks
  are not recursive), and the try calls succeed exactly when the blocking ones return.
\<close>

locale srw_laws =
  fixes api :: "'l srw_api"
  assumes acquire_exclusive_init:
      "AcquireSRWLockExclusive api (InitializeSRWLock api) \<noteq> None"
    and acquire_shared_init:
      "AcquireSRWLockShared api (InitializeSRWLock api) \<noteq> None"
    and release_exclusive:
      "AcquireSRWLockExclusive api l = Some k \<Longrightarrow> ReleaseSRWLockExclusive api k = l"
    and release_shared:
      "AcquireSRWLockShared api l = Some k \<Longrightarrow> ReleaseSRWLockShared api k = l"
    and exclusive_excludes:
      "AcquireSRWLockExclusive api l = Some k \<Longrightarrow>
         AcquireSRWLockExclusive api k = None \<and> AcquireSRWLockShared api k = None"
    and shared_excludes:
      "AcquireSRWLockShared api l = Some k \<Longrightarrow> AcquireSRWLockExclusive api k = None"
    and try_exclusive:
      "TryAcquireSRWLockExclusive api = AcquireSRWLockExclusive api"
    and try_shared:
      "TryAcquireSRWLockShared api = AcquireSRWLockShared api"
begin

lemma AcquireExclusive_idle:
  assumes "idle api l"
  obtains k where "AcquireExclusive api l = Inr k"
    and "ReleaseExclusive api k = l"
    and "AcquireExclusive api k = Inl WouldBlock" and "AcquireShared api k = Inl WouldBlock"
proof -
  obtain x where x: "AcquireSRWLockExclusive api (srw_lock l) = Some x"
    using acquire_exclusive_init assms by (auto simp: idle_def)
  show ?thesis
    by (rule that [of "l\<lparr>srw_lock := x, writeThreadCount := writeThreadCount l + 1\<rparr>"])
      (use x exclusive_excludes [OF x] release_exclusive [OF x] in
        \<open>simp_all add: AcquireExclusive_def ReleaseExclusive_def AcquireShared_def\<close>)
qed

lemma AcquireShared_idle:
  assumes "idle api l"
  obtains k where "AcquireShared api l = Inr k"
    and "ReleaseShared api k = l" and "AcquireExclusive api k = Inl WouldBlock"
proof -
  obtain x where x: "AcquireSRWLockShared api (srw_lock l) = Some x"
    using acquire_shared_init assms by (auto simp: idle_def)
  show ?thesis
    by (rule that [of "l\<lparr>srw_lock := x, readThreadCount := readThreadCount l + 1\<rparr>"])
      (use x shared_excludes [OF x] release_shared [OF x] in
        \<open>simp_all add: AcquireShared_def ReleaseShared_def AcquireExclusive_def\<close>)
qed

text \<open>
  A locked method on an idle lock is its body: if the body gives the same result under
  every value of the lock and leaves the lock alone, so does the whole method, and the lock
  is idle again afterwards.
\<close>

lemma exclusive_eq:
  assumes "idle api (get s)"
    and "\<And>l. body (set_lock l s) = Inr (r, set_lock l s')"
    and "\<And>l. get (set_lock l s') = l"
    and "\<And>l k. set_lock k (set_lock l s') = set_lock k s'" and "set_lock (get s) s' = s'"
  shows "exclusive api get set_lock body s = Inr (r, s')"
  by (rule AcquireExclusive_idle [OF assms(1)]) (simp add: exclusive_def assms(2-5))

lemma shared_eq:
  assumes "idle api (get s)"
    and "\<And>l. body (set_lock l s) = Inr (r, set_lock l s')"
    and "\<And>l. get (set_lock l s') = l"
    and "\<And>l k. set_lock k (set_lock l s') = set_lock k s'" and "set_lock (get s) s' = s'"
  shows "shared api get set_lock body s = Inr (r, s')"
  by (rule AcquireShared_idle [OF assms(1)]) (simp add: shared_def assms(2-5))

end

text \<open>A reference lock: free, held by readers, or held by one writer.\<close>

datatype srw_state = SrwFree | SrwShared nat | SrwExclusive

definition srw_acquire_exclusive :: "srw_state \<Rightarrow> srw_state option" where
  "srw_acquire_exclusive l = (case l of SrwFree \<Rightarrow> Some SrwExclusive | _ \<Rightarrow> None)"

definition srw_acquire_shared :: "srw_state \<Rightarrow> srw_state option" where
  "srw_acquire_shared l =
     (case l of SrwFree \<Rightarrow> Some (SrwShared 0) | SrwShared n \<Rightarrow> Some (SrwShared (Suc n))
      | SrwExclusive \<Rightarrow> None)"

definition srw_release_shared :: "srw_state \<Rightarrow> srw_state" where
  "srw_release_shared l = (case l of SrwShared (Suc n) \<Rightarrow> SrwShared n | _ \<Rightarrow> SrwFree)"

definition srw_ref :: "srw_state srw_api" where
  "srw_ref =
     \<lparr>InitializeSRWLock = SrwFree,
      AcquireSRWLockExclusive = srw_acquire_exclusive,
      AcquireSRWLockShared = srw_acquire_shared,
      ReleaseSRWLockExclusive = (\<lambda>_. SrwFree),
      ReleaseSRWLockShared = srw_release_shared,
      TryAcquireSRWLockExclusive = srw_acquire_exclusive,
      TryAcquireSRWLockShared = srw_acquire_shared\<rparr>"

interpretation srw_ref: srw_laws srw_ref
  by unfold_locales
    (auto simp: srw_ref_def srw_acquire_exclusive_def srw_acquire_shared_def
      srw_release_shared_def split: srw_state.splits nat.splits)

section \<open>CriticalSection\<close>

text \<open>
  The constructor sets neither field (\<^verbatim>\<open>CriticalSection() { }\<close>), so the count a new object
  starts from is whatever the memory held: an argument of \<open>CriticalSection_create\<close>.
\<close>

record 'c cs_api =
  InitializeCriticalSectionAndSpinCount :: "nat \<Rightarrow> 'c option"
  EnterCriticalSection :: "'c \<Rightarrow> 'c option"
  LeaveCriticalSection :: "'c \<Rightarrow> 'c"
  TryEnterCriticalSection :: "'c \<Rightarrow> 'c option"

record 'c CriticalSection =
  cs_lock :: 'c
  refCount :: int
  lockFlag :: bool

definition CriticalSection_init :: "'c cs_api \<Rightarrow> nat \<Rightarrow> 'c CriticalSection \<Rightarrow> bool \<times> 'c CriticalSection" where
  "CriticalSection_init api dwSpinCount c =
     (case InitializeCriticalSectionAndSpinCount api dwSpinCount of
        None \<Rightarrow> (False, c\<lparr>lockFlag := False\<rparr>)
      | Some k \<Rightarrow> (True, c\<lparr>cs_lock := k, lockFlag := True\<rparr>))"

text \<open>Whether the destructor deletes the system's section: only if there is one.\<close>

definition CriticalSection_destroy :: "'c CriticalSection \<Rightarrow> bool" where
  "CriticalSection_destroy c = lockFlag c"

text \<open>The object, or the null pointer and whether the destructor deleted a section. \<open>garbage\<close> is the new memory.\<close>

definition CriticalSection_create :: "'c cs_api \<Rightarrow> nat \<Rightarrow> 'c CriticalSection \<Rightarrow> 'c CriticalSection + bool" where
  "CriticalSection_create api dwSpinCount garbage =
     (case CriticalSection_init api dwSpinCount garbage of
        (ok, c) \<Rightarrow> if ok then Inl c else Inr (CriticalSection_destroy c))"

lemma CriticalSection_create_result:
  "CriticalSection_create api n garbage =
     (case InitializeCriticalSectionAndSpinCount api n of
        None \<Rightarrow> Inr False
      | Some k \<Rightarrow> Inl (garbage\<lparr>cs_lock := k, lockFlag := True\<rparr>))"
  by (simp add: CriticalSection_create_def CriticalSection_init_def CriticalSection_destroy_def split: option.split)

definition getRefCount :: "'c CriticalSection \<Rightarrow> int" where
  "getRefCount c = refCount c"

definition cs_enter :: "'c cs_api \<Rightarrow> 'c CriticalSection \<Rightarrow> (bool \<times> 'c CriticalSection) res" where
  "cs_enter api c =
     (case EnterCriticalSection api (cs_lock c) of
        None \<Rightarrow> Inl WouldBlock
      | Some k \<Rightarrow> Inr (True, c\<lparr>cs_lock := k, refCount := refCount c + 1\<rparr>))"

definition cs_leave :: "'c cs_api \<Rightarrow> 'c CriticalSection \<Rightarrow> bool \<times> 'c CriticalSection" where
  "cs_leave api c =
     (if refCount c > 0
      then (True, c\<lparr>cs_lock := LeaveCriticalSection api (cs_lock c), refCount := refCount c - 1\<rparr>)
      else (False, c))"

definition cs_tryEnter :: "'c cs_api \<Rightarrow> 'c CriticalSection \<Rightarrow> bool \<times> 'c CriticalSection" where
  "cs_tryEnter api c =
     (case TryEnterCriticalSection api (cs_lock c) of
        None \<Rightarrow> (False, c)
      | Some k \<Rightarrow> (True, c\<lparr>cs_lock := k, refCount := refCount c + 1\<rparr>))"

text \<open>
  What a user of a critical section relies on: a new section can be entered, and leaving undoes
  entering. \<open>locked\<close> is a method body between the two calls.
\<close>

definition locked ::
  "'c cs_api \<Rightarrow> ('s \<Rightarrow> 'c) \<Rightarrow> ('c \<Rightarrow> 's \<Rightarrow> 's) \<Rightarrow> ('s \<Rightarrow> ('a \<times> 's) res) \<Rightarrow> 's \<Rightarrow> ('a \<times> 's) res" where
  "locked api get set_lock body s =
     (case EnterCriticalSection api (get s) of
        None \<Rightarrow> Inl WouldBlock
      | Some k \<Rightarrow> bindR (body (set_lock k s)) (\<lambda>(r, s').
          Inr (r, set_lock (LeaveCriticalSection api (get s')) s')))"

definition cs_free :: "'c cs_api \<Rightarrow> 'c \<Rightarrow> bool" where
  "cs_free api c \<longleftrightarrow> EnterCriticalSection api c \<noteq> None"

locale cs_laws =
  fixes api :: "'c cs_api"
  assumes init_free: "InitializeCriticalSectionAndSpinCount api n = Some c \<Longrightarrow> cs_free api c"
    and leave_enter: "EnterCriticalSection api c = Some k \<Longrightarrow> LeaveCriticalSection api k = c"
begin

lemma locked_eq:
  assumes "cs_free api (get s)"
    and "\<And>l. body (set_lock l s) = Inr (r, set_lock l s')"
    and "\<And>l. get (set_lock l s') = l"
    and "\<And>l k. set_lock k (set_lock l s') = set_lock k s'" and "set_lock (get s) s' = s'"
  shows "locked api get set_lock body s = Inr (r, s')"
  using assms(1) by (auto simp: cs_free_def locked_def assms(2-5) leave_enter)

end

text \<open>
  What enter followed by leave does depends on the count the object happened to start
  from: from a count that is not negative the section is back where it was, from a negative
  one leave refuses and the section stays entered.
\<close>

lemma cs_enter_leave:
  assumes "EnterCriticalSection api (cs_lock c) = Some k"
    and "LeaveCriticalSection api k = cs_lock c"
  shows "bindR (cs_enter api c) (\<lambda>(_, c'). Inr (cs_leave api c')) =
     (if 0 \<le> refCount c then Inr (True, c)
      else Inr (False, c\<lparr>cs_lock := k, refCount := refCount c + 1\<rparr>))"
  using assms by (simp add: cs_enter_def cs_leave_def)

text \<open>A section that counts its entries, from an object whose count started at -1.\<close>

definition cs_ref :: "nat cs_api" where
  "cs_ref =
     \<lparr>InitializeCriticalSectionAndSpinCount = (\<lambda>_. Some 0),
      EnterCriticalSection = (\<lambda>n. Some (Suc n)),
      LeaveCriticalSection = (\<lambda>n. n - 1),
      TryEnterCriticalSection = (\<lambda>n. Some (Suc n))\<rparr>"

interpretation cs_ref: cs_laws cs_ref
  by unfold_locales (auto simp: cs_ref_def cs_free_def)

lemma cs_enter_leave_witness:
  "bindR (cs_enter cs_ref \<lparr>cs_lock = 0, refCount = -1, lockFlag = True\<rparr>) (\<lambda>(_, c'). Inr (cs_leave cs_ref c')) =
     Inr (False, \<lparr>cs_lock = 1, refCount = 0, lockFlag = True\<rparr>)"
  using cs_enter_leave [of cs_ref "\<lparr>cs_lock = 0, refCount = -1, lockFlag = True\<rparr>" 1]
  by (simp add: cs_ref_def)

end
