(* ===== verification/Sessions.thy ===== *)
theory Sessions
  imports Events Locks
begin

text \<open>
  The class \<^verbatim>\<open>svr::Session\<close> of \<^verbatim>\<open>server.h\<close>: a bounded double-ended queue of events in a
  circular array, a key-value map and three attributes, every method under the session's
  lock. The lemmas here say what
  one method does to a well-formed session; \<open>Session_Deque\<close> turns them into the session's
  contract.
\<close>

named_theorems session_defs \<open>definitions of the session's methods\<close>

section \<open>State\<close>

definition DEFAULT_QUEUE_SIZE :: int where "DEFAULT_QUEUE_SIZE = 170"

record m_queue =
  q_size :: int
  q_maxSize :: int
  q_head :: int
  q_tail :: int
  q_eventArr :: "Event list"

definition q_isFull :: "m_queue \<Rightarrow> bool" where
  "q_isFull q \<longleftrightarrow> q_size q = q_maxSize q"

definition q_isEmpty :: "m_queue \<Rightarrow> bool" where
  "q_isEmpty q \<longleftrightarrow> q_size q = 0"

record 'l Session =
  eventQueue :: m_queue
  s_key :: string
  s_kv_map :: "(string, addr) smap"
  s_level :: Level
  s_status :: Status
  s_priority :: Priority
  sessionLock :: "'l SRWLock"

text \<open>A session together with the heap its events point into.\<close>

type_synonym 'l sess = "heap \<times> 'l Session"

definition sess_lock :: "'l sess \<Rightarrow> 'l SRWLock" where
  "sess_lock st = sessionLock (snd st)"

definition set_sess_lock :: "'l SRWLock \<Rightarrow> 'l sess \<Rightarrow> 'l sess" where
  "set_sess_lock l st = (fst st, (snd st)\<lparr>sessionLock := l\<rparr>)"

definition Session_create ::
  "'l srw_api \<Rightarrow> string \<Rightarrow> int \<Rightarrow> Status \<Rightarrow> Level \<Rightarrow> Priority \<Rightarrow> 'l Session" where
  "Session_create api key maxSize status level pri =
     (let m = (if maxSize \<le> 0 then DEFAULT_QUEUE_SIZE else maxSize);
          t = m div 2
      in \<lparr>eventQueue =
            \<lparr>q_size = 0, q_maxSize = m, q_head = t, q_tail = t,
             q_eventArr = replicate (nat m) Event_default\<rparr>,
          s_key = key, s_kv_map = [], s_level = level, s_status = status, s_priority = pri,
          sessionLock = SRWLock_init api\<rparr>)"

section \<open>Queue steps\<close>

text \<open>\<^verbatim>\<open>eventArr[i] = event\<close> and \<^verbatim>\<open>eventArr[i].release()\<close>; an index outside the array is a fault.\<close>

definition put_slot :: "int \<Rightarrow> event_ref \<Rightarrow> m_queue \<Rightarrow> heap \<Rightarrow> (m_queue \<times> heap) res" where
  "put_slot i r q h =
     (if 0 \<le> i \<and> nat i < length (q_eventArr q) then
        bindR (Event_assign (nat i) r (q_eventArr q) h) (\<lambda>(arr, h').
          Inr (q\<lparr>q_eventArr := arr\<rparr>, h'))
      else Inl OutOfBounds)"

definition release_slot :: "int \<Rightarrow> m_queue \<Rightarrow> heap \<Rightarrow> (m_queue \<times> heap) res" where
  "release_slot i q h =
     (if 0 \<le> i \<and> nat i < length (q_eventArr q) then
        bindR (Event_release (q_eventArr q ! nat i) h) (\<lambda>(e, h').
          Inr (q\<lparr>q_eventArr := (q_eventArr q)[nat i := e]\<rparr>, h'))
      else Inl OutOfBounds)"

definition q_push_back :: "event_ref \<Rightarrow> m_queue \<Rightarrow> heap \<Rightarrow> (m_queue \<times> heap) res" where
  "q_push_back r q h =
     (let q1 = q\<lparr>q_tail := (if q_tail q \<noteq> q_maxSize q - 1 then q_tail q + 1 else 0)\<rparr> in
      bindR (put_slot (q_tail q1) r q1 h) (\<lambda>(q2, h').
      Inr (if q_size q2 \<noteq> 0 then q2\<lparr>q_size := q_size q2 + 1\<rparr>
           else q2\<lparr>q_size := q_size q2 + 1, q_head := q_tail q2\<rparr>, h')))"

definition q_push_front :: "event_ref \<Rightarrow> m_queue \<Rightarrow> heap \<Rightarrow> (m_queue \<times> heap) res" where
  "q_push_front r q h =
     (let q1 = q\<lparr>q_head := (if q_head q \<noteq> 0 then q_head q - 1 else q_maxSize q - 1)\<rparr> in
      bindR (put_slot (q_head q1) r q1 h) (\<lambda>(q2, h').
      Inr (if q_size q2 \<noteq> 0 then q2\<lparr>q_size := q_size q2 + 1\<rparr>
           else q2\<lparr>q_size := q_size q2 + 1, q_tail := q_head q2\<rparr>, h')))"

definition q_pop_front :: "m_queue \<Rightarrow> heap \<Rightarrow> (m_queue \<times> heap) res" where
  "q_pop_front q h =
     bindR (release_slot (q_head q) q h) (\<lambda>(q1, h').
     let q2 = q1\<lparr>q_head := (if q_head q1 \<noteq> q_maxSize q1 - 1 then q_head q1 + 1 else 0)\<rparr> in
     Inr (if q_size q2 > 1 then q2\<lparr>q_size := q_size q2 - 1\<rparr>
          else q2\<lparr>q_size := q_size q2 - 1, q_tail := q_head q2\<rparr>, h'))"

definition q_pop_back :: "m_queue \<Rightarrow> heap \<Rightarrow> (m_queue \<times> heap) res" where
  "q_pop_back q h =
     bindR (release_slot (q_tail q) q h) (\<lambda>(q1, h').
     let q2 = q1\<lparr>q_tail := (if q_tail q1 = 0 then q_maxSize q1 - 1 else q_tail q1 - 1)\<rparr> in
     Inr (if q_size q2 > 1 then q2\<lparr>q_size := q_size q2 - 1\<rparr>
          else q2\<lparr>q_size := q_size q2 - 1, q_head := q_tail q2\<rparr>, h'))"

section \<open>Methods\<close>

definition pushBack :: "'l srw_api \<Rightarrow> event_ref \<Rightarrow> 'l sess \<Rightarrow> (bool \<times> 'l sess) res" where
  "pushBack api r =
     exclusive api sess_lock set_sess_lock (\<lambda>(h, s).
       if STATUS_HALT \<noteq> s_status s \<and> \<not> q_isFull (eventQueue s) then
         bindR (q_push_back r (eventQueue s) h) (\<lambda>(q, h'). Inr (True, h', s\<lparr>eventQueue := q\<rparr>))
       else Inr (False, h, s))"

definition pushFront :: "'l srw_api \<Rightarrow> event_ref \<Rightarrow> 'l sess \<Rightarrow> (bool \<times> 'l sess) res" where
  "pushFront api r =
     exclusive api sess_lock set_sess_lock (\<lambda>(h, s).
       if STATUS_HALT \<noteq> s_status s \<and> \<not> q_isFull (eventQueue s) then
         bindR (q_push_front r (eventQueue s) h) (\<lambda>(q, h'). Inr (True, h', s\<lparr>eventQueue := q\<rparr>))
       else Inr (False, h, s))"

definition popFront :: "'l srw_api \<Rightarrow> 'l sess \<Rightarrow> (bool \<times> 'l sess) res" where
  "popFront api =
     exclusive api sess_lock set_sess_lock (\<lambda>(h, s).
       if STATUS_HALT \<noteq> s_status s \<and> \<not> q_isEmpty (eventQueue s) then
         bindR (q_pop_front (eventQueue s) h) (\<lambda>(q, h'). Inr (True, h', s\<lparr>eventQueue := q\<rparr>))
       else Inr (False, h, s))"

definition popBack :: "'l srw_api \<Rightarrow> 'l sess \<Rightarrow> (bool \<times> 'l sess) res" where
  "popBack api =
     exclusive api sess_lock set_sess_lock (\<lambda>(h, s).
       if STATUS_HALT \<noteq> s_status s \<and> \<not> q_isEmpty (eventQueue s) then
         bindR (q_pop_back (eventQueue s) h) (\<lambda>(q, h'). Inr (True, h', s\<lparr>eventQueue := q\<rparr>))
       else Inr (False, h, s))"

text \<open>\<^verbatim>\<open>getFirst\<close> and \<^verbatim>\<open>getLast\<close> hand out the address of a slot: its index, or none.\<close>

definition getFirst :: "'l srw_api \<Rightarrow> 'l sess \<Rightarrow> (nat option \<times> 'l sess) res" where
  "getFirst api =
     shared api sess_lock set_sess_lock (\<lambda>(h, s).
       Inr (if STATUS_HALT \<noteq> s_status s \<and> \<not> q_isEmpty (eventQueue s)
            then Some (nat (q_head (eventQueue s))) else None, h, s))"

definition getLast :: "'l srw_api \<Rightarrow> 'l sess \<Rightarrow> (nat option \<times> 'l sess) res" where
  "getLast api =
     shared api sess_lock set_sess_lock (\<lambda>(h, s).
       Inr (if STATUS_HALT \<noteq> s_status s \<and> \<not> q_isEmpty (eventQueue s)
            then Some (nat (q_tail (eventQueue s))) else None, h, s))"

text \<open>The loop of \<^verbatim>\<open>clearEventQueue\<close>: \<open>n\<close> slots from \<open>index\<close> on, wrapping at the end.\<close>

fun clear_slots :: "nat \<Rightarrow> int \<Rightarrow> m_queue \<Rightarrow> heap \<Rightarrow> (m_queue \<times> heap) res" where
  "clear_slots 0 index q h = Inr (q, h)"
| "clear_slots (Suc n) index q h =
     bindR (release_slot index q h) (\<lambda>(q', h').
     clear_slots n (if index = q_maxSize q' - 1 then 0 else index + 1) q' h')"

definition q_clear :: "m_queue \<Rightarrow> heap \<Rightarrow> (m_queue \<times> heap) res" where
  "q_clear q h =
     bindR (clear_slots (nat (q_size q)) (q_head q) q h) (\<lambda>(q', h').
     let t = q_maxSize q' div 2 in Inr (q'\<lparr>q_size := 0, q_tail := t, q_head := t\<rparr>, h'))"

definition clearEventQueue :: "'l srw_api \<Rightarrow> 'l sess \<Rightarrow> (unit \<times> 'l sess) res" where
  "clearEventQueue api =
     exclusive api sess_lock set_sess_lock (\<lambda>(h, s).
       bindR (q_clear (eventQueue s) h) (\<lambda>(q, h'). Inr ((), h', s\<lparr>eventQueue := q\<rparr>)))"

text \<open>The destructor: the queue is cleared, then \<^verbatim>\<open>delete[] eventArr\<close> destroys every slot.\<close>

definition Session_destroy :: "'l srw_api \<Rightarrow> 'l sess \<Rightarrow> heap res" where
  "Session_destroy api st =
     bindR (clearEventQueue api st) (\<lambda>(_, h, s).
     foldR Event_destroy (rev (q_eventArr (eventQueue s))) h)"

definition s_getKey :: "'l sess \<Rightarrow> string" where
  "s_getKey st = s_key (snd st)"

definition s_getEventCount :: "'l srw_api \<Rightarrow> 'l sess \<Rightarrow> (int \<times> 'l sess) res" where
  "s_getEventCount api =
     shared api sess_lock set_sess_lock (\<lambda>(h, s). Inr (q_size (eventQueue s), h, s))"

definition s_getStatus :: "'l srw_api \<Rightarrow> 'l sess \<Rightarrow> (Status \<times> 'l sess) res" where
  "s_getStatus api = shared api sess_lock set_sess_lock (\<lambda>(h, s). Inr (s_status s, h, s))"

definition s_setStatus :: "'l srw_api \<Rightarrow> Status \<Rightarrow> 'l sess \<Rightarrow> (unit \<times> 'l sess) res" where
  "s_setStatus api st =
     exclusive api sess_lock set_sess_lock (\<lambda>(h, s). Inr ((), h, s\<lparr>s_status := st\<rparr>))"

definition s_getPriority :: "'l srw_api \<Rightarrow> 'l sess \<Rightarrow> (Priority \<times> 'l sess) res" where
  "s_getPriority api = shared api sess_lock set_sess_lock (\<lambda>(h, s). Inr (s_priority s, h, s))"

definition s_setPriority :: "'l srw_api \<Rightarrow> Priority \<Rightarrow> 'l sess \<Rightarrow> (unit \<times> 'l sess) res" where
  "s_setPriority api pri =
     exclusive api sess_lock set_sess_lock (\<lambda>(h, s). Inr ((), h, s\<lparr>s_priority := pri\<rparr>))"

definition s_put :: "'l srw_api \<Rightarrow> string \<Rightarrow> addr \<Rightarrow> 'l sess \<Rightarrow> (bool \<times> 'l sess) res" where
  "s_put api key v =
     exclusive api sess_lock set_sess_lock (\<lambda>(h, s).
       Inr (True, h, s\<lparr>s_kv_map := smap_put key v (s_kv_map s)\<rparr>))"

text \<open>\<^verbatim>\<open>get\<close> returns whether the key is there and the pointer it stores, \<^verbatim>\<open>NULL\<close> otherwise.\<close>

definition s_get :: "'l srw_api \<Rightarrow> string \<Rightarrow> 'l sess \<Rightarrow> ((bool \<times> addr) \<times> 'l sess) res" where
  "s_get api key =
     exclusive api sess_lock set_sess_lock (\<lambda>(h, s).
       Inr (case map_of (s_kv_map s) key of None \<Rightarrow> (False, 0) | Some v \<Rightarrow> (True, v), h, s))"

definition s_remove :: "'l srw_api \<Rightarrow> string \<Rightarrow> 'l sess \<Rightarrow> (bool \<times> 'l sess) res" where
  "s_remove api key =
     exclusive api sess_lock set_sess_lock (\<lambda>(h, s).
       case map_of (s_kv_map s) key of
         None \<Rightarrow> Inr (False, h, s)
       | Some v \<Rightarrow> Inr (False, h, s\<lparr>s_kv_map := smap_erase key (s_kv_map s)\<rparr>))"

section \<open>The circular array as a list\<close>

definition ring_slots :: "m_queue \<Rightarrow> int list" where
  "ring_slots q = map (\<lambda>i. (q_head q + int i) mod q_maxSize q) [0..<nat (q_size q)]"

definition ring_events :: "m_queue \<Rightarrow> Event list" where
  "ring_events q = map (\<lambda>i. q_eventArr q ! nat i) (ring_slots q)"

definition ring_ok :: "m_queue \<Rightarrow> bool" where
  "ring_ok q \<longleftrightarrow> 0 < q_maxSize q \<and> int (length (q_eventArr q)) = q_maxSize q \<and>
     0 \<le> q_size q \<and> q_size q \<le> q_maxSize q \<and>
     0 \<le> q_head q \<and> q_head q < q_maxSize q \<and> 0 \<le> q_tail q \<and> q_tail q < q_maxSize q \<and>
     (0 < q_size q \<longrightarrow> q_tail q = (q_head q + q_size q - 1) mod q_maxSize q)"

lemma length_ring_slots [simp]: "length (ring_slots q) = nat (q_size q)"
  by (simp add: ring_slots_def)

lemma ring_slots_range:
  "ring_ok q \<Longrightarrow> i \<in> set (ring_slots q) \<Longrightarrow> 0 \<le> i \<and> i < q_maxSize q"
  by (auto simp: ring_slots_def ring_ok_def)

text \<open>Distances below the modulus separate positions.\<close>

lemma mod_shift_inj:
  fixes a m :: int
  assumes "0 \<le> i" "i < m" "0 \<le> j" "j < m" "(a + i) mod m = (a + j) mod m"
  shows "i = j"
proof -
  have "m dvd i - j" using assms(5) by (metis mod_eq_dvd_iff add_diff_cancel_left)
  then show ?thesis
    using assms(1-4) zdvd_imp_le [of m "i - j"] zdvd_imp_le [of m "j - i"]
    by (cases i j rule: linorder_cases) (auto simp: dvd_diff_commute)
qed

lemma distinct_ring_slots: "ring_ok q \<Longrightarrow> distinct (ring_slots q)"
  unfolding ring_slots_def distinct_map
  by (auto simp: ring_ok_def inj_on_def dest!: mod_shift_inj [rotated 4])

lemma ring_index_ok:
  assumes "ring_ok q"
  shows "0 \<le> q_head q" "nat (q_head q) < length (q_eventArr q)"
    "0 \<le> q_tail q" "nat (q_tail q) < length (q_eventArr q)"
  using assms unfolding ring_ok_def by linarith+

lemma mod_add_diff_left: "((a::int) mod m + b - c) mod m = (a + b - c) mod m"
  by (metis add_diff_eq mod_add_left_eq)

lemma next_index:
  fixes i m :: int
  assumes "0 \<le> i" "i < m"
  shows "(if i \<noteq> m - 1 then i + 1 else 0) = (i + 1) mod m"
  using assms by (cases "i = m - 1") auto

lemma prev_index:
  fixes i m :: int
  assumes "0 \<le> i" "i < m"
  shows "(if i \<noteq> 0 then i - 1 else m - 1) = (i - 1) mod m"
  using assms by (auto simp: zmod_minus1)

text \<open>How the occupied positions move when the two indices move.\<close>

lemma ring_slots_snoc:
  assumes "ring_ok q" and "q_maxSize q' = q_maxSize q" and "q_size q' = q_size q + 1"
    and "q_head q' = (if q_size q = 0 then t else q_head q)" and "t = (q_tail q + 1) mod q_maxSize q"
  shows "ring_slots q' = ring_slots q @ [t]"
proof (cases "q_size q = 0")
  case True
  with assms show ?thesis by (simp add: ring_slots_def ring_ok_def)
next
  case False
  then have "t = (q_head q + q_size q) mod q_maxSize q"
    using assms(1,5) by (auto simp: ring_ok_def mod_simps)
  moreover have "nat (q_size q + 1) = Suc (nat (q_size q))" "int (nat (q_size q)) = q_size q"
    using assms(1) by (auto simp: ring_ok_def)
  ultimately show ?thesis
    using assms False by (simp add: ring_slots_def)
qed

lemma ring_slots_cons:
  assumes "ring_ok q" and "q_maxSize q' = q_maxSize q" and "q_size q' = q_size q + 1"
    and "q_head q' = t" and "t = (q_head q - 1) mod q_maxSize q"
  shows "ring_slots q' = t # ring_slots q"
proof -
  have n: "nat (q_size q + 1) = Suc (nat (q_size q))"
    using assms(1) by (auto simp: ring_ok_def)
  have "(t + int (Suc i)) mod q_maxSize q = (q_head q + int i) mod q_maxSize q" for i
    unfolding assms(5) by (simp add: mod_simps)
  moreover have "t mod q_maxSize q = t"
    unfolding assms(5) by simp
  ultimately show ?thesis
    unfolding ring_slots_def assms(2-4) n by (simp add: upt_conv_Cons map_Suc_upt [symmetric] del: upt_Suc of_nat_Suc)
qed

lemma ring_slots_tl:
  assumes "ring_ok q" and "q_maxSize q' = q_maxSize q" and "0 < q_size q"
    and "q_size q' = q_size q - 1" and "q_head q' = (q_head q + 1) mod q_maxSize q"
  shows "ring_slots q = q_head q # ring_slots q'"
proof -
  have n: "nat (q_size q) = Suc (nat (q_size q - 1))" using assms(3) by simp
  have "((q_head q + 1) mod q_maxSize q + int i) mod q_maxSize q =
      (q_head q + int (Suc i)) mod q_maxSize q" for i
    by (simp add: mod_simps add.assoc)
  moreover have "q_head q mod q_maxSize q = q_head q"
    using assms(1) by (simp add: ring_ok_def)
  ultimately show ?thesis
    unfolding ring_slots_def assms(2,4,5) n by (simp add: upt_conv_Cons map_Suc_upt [symmetric] del: upt_Suc of_nat_Suc)
qed

lemma ring_slots_butlast:
  assumes "ring_ok q" and "q_maxSize q' = q_maxSize q" and "0 < q_size q"
    and "q_size q' = q_size q - 1" and "1 < q_size q \<longrightarrow> q_head q' = q_head q"
  shows "ring_slots q = ring_slots q' @ [q_tail q]"
proof -
  have n: "nat (q_size q) = Suc (nat (q_size q - 1))" using assms(3) by simp
  have "q_tail q = (q_head q + int (nat (q_size q - 1))) mod q_maxSize q"
    using assms(1,3) by (auto simp: ring_ok_def add_diff_eq)
  moreover have "map (\<lambda>i. (q_head q' + int i) mod q_maxSize q) [0..<nat (q_size q - 1)] =
      map (\<lambda>i. (q_head q + int i) mod q_maxSize q) [0..<nat (q_size q - 1)]"
    using assms(5) by (cases "1 < q_size q") auto
  ultimately show ?thesis
    unfolding ring_slots_def assms(2,4) n by simp
qed

subsection \<open>Slots and the heap\<close>

text \<open>
  Every slot is well-formed, no block belongs to two slots, and a slot outside the occupied
  positions owns nothing.
\<close>

definition slots_ok :: "heap \<Rightarrow> Event list \<Rightarrow> int set \<Rightarrow> bool" where
  "slots_ok h arr occ \<longleftrightarrow>
     (\<forall>i < length arr. ev_ok h (arr ! i)) \<and>
     (\<forall>i < length arr. \<forall>j < length arr. i \<noteq> j \<longrightarrow> ev_owned (arr ! i) \<inter> ev_owned (arr ! j) = {}) \<and>
     (\<forall>i < length arr. int i \<notin> occ \<longrightarrow> ev_owned (arr ! i) = {})"

lemma slots_ok_put:
  assumes "slots_ok h arr occ" and "k < length arr" and "ev_ok h' e"
    and "ev_owned e \<inter> dom (blocks h) = {}" and "\<forall>p \<in> dom (blocks h). blocks h' p = blocks h p"
  shows "slots_ok h' (arr[k := e]) (insert (int k) occ)"
proof -
  have own: "ev_owned (arr ! i) \<subseteq> dom (blocks h)" if "i < length arr" for i
    using assms(1) that ev_ok_live by (auto simp: slots_ok_def)
  have "ev_ok h' (arr ! i)" if "i < length arr" for i
    using ev_ok_cong [OF own [OF that], of h'] assms(1,5) that by (auto simp: slots_ok_def)
  moreover have "ev_owned e \<inter> ev_owned (arr ! i) = {}" if "i < length arr" for i
    using own [OF that] assms(4) by auto
  ultimately show ?thesis
    using assms(1-3) by (auto simp: slots_ok_def nth_list_update)
qed

lemma slots_ok_release:
  assumes "slots_ok h arr occ" and "k < length arr" and "ev_ok h' e" and "ev_owned e = {}"
    and "blocks h' = blocks h |` (- ev_owned (arr ! k))"
  shows "slots_ok h' (arr[k := e]) (occ - {int k})"
proof -
  have "ev_ok h' (arr ! i)" if "i < length arr" "i \<noteq> k" for i
  proof -
    have "ev_owned (arr ! i) \<inter> ev_owned (arr ! k) = {}"
      using assms(1,2) that by (auto simp: slots_ok_def)
    then have "ev_ok h' (arr ! i) = ev_ok h (arr ! i)"
      using assms(5) by (intro ev_ok_cong [OF subset_refl]) (auto simp: restrict_map_def)
    then show ?thesis using assms(1) that by (simp add: slots_ok_def)
  qed
  with assms show ?thesis
    by (auto simp: slots_ok_def nth_list_update)
qed

lemma slots_value_put:
  assumes "slots_ok h arr occ" and "i < length arr"
    and "\<forall>p \<in> dom (blocks h). blocks h' p = blocks h p"
  shows "ev_value h' (arr ! i) = ev_value h (arr ! i)"
proof (rule ev_value_cong [of _ "dom (blocks h)"])
  show "ev_owned (arr ! i) \<subseteq> dom (blocks h)"
    using assms(1,2) ev_ok_live by (auto simp: slots_ok_def)
qed (use assms(3) in simp)

lemma slots_value_release:
  assumes "slots_ok h arr occ" and "i < length arr" and "k < length arr" and "i \<noteq> k"
    and "blocks h' = blocks h |` (- ev_owned (arr ! k))"
  shows "ev_value h' (arr ! i) = ev_value h (arr ! i)"
proof (rule ev_value_cong [OF subset_refl])
  fix p assume "p \<in> ev_owned (arr ! i)"
  then have "p \<notin> ev_owned (arr ! k)" using assms(1-4) by (auto simp: slots_ok_def)
  then show "blocks h' p = blocks h p" by (simp add: assms(5) restrict_map_def)
qed

text \<open>The live blocks that belong to no slot.\<close>

definition foreign :: "heap \<Rightarrow> Event list \<Rightarrow> addr set" where
  "foreign h arr = dom (blocks h) - (\<Union>i < length arr. ev_owned (arr ! i))"

lemma owned_update:
  assumes "slots_ok h arr occ" and "k < length arr"
  shows "(\<Union>i < length (arr[k := e]). ev_owned (arr[k := e] ! i)) =
     (\<Union>i < length arr. ev_owned (arr ! i)) - ev_owned (arr ! k) \<union> ev_owned e"
proof -
  have "ev_owned (arr ! i) \<inter> ev_owned (arr ! k) = {}" if "i < length arr" "i \<noteq> k" for i
    using assms that by (simp add: slots_ok_def)
  then show ?thesis
    using assms(2) by (auto simp: nth_list_update split: if_splits; blast)
qed

section \<open>The queue steps on a well-formed queue\<close>

definition queue_ok :: "heap \<Rightarrow> m_queue \<Rightarrow> bool" where
  "queue_ok h q \<longleftrightarrow> heap_ok h \<and> ring_ok q \<and> slots_ok h (q_eventArr q) (set (ring_slots q))"

definition q_values :: "heap \<Rightarrow> m_queue \<Rightarrow> event_value list" where
  "q_values h q = map (\<lambda>i. ev_value h (q_eventArr q ! nat i)) (ring_slots q)"

lemma length_q_values [simp]: "length (q_values h q) = nat (q_size q)"
  by (simp add: q_values_def)

text \<open>An event that may be pushed: one outside the array, or one of the queue itself.\<close>

definition ref_ok :: "heap \<Rightarrow> m_queue \<Rightarrow> event_ref \<Rightarrow> bool" where
  "ref_ok h q r \<longleftrightarrow>
     (case r of Ext e \<Rightarrow> ev_ok h e | Slot i \<Rightarrow> int i \<in> set (ring_slots q))"

definition ref_value :: "heap \<Rightarrow> m_queue \<Rightarrow> event_ref \<Rightarrow> event_value" where
  "ref_value h q r = ev_value h (deref (q_eventArr q) r)"

lemma ring_slots_nth:
  "ring_ok q \<Longrightarrow> i \<in> set (ring_slots q) \<Longrightarrow> 0 \<le> i \<and> nat i < length (q_eventArr q)"
  using ring_slots_range [of q i] by (auto simp: ring_ok_def)

lemma put_slot_free:
  assumes "queue_ok h q" and "q_eventArr q1 = q_eventArr q" and "ref_ok h q r"
    and "0 \<le> t" and "t < q_maxSize q" and "t \<notin> set (ring_slots q)"
  shows "\<exists>e h'. put_slot t r q1 h = Inr (q1\<lparr>q_eventArr := (q_eventArr q)[nat t := e]\<rparr>, h') \<and>
     heap_ok h' \<and> ev_ok h' e \<and> ev_value h' e = ref_value h q r \<and>
     ev_owned e \<inter> dom (blocks h) = {} \<and> dom (blocks h') = dom (blocks h) \<union> ev_owned e \<and>
     (\<forall>p \<in> dom (blocks h). blocks h' p = blocks h p)"
proof -
  let ?arr = "q_eventArr q"
  have ok: "heap_ok h" "ring_ok q" "slots_ok h ?arr (set (ring_slots q))"
    using assms(1) by (simp_all add: queue_ok_def)
  have t: "nat t < length ?arr" using ok(2) assms(4,5) by (auto simp: ring_ok_def)
  have free: "ev_owned (?arr ! nat t) = {}" "ev_ok h (?arr ! nat t)"
    using ok(3) t assms(4,6) by (auto simp: slots_ok_def)
  have r: "r \<noteq> Slot (nat t)" "ev_ok h (deref ?arr r)"
    using assms(3,4,6) ok ring_slots_nth [OF ok(2)]
    by (cases r; force simp: ref_ok_def slots_ok_def)+
  from Event_assign_ok [OF ok(1) t r(1) free(2) r(2)] free(1)
  obtain e h' where "Event_assign (nat t) r ?arr h = Inr (?arr[nat t := e], h')" "heap_ok h'"
    "ev_ok h' e" "ev_value h' e = ev_value h (deref ?arr r)" "ev_owned e \<inter> dom (blocks h) = {}"
    "dom (blocks h') = dom (blocks h) \<union> ev_owned e" "\<forall>p \<in> dom (blocks h). blocks h' p = blocks h p"
    by auto
  then show ?thesis
    using t assms(2,4) by (auto simp: put_slot_def ref_value_def)
qed

text \<open>What a push leaves behind, whichever end it works on.\<close>

lemma push_queue_ok:
  assumes "queue_ok h q" and "ring_ok q'" and "set (ring_slots q') = insert t (set (ring_slots q))"
    and "t \<notin> set (ring_slots q)" and "0 \<le> t" and "t < q_maxSize q"
    and "q_eventArr q' = (q_eventArr q)[nat t := e]" and "heap_ok h'" and "ev_ok h' e"
    and "ev_owned e \<inter> dom (blocks h) = {}" and "\<forall>p \<in> dom (blocks h). blocks h' p = blocks h p"
    and "dom (blocks h') = dom (blocks h) \<union> ev_owned e"
  shows "queue_ok h' q'" and "foreign h' (q_eventArr q') = foreign h (q_eventArr q)"
    and "map (\<lambda>i. ev_value h' (q_eventArr q' ! nat i)) (ring_slots q) = q_values h q"
    and "ev_value h' (q_eventArr q' ! nat t) = ev_value h' e"
proof -
  have ok: "ring_ok q" "slots_ok h (q_eventArr q) (set (ring_slots q))"
    using assms(1) by (simp_all add: queue_ok_def)
  have t: "nat t < length (q_eventArr q)" "int (nat t) = t"
    using ok(1) assms(5,6) by (auto simp: ring_ok_def)
  have "slots_ok h' (q_eventArr q') (set (ring_slots q'))"
    using slots_ok_put [OF ok(2) t(1) assms(9,10,11)] by (simp add: assms(3,5,7))
  then show "queue_ok h' q'" using assms(2,8) by (simp add: queue_ok_def)
  have "ev_owned (q_eventArr q ! nat t) = {}"
    using ok(2) t assms(4) by (auto simp: slots_ok_def)
  then show "foreign h' (q_eventArr q') = foreign h (q_eventArr q)"
    using owned_update [OF ok(2) t(1), of e] assms(7,10,12) by (auto simp: foreign_def)
  show "map (\<lambda>i. ev_value h' (q_eventArr q' ! nat i)) (ring_slots q) = q_values h q"
    unfolding q_values_def
  proof (rule map_cong [OF refl])
    fix i assume i: "i \<in> set (ring_slots q)"
    then have "nat i \<noteq> nat t" "nat i < length (q_eventArr q)"
      using ring_slots_nth [OF ok(1) i] assms(4,5) by (auto simp: eq_nat_nat_iff)
    then show "ev_value h' (q_eventArr q' ! nat i) = ev_value h (q_eventArr q ! nat i)"
      using slots_value_put [OF ok(2) _ assms(11)] by (simp add: assms(7))
  qed
  show "ev_value h' (q_eventArr q' ! nat t) = ev_value h' e" using t(1) by (simp add: assms(7))
qed

lemma q_push_back_ok:
  assumes "queue_ok h q" and "q_size q < q_maxSize q" and "ref_ok h q r"
  shows "\<exists>q' h'. q_push_back r q h = Inr (q', h') \<and> queue_ok h' q' \<and>
     q_values h' q' = q_values h q @ [ref_value h q r] \<and> q_maxSize q' = q_maxSize q \<and>
     foreign h' (q_eventArr q') = foreign h (q_eventArr q) \<and>
     (\<forall>p \<in> dom (blocks h). blocks h' p = blocks h p)"
proof -
  define t where "t = (q_tail q + 1) mod q_maxSize q"
  define q1 where "q1 = q\<lparr>q_tail := t\<rparr>"
  have ok: "ring_ok q" using assms(1) by (simp add: queue_ok_def)
  then have t: "0 \<le> t" "t < q_maxSize q" by (simp_all add: t_def ring_ok_def)
  define q2 where "q2 e = q1\<lparr>q_eventArr := (q_eventArr q)[nat t := e], q_size := q_size q + 1,
     q_head := (if q_size q = 0 then t else q_head q)\<rparr>" for e
  have ring2: "ring_ok (q2 e)" for e
    using ok assms(2) t by (auto simp: ring_ok_def q2_def q1_def t_def mod_simps)
  have slots2: "ring_slots (q2 e) = ring_slots q @ [t]" for e
    by (rule ring_slots_snoc [OF ok]) (simp_all add: q2_def q1_def t_def)
  have new: "t \<notin> set (ring_slots q)" using distinct_ring_slots [OF ring2] slots2 by simp
  obtain e h' where e: "put_slot t r q1 h = Inr (q1\<lparr>q_eventArr := (q_eventArr q)[nat t := e]\<rparr>, h')"
    "heap_ok h'" "ev_ok h' e" "ev_value h' e = ref_value h q r"
    "ev_owned e \<inter> dom (blocks h) = {}" "\<forall>p \<in> dom (blocks h). blocks h' p = blocks h p"
    "dom (blocks h') = dom (blocks h) \<union> ev_owned e"
    using put_slot_free [OF assms(1) _ assms(3) t new, of q1] by (auto simp: q1_def)
  have "(if q_tail q \<noteq> q_maxSize q - 1 then q_tail q + 1 else 0) = t"
    unfolding t_def using ok by (intro next_index) (simp_all add: ring_ok_def)
  then have "q_push_back r q h = Inr (q2 e, h')"
    using e(1) by (simp add: q_push_back_def q2_def q1_def)
  moreover have "queue_ok h' (q2 e)" and "q_values h' (q2 e) = q_values h q @ [ref_value h q r]"
    and "foreign h' (q_eventArr (q2 e)) = foreign h (q_eventArr q)"
    using push_queue_ok [OF assms(1) ring2 _ new t _ e(2,3,5,6,7)] slots2 e(4)
    by (simp_all add: q_values_def q2_def)
  ultimately show ?thesis using e(6) by (auto simp: q2_def q1_def)
qed

lemma q_push_front_ok:
  assumes "queue_ok h q" and "q_size q < q_maxSize q" and "ref_ok h q r"
  shows "\<exists>q' h'. q_push_front r q h = Inr (q', h') \<and> queue_ok h' q' \<and>
     q_values h' q' = ref_value h q r # q_values h q \<and> q_maxSize q' = q_maxSize q \<and>
     foreign h' (q_eventArr q') = foreign h (q_eventArr q) \<and>
     (\<forall>p \<in> dom (blocks h). blocks h' p = blocks h p)"
proof -
  define t where "t = (q_head q - 1) mod q_maxSize q"
  define q1 where "q1 = q\<lparr>q_head := t\<rparr>"
  have ok: "ring_ok q" using assms(1) by (simp add: queue_ok_def)
  then have t: "0 \<le> t" "t < q_maxSize q" by (simp_all add: t_def ring_ok_def)
  define q2 where "q2 e = q1\<lparr>q_eventArr := (q_eventArr q)[nat t := e], q_size := q_size q + 1,
     q_tail := (if q_size q = 0 then t else q_tail q)\<rparr>" for e
  have "t + q_size q = (q_head q - 1) mod q_maxSize q + q_size q" by (simp add: t_def)
  then have "(t + q_size q) mod q_maxSize q = (q_head q + q_size q - 1) mod q_maxSize q"
    by (simp add: mod_simps algebra_simps)
  then have ring2: "ring_ok (q2 e)" for e
    using ok assms(2) t by (auto simp: ring_ok_def q2_def q1_def)
  have slots2: "ring_slots (q2 e) = t # ring_slots q" for e
    by (rule ring_slots_cons [OF ok]) (simp_all add: q2_def q1_def t_def)
  have new: "t \<notin> set (ring_slots q)" using distinct_ring_slots [OF ring2] slots2 by simp
  obtain e h' where e: "put_slot t r q1 h = Inr (q1\<lparr>q_eventArr := (q_eventArr q)[nat t := e]\<rparr>, h')"
    "heap_ok h'" "ev_ok h' e" "ev_value h' e = ref_value h q r"
    "ev_owned e \<inter> dom (blocks h) = {}" "\<forall>p \<in> dom (blocks h). blocks h' p = blocks h p"
    "dom (blocks h') = dom (blocks h) \<union> ev_owned e"
    using put_slot_free [OF assms(1) _ assms(3) t new, of q1] by (auto simp: q1_def)
  have "(if q_head q \<noteq> 0 then q_head q - 1 else q_maxSize q - 1) = t"
    unfolding t_def using ok by (intro prev_index) (simp_all add: ring_ok_def)
  then have "q_push_front r q h = Inr (q2 e, h')"
    using e(1) by (simp add: q_push_front_def q2_def q1_def)
  moreover have "queue_ok h' (q2 e)" and "q_values h' (q2 e) = ref_value h q r # q_values h q"
    and "foreign h' (q_eventArr (q2 e)) = foreign h (q_eventArr q)"
    using push_queue_ok [OF assms(1) ring2 _ new t _ e(2,3,5,6,7)] slots2 e(4)
    by (simp_all add: q_values_def q2_def)
  ultimately show ?thesis using e(6) by (auto simp: q2_def q1_def)
qed

lemma release_slot_occupied:
  assumes "heap_ok h" and "slots_ok h (q_eventArr q) occ" and "0 \<le> i"
    and "nat i < length (q_eventArr q)"
  shows "\<exists>e h'. release_slot i q h = Inr (q\<lparr>q_eventArr := (q_eventArr q)[nat i := e]\<rparr>, h') \<and>
     heap_ok h' \<and> slots_ok h' ((q_eventArr q)[nat i := e]) (occ - {i}) \<and>
     foreign h' ((q_eventArr q)[nat i := e]) = foreign h (q_eventArr q) \<and>
     (\<forall>p \<in> foreign h (q_eventArr q). blocks h' p = blocks h p) \<and>
     (\<forall>j < length (q_eventArr q). j \<noteq> nat i \<longrightarrow>
        ev_value h' (q_eventArr q ! j) = ev_value h (q_eventArr q ! j))"
proof -
  let ?arr = "q_eventArr q" and ?i = "nat i"
  let ?e = "(?arr ! ?i)\<lparr>ev_pData := 0, ev_length := 0\<rparr>"
  have "ev_ok h (?arr ! ?i)" using assms(2,4) by (simp add: slots_ok_def)
  from Event_release_ok [OF assms(1) this]
  obtain h' where h': "Event_release (?arr ! ?i) h = Inr (?e, h')" "heap_ok h'"
    "blocks h' = blocks h |` (- ev_owned (?arr ! ?i))" by blast
  have "slots_ok h' (?arr[?i := ?e]) (occ - {int ?i})"
    by (rule slots_ok_release [OF assms(2,4) _ _ h'(3)]) (simp_all add: ev_ok_def ev_owned_def)
  moreover have "\<forall>j < length ?arr. j \<noteq> ?i \<longrightarrow> ev_value h' (?arr ! j) = ev_value h (?arr ! j)"
    using slots_value_release [OF assms(2) _ assms(4) _ h'(3)] by blast
  moreover have "foreign h' (?arr[?i := ?e]) = foreign h ?arr"
  proof -
    have "ev_owned ?e = {}" by (simp add: ev_owned_def)
    moreover have "ev_owned (?arr ! ?i) \<subseteq> (\<Union>i < length ?arr. ev_owned (?arr ! i))"
      using assms(4) by auto
    moreover have "dom (blocks h') = dom (blocks h) - ev_owned (?arr ! ?i)"
      unfolding h'(3) by auto
    ultimately show ?thesis
      using owned_update [OF assms(2,4), of ?e] by (auto simp: foreign_def)
  qed
  moreover have "\<forall>p \<in> foreign h ?arr. blocks h' p = blocks h p"
    using assms(4) by (auto simp: h'(3) foreign_def restrict_map_def)
  ultimately show ?thesis
    using h' assms(3,4) by (auto simp: release_slot_def)
qed

text \<open>What a pop leaves behind, whichever end it works on.\<close>

lemma pop_queue_ok:
  assumes "queue_ok h q" and "t \<in> set (ring_slots q)" and "ring_ok q'"
    and "set (ring_slots q') = set (ring_slots q) - {t}"
    and "q_eventArr q' = (q_eventArr q)[nat t := e]" and "heap_ok h'"
    and "slots_ok h' ((q_eventArr q)[nat t := e]) (set (ring_slots q) - {t})"
    and "\<forall>j < length (q_eventArr q). j \<noteq> nat t \<longrightarrow>
        ev_value h' (q_eventArr q ! j) = ev_value h (q_eventArr q ! j)"
  shows "queue_ok h' q'"
    and "q_values h' q' = map (\<lambda>i. ev_value h (q_eventArr q ! nat i)) (ring_slots q')"
proof -
  have ok: "ring_ok q" using assms(1) by (simp add: queue_ok_def)
  show "queue_ok h' q'" using assms(3-7) by (simp add: queue_ok_def)
  show "q_values h' q' = map (\<lambda>i. ev_value h (q_eventArr q ! nat i)) (ring_slots q')"
    unfolding q_values_def
  proof (rule map_cong [OF refl])
    fix i assume "i \<in> set (ring_slots q')"
    then have i: "i \<in> set (ring_slots q)" "i \<noteq> t" using assms(4) by auto
    then have "nat i \<noteq> nat t" "nat i < length (q_eventArr q)"
      using ring_slots_nth [OF ok i(1)] ring_slots_nth [OF ok assms(2)]
      by (auto simp: eq_nat_nat_iff)
    then show "ev_value h' (q_eventArr q' ! nat i) = ev_value h (q_eventArr q ! nat i)"
      using assms(8) by (simp add: assms(5))
  qed
qed

lemma q_pop_front_ok:
  assumes "queue_ok h q" and "0 < q_size q"
  shows "\<exists>q' h'. q_pop_front q h = Inr (q', h') \<and> queue_ok h' q' \<and>
     q_values h' q' = tl (q_values h q) \<and> q_maxSize q' = q_maxSize q \<and>
     foreign h' (q_eventArr q') = foreign h (q_eventArr q) \<and>
     (\<forall>p \<in> foreign h (q_eventArr q). blocks h' p = blocks h p)"
proof -
  let ?t = "q_head q"
  have ok: "heap_ok h" "ring_ok q" "slots_ok h (q_eventArr q) (set (ring_slots q))"
    using assms(1) by (simp_all add: queue_ok_def)
  define q2 where "q2 e = q\<lparr>q_eventArr := (q_eventArr q)[nat ?t := e], q_size := q_size q - 1,
     q_head := (?t + 1) mod q_maxSize q,
     q_tail := (if 1 < q_size q then q_tail q else (?t + 1) mod q_maxSize q)\<rparr>" for e
  have ring2: "ring_ok (q2 e)" for e
    using ok(2) assms(2) by (auto simp: ring_ok_def q2_def mod_add_diff_left)
  have slots2: "ring_slots q = ?t # ring_slots (q2 e)" for e
    by (rule ring_slots_tl [OF ok(2) _ assms(2)]) (simp_all add: q2_def)
  have set2: "set (ring_slots (q2 e)) = set (ring_slots q) - {?t}" for e
    using distinct_ring_slots [OF ok(2)] slots2 [of e] by auto
  have t: "0 \<le> ?t" "nat ?t < length (q_eventArr q)" using ring_index_ok [OF ok(2)] by auto
  obtain e h' where e: "release_slot ?t q h = Inr (q\<lparr>q_eventArr := (q_eventArr q)[nat ?t := e]\<rparr>, h')"
    "heap_ok h'" "slots_ok h' ((q_eventArr q)[nat ?t := e]) (set (ring_slots q) - {?t})"
    "foreign h' ((q_eventArr q)[nat ?t := e]) = foreign h (q_eventArr q) \<and>
     (\<forall>p \<in> foreign h (q_eventArr q). blocks h' p = blocks h p)"
    "\<forall>j < length (q_eventArr q). j \<noteq> nat ?t \<longrightarrow>
       ev_value h' (q_eventArr q ! j) = ev_value h (q_eventArr q ! j)"
    using release_slot_occupied [OF ok(1,3) t] by blast
  have "(if ?t \<noteq> q_maxSize q - 1 then ?t + 1 else 0) = (?t + 1) mod q_maxSize q"
    using ok(2) by (intro next_index) (simp_all add: ring_ok_def)
  then have "q_pop_front q h = Inr (q2 e, h')"
    using e(1) by (auto simp: q_pop_front_def q2_def split: if_splits)
  moreover have "queue_ok h' (q2 e)" and "q_values h' (q2 e) = tl (q_values h q)"
    using pop_queue_ok [OF assms(1) _ ring2 set2 _ e(2,3,5)] slots2 [of e]
    by (simp_all add: q2_def q_values_def)
  ultimately show ?thesis using e(4) by (auto simp: q2_def)
qed

lemma q_pop_back_ok:
  assumes "queue_ok h q" and "0 < q_size q"
  shows "\<exists>q' h'. q_pop_back q h = Inr (q', h') \<and> queue_ok h' q' \<and>
     q_values h' q' = butlast (q_values h q) \<and> q_maxSize q' = q_maxSize q \<and>
     foreign h' (q_eventArr q') = foreign h (q_eventArr q) \<and>
     (\<forall>p \<in> foreign h (q_eventArr q). blocks h' p = blocks h p)"
proof -
  let ?t = "q_tail q"
  have ok: "heap_ok h" "ring_ok q" "slots_ok h (q_eventArr q) (set (ring_slots q))"
    using assms(1) by (simp_all add: queue_ok_def)
  define q2 where "q2 e = q\<lparr>q_eventArr := (q_eventArr q)[nat ?t := e], q_size := q_size q - 1,
     q_tail := (?t - 1) mod q_maxSize q,
     q_head := (if 1 < q_size q then q_head q else (?t - 1) mod q_maxSize q)\<rparr>" for e
  have ring2: "ring_ok (q2 e)" for e
    using ok(2) assms(2) by (auto simp: ring_ok_def q2_def mod_simps algebra_simps)
  have slots2: "ring_slots q = ring_slots (q2 e) @ [?t]" for e
    by (rule ring_slots_butlast [OF ok(2) _ assms(2)]) (simp_all add: q2_def)
  have set2: "set (ring_slots (q2 e)) = set (ring_slots q) - {?t}" for e
    using distinct_ring_slots [OF ok(2)] slots2 [of e] by auto
  have t: "0 \<le> ?t" "nat ?t < length (q_eventArr q)" using ring_index_ok [OF ok(2)] by auto
  obtain e h' where e: "release_slot ?t q h = Inr (q\<lparr>q_eventArr := (q_eventArr q)[nat ?t := e]\<rparr>, h')"
    "heap_ok h'" "slots_ok h' ((q_eventArr q)[nat ?t := e]) (set (ring_slots q) - {?t})"
    "foreign h' ((q_eventArr q)[nat ?t := e]) = foreign h (q_eventArr q) \<and>
     (\<forall>p \<in> foreign h (q_eventArr q). blocks h' p = blocks h p)"
    "\<forall>j < length (q_eventArr q). j \<noteq> nat ?t \<longrightarrow>
       ev_value h' (q_eventArr q ! j) = ev_value h (q_eventArr q ! j)"
    using release_slot_occupied [OF ok(1,3) t] by blast
  have "(if ?t = 0 then q_maxSize q - 1 else ?t - 1) = (?t - 1) mod q_maxSize q"
    using prev_index [of ?t "q_maxSize q"] ok(2) by (auto simp: ring_ok_def split: if_splits)
  then have "q_pop_back q h = Inr (q2 e, h')"
    using e(1) by (auto simp: q_pop_back_def q2_def split: if_splits)
  moreover have "queue_ok h' (q2 e)" and "q_values h' (q2 e) = butlast (q_values h q)"
    using pop_queue_ok [OF assms(1) _ ring2 set2 _ e(2,3,5)] slots2 [of e]
    by (simp_all add: q2_def q_values_def)
  ultimately show ?thesis using e(4) by (auto simp: q2_def)
qed

text \<open>Clearing releases every occupied slot and nothing else.\<close>

lemma clear_slots_ok:
  assumes "heap_ok h" and "slots_ok h (q_eventArr q) occ" and "q_maxSize q = int (length (q_eventArr q))"
    and "0 \<le> i" and "i < q_maxSize q"
  shows "\<exists>arr' h'. clear_slots n i q h = Inr (q\<lparr>q_eventArr := arr'\<rparr>, h') \<and> heap_ok h' \<and>
     length arr' = length (q_eventArr q) \<and>
     slots_ok h' arr' (occ - (\<lambda>k. (i + int k) mod q_maxSize q) ` {..<n}) \<and>
     foreign h' arr' = foreign h (q_eventArr q) \<and>
     (\<forall>p \<in> foreign h (q_eventArr q). blocks h' p = blocks h p)"
  using assms
proof (induction n arbitrary: i q h occ)
  case 0
  then show ?case by (auto intro!: exI [of _ "q_eventArr q"])
next
  case (Suc n)
  let ?arr = "q_eventArr q" and ?m = "q_maxSize q"
  have i: "nat i < length ?arr" using Suc.prems by auto
  obtain e h1 where e: "release_slot i q h = Inr (q\<lparr>q_eventArr := ?arr[nat i := e]\<rparr>, h1)"
    "heap_ok h1" "slots_ok h1 (?arr[nat i := e]) (occ - {i})"
    "foreign h1 (?arr[nat i := e]) = foreign h ?arr"
    "\<forall>p \<in> foreign h ?arr. blocks h1 p = blocks h p"
    using release_slot_occupied [OF Suc.prems(1,2,4) i] by blast
  let ?q1 = "q\<lparr>q_eventArr := ?arr[nat i := e]\<rparr>" and ?i1 = "(i + 1) mod ?m"
  have nxt: "(if i = ?m - 1 then 0 else i + 1) = ?i1"
    using next_index [OF Suc.prems(4,5)] by (auto split: if_splits)
  have "0 < ?m" using Suc.prems(4,5) by linarith
  then have i1: "0 \<le> ?i1" "?i1 < q_maxSize ?q1" by simp_all
  have "heap_ok h1" "slots_ok h1 (q_eventArr ?q1) (occ - {i})"
    "q_maxSize ?q1 = int (length (q_eventArr ?q1))"
    using e(2,3) Suc.prems(3) by simp_all
  from Suc.IH [OF this i1]
  obtain arr' h' where r: "clear_slots n ?i1 ?q1 h1 = Inr (q\<lparr>q_eventArr := arr'\<rparr>, h')"
    "heap_ok h'" "length arr' = length ?arr"
    "slots_ok h' arr' (occ - {i} - (\<lambda>k. (?i1 + int k) mod ?m) ` {..<n})"
    "foreign h' arr' = foreign h1 (?arr[nat i := e])"
    "\<forall>p \<in> foreign h1 (?arr[nat i := e]). blocks h' p = blocks h1 p"
    by auto
  have "(?i1 + int k) mod ?m = (i + int (Suc k)) mod ?m" for k
    by (simp add: mod_simps add.assoc)
  moreover have "i = (i + int 0) mod ?m" using Suc.prems by simp
  ultimately have "insert i ((\<lambda>k. (?i1 + int k) mod ?m) ` {..<n}) =
      (\<lambda>k. (i + int k) mod ?m) ` {..<Suc n}"
    by (auto simp: lessThan_Suc_eq_insert_0 image_image)
  then have "occ - {i} - (\<lambda>k. (?i1 + int k) mod ?m) ` {..<n} =
      occ - (\<lambda>k. (i + int k) mod ?m) ` {..<Suc n}" by blast
  with e(1,4,5) nxt r show ?case by auto
qed

lemma q_clear_ok:
  assumes "queue_ok h q"
  shows "\<exists>q' h'. q_clear q h = Inr (q', h') \<and> queue_ok h' q' \<and> q_values h' q' = [] \<and>
     q_maxSize q' = q_maxSize q \<and> foreign h' (q_eventArr q') = foreign h (q_eventArr q) \<and>
     (\<forall>p \<in> foreign h (q_eventArr q). blocks h' p = blocks h p) \<and>
     slots_ok h' (q_eventArr q') {}"
proof -
  have ok: "heap_ok h" "ring_ok q" "slots_ok h (q_eventArr q) (set (ring_slots q))"
    using assms by (simp_all add: queue_ok_def)
  have "set (ring_slots q) - (\<lambda>k. (q_head q + int k) mod q_maxSize q) ` {..<nat (q_size q)} = {}"
    by (auto simp: ring_slots_def)
  moreover have "q_maxSize q = int (length (q_eventArr q))" "0 \<le> q_head q" "q_head q < q_maxSize q"
    using ok(2) by (simp_all add: ring_ok_def)
  note clear_slots_ok [OF ok(1,3) this, of "nat (q_size q)"]
  ultimately obtain arr' h' where r:
    "clear_slots (nat (q_size q)) (q_head q) q h = Inr (q\<lparr>q_eventArr := arr'\<rparr>, h')" "heap_ok h'"
    "length arr' = length (q_eventArr q)" "slots_ok h' arr' {}"
    "foreign h' arr' = foreign h (q_eventArr q)"
    "\<forall>p \<in> foreign h (q_eventArr q). blocks h' p = blocks h p"
    by metis
  let ?q = "q\<lparr>q_eventArr := arr', q_size := 0, q_tail := q_maxSize q div 2,
     q_head := q_maxSize q div 2\<rparr>"
  have "ring_ok ?q" and "ring_slots ?q = []"
    using ok(2) r(3) by (auto simp: ring_ok_def ring_slots_def)
  then have "queue_ok h' ?q" "q_values h' ?q = []"
    using r(2,4) by (simp_all add: queue_ok_def q_values_def)
  with r show ?thesis by (auto simp: q_clear_def Let_def)
qed

end
