(* ===== verification/Session_Deque.thy ===== *)
theory Session_Deque
  imports Sessions
begin

text \<open>
  The session's contract: its event queue refines a bounded double-ended queue of event
  values that refuses work once the session is halted, its heap blocks are neither leaked nor
  freed twice, and its map is a key-value store. Everything is proved from the lock laws alone
  (\<open>srw_laws\<close>) for an idle lock.
\<close>

section \<open>Specification\<close>

datatype 'e deque_op = PushBack 'e | PushFront 'e | PopFront | PopBack | Clear | SetStatus Status

record deque =
  d_status :: Status
  d_cap :: nat
  d_items :: "event_value list"

fun deque_step :: "event_value deque_op \<Rightarrow> deque \<Rightarrow> bool \<times> deque" where
  "deque_step (PushBack v) d =
     (if d_status d \<noteq> STATUS_HALT \<and> length (d_items d) < d_cap d
      then (True, d\<lparr>d_items := d_items d @ [v]\<rparr>) else (False, d))"
| "deque_step (PushFront v) d =
     (if d_status d \<noteq> STATUS_HALT \<and> length (d_items d) < d_cap d
      then (True, d\<lparr>d_items := v # d_items d\<rparr>) else (False, d))"
| "deque_step PopFront d =
     (if d_status d \<noteq> STATUS_HALT \<and> d_items d \<noteq> []
      then (True, d\<lparr>d_items := tl (d_items d)\<rparr>) else (False, d))"
| "deque_step PopBack d =
     (if d_status d \<noteq> STATUS_HALT \<and> d_items d \<noteq> []
      then (True, d\<lparr>d_items := butlast (d_items d)\<rparr>) else (False, d))"
| "deque_step Clear d = (True, d\<lparr>d_items := []\<rparr>)"
| "deque_step (SetStatus st) d = (True, d\<lparr>d_status := st\<rparr>)"

text \<open>The methods of a session, called with events that live outside its array.\<close>

fun session_step :: "'l srw_api \<Rightarrow> Event deque_op \<Rightarrow> 'l sess \<Rightarrow> (bool \<times> 'l sess) res" where
  "session_step api (PushBack e) st = pushBack api (Ext e) st"
| "session_step api (PushFront e) st = pushFront api (Ext e) st"
| "session_step api PopFront st = popFront api st"
| "session_step api PopBack st = popBack api st"
| "session_step api Clear st = bindR (clearEventQueue api st) (\<lambda>(_, st'). Inr (True, st'))"
| "session_step api (SetStatus x) st = bindR (s_setStatus api x st) (\<lambda>(_, st'). Inr (True, st'))"

section \<open>Invariant and abstraction\<close>

definition sess_ok :: "'l srw_api \<Rightarrow> 'l sess \<Rightarrow> bool" where
  "sess_ok api st \<longleftrightarrow> queue_ok (fst st) (eventQueue (snd st)) \<and> idle api (sessionLock (snd st)) \<and>
     smap_ok (s_kv_map (snd st))"

definition sess_abs :: "'l sess \<Rightarrow> deque" where
  "sess_abs st =
     \<lparr>d_status = s_status (snd st), d_cap = nat (q_maxSize (eventQueue (snd st))),
      d_items = q_values (fst st) (eventQueue (snd st))\<rparr>"

text \<open>An event outside the array: well-formed, and what it owns belongs to no slot.\<close>

definition ext_ok :: "'l sess \<Rightarrow> Event \<Rightarrow> bool" where
  "ext_ok st e \<longleftrightarrow>
     ev_ok (fst st) e \<and> ev_owned e \<subseteq> foreign (fst st) (q_eventArr (eventQueue (snd st)))"

definition op_ok :: "'l sess \<Rightarrow> Event deque_op \<Rightarrow> bool" where
  "op_ok st x \<longleftrightarrow> (\<forall>e \<in> set_deque_op x. ext_ok st e)"

definition op_abs :: "'l sess \<Rightarrow> Event deque_op \<Rightarrow> event_value deque_op" where
  "op_abs st x = map_deque_op (ev_value (fst st)) x"

text \<open>A step that keeps the foreign blocks keeps what the events outside mean.\<close>

definition keeps_foreign :: "'l sess \<Rightarrow> 'l sess \<Rightarrow> bool" where
  "keeps_foreign st st' \<longleftrightarrow>
     foreign (fst st') (q_eventArr (eventQueue (snd st'))) =
       foreign (fst st) (q_eventArr (eventQueue (snd st))) \<and>
     (\<forall>p \<in> foreign (fst st) (q_eventArr (eventQueue (snd st))).
        blocks (fst st') p = blocks (fst st) p)"

lemma keeps_foreign_refl [simp]: "keeps_foreign st st"
  by (simp add: keeps_foreign_def)

lemma keeps_foreign_ext:
  assumes "keeps_foreign st st'" and "ext_ok st e"
  shows "ext_ok st' e \<and> ev_value (fst st') e = ev_value (fst st) e"
  using assms ev_ok_cong [of e "foreign (fst st) (q_eventArr (eventQueue (snd st)))" "fst st'" "fst st"]
    ev_value_cong [of e "foreign (fst st) (q_eventArr (eventQueue (snd st)))" "fst st'" "fst st"]
  by (auto simp: keeps_foreign_def ext_ok_def)

lemma keeps_foreign_op:
  assumes "keeps_foreign st st'" and "op_ok st x"
  shows "op_ok st' x \<and> op_abs st' x = op_abs st x"
  using keeps_foreign_ext [OF assms(1)] assms(2)
  by (auto simp: op_ok_def op_abs_def intro!: deque_op.map_cong)

lemma ext_ok_ref: "ext_ok (h, s) e \<Longrightarrow> ref_ok h (eventQueue s) (Ext e)"
  by (simp add: ext_ok_def ref_ok_def)

lemma ring_ok_full: "ring_ok q \<Longrightarrow> nat (q_size q) < nat (q_maxSize q) \<longleftrightarrow> \<not> q_isFull q"
  by (auto simp: ring_ok_def q_isFull_def)

lemma ring_ok_empty: "ring_ok q \<Longrightarrow> 0 < q_size q \<longleftrightarrow> \<not> q_isEmpty q"
  by (auto simp: ring_ok_def q_isEmpty_def)

lemma q_values_empty: "ring_ok q \<Longrightarrow> q_values h q = [] \<longleftrightarrow> q_isEmpty q"
  by (auto simp: ring_ok_def q_isEmpty_def simp flip: length_0_conv)

text \<open>The step of a method whose body replaced the queue and the heap.\<close>

definition queue_step :: "heap \<Rightarrow> 'l Session \<Rightarrow> m_queue \<Rightarrow> heap \<Rightarrow> bool" where
  "queue_step h s q' h' \<longleftrightarrow> queue_ok h' q' \<and> q_maxSize q' = q_maxSize (eventQueue s) \<and>
     foreign h' (q_eventArr q') = foreign h (q_eventArr (eventQueue s)) \<and>
     (\<forall>p \<in> foreign h (q_eventArr (eventQueue s)). blocks h' p = blocks h p)"

lemma queue_step_ok:
  "queue_step h s q' h' \<Longrightarrow> sess_ok api (h, s) \<Longrightarrow>
     sess_ok api (h', s\<lparr>eventQueue := q'\<rparr>) \<and> keeps_foreign (h, s) (h', s\<lparr>eventQueue := q'\<rparr>) \<and>
     sess_abs (h', s\<lparr>eventQueue := q'\<rparr>) = (sess_abs (h, s))\<lparr>d_items := q_values h' q'\<rparr>"
  by (simp add: queue_step_def sess_ok_def keeps_foreign_def sess_abs_def)

lemma push_foreign:
  "\<forall>p \<in> dom (blocks h). blocks h' p = blocks h p \<Longrightarrow> \<forall>p \<in> foreign h arr. blocks h' p = blocks h p"
  by (simp add: foreign_def)

section \<open>The methods refine the specification\<close>

context srw_laws
begin

lemma sess_exclusive:
  assumes "idle api (sessionLock s)"
    and "\<And>l. body (h, s\<lparr>sessionLock := l\<rparr>) = Inr (r, h', s'\<lparr>sessionLock := l\<rparr>)"
    and "sessionLock s' = sessionLock s"
  shows "exclusive api sess_lock set_sess_lock body (h, s) = Inr (r, h', s')"
  by (rule exclusive_eq)
    (use assms(1,2) in \<open>simp_all add: sess_lock_def set_sess_lock_def flip: assms(3)\<close>)

lemma sess_shared:
  assumes "idle api (sessionLock s)"
    and "\<And>l. body (h, s\<lparr>sessionLock := l\<rparr>) = Inr (r, h', s'\<lparr>sessionLock := l\<rparr>)"
    and "sessionLock s' = sessionLock s"
  shows "shared api sess_lock set_sess_lock body (h, s) = Inr (r, h', s')"
  by (rule shared_eq)
    (use assms(1,2) in \<open>simp_all add: sess_lock_def set_sess_lock_def flip: assms(3)\<close>)

text \<open>
  The shape the four queue methods share: nothing on a halted session or when the guard on
  the queue fails, otherwise the queue step.
\<close>

lemma guarded_eq:
  assumes "sess_ok api (h, s)" and "G (eventQueue s) \<Longrightarrow> f (eventQueue s) h = Inr (q', h')"
  shows "exclusive api sess_lock set_sess_lock (\<lambda>(h, s).
       if STATUS_HALT \<noteq> s_status s \<and> G (eventQueue s) then
         bindR (f (eventQueue s) h) (\<lambda>(q, h'). Inr (True, h', s\<lparr>eventQueue := q\<rparr>))
       else Inr (False, h, s)) (h, s) =
     (if s_status s \<noteq> STATUS_HALT \<and> G (eventQueue s)
      then Inr (True, h', s\<lparr>eventQueue := q'\<rparr>) else Inr (False, h, s))"
proof -
  have "idle api (sessionLock s)" using assms(1) by (simp add: sess_ok_def)
  with assms(2) show ?thesis by (auto intro!: sess_exclusive)
qed

lemma pushBack_eq:
  assumes "sess_ok api (h, s)" and "ref_ok h (eventQueue s) r"
  shows "\<exists>q' h'. pushBack api r (h, s) =
       (if s_status s \<noteq> STATUS_HALT \<and> \<not> q_isFull (eventQueue s)
        then Inr (True, h', s\<lparr>eventQueue := q'\<rparr>) else Inr (False, h, s)) \<and>
     (\<not> q_isFull (eventQueue s) \<longrightarrow> queue_step h s q' h' \<and>
        q_values h' q' = q_values h (eventQueue s) @ [ref_value h (eventQueue s) r])"
proof -
  have q: "queue_ok h (eventQueue s)" using assms(1) by (simp add: sess_ok_def)
  then have "\<not> q_isFull (eventQueue s) \<Longrightarrow> q_size (eventQueue s) < q_maxSize (eventQueue s)"
    by (auto simp: queue_ok_def ring_ok_def q_isFull_def)
  then obtain q' h' where
    "\<not> q_isFull (eventQueue s) \<Longrightarrow> q_push_back r (eventQueue s) h = Inr (q', h') \<and>
       queue_step h s q' h' \<and> q_values h' q' = q_values h (eventQueue s) @ [ref_value h (eventQueue s) r]"
    using q_push_back_ok [OF q _ assms(2)] unfolding queue_step_def foreign_def by (metis Diff_iff)
  then show ?thesis
    unfolding pushBack_def
    using guarded_eq [OF assms(1), of "\<lambda>q. \<not> q_isFull q" "q_push_back r" q' h'] by auto
qed

lemma pushFront_eq:
  assumes "sess_ok api (h, s)" and "ref_ok h (eventQueue s) r"
  shows "\<exists>q' h'. pushFront api r (h, s) =
       (if s_status s \<noteq> STATUS_HALT \<and> \<not> q_isFull (eventQueue s)
        then Inr (True, h', s\<lparr>eventQueue := q'\<rparr>) else Inr (False, h, s)) \<and>
     (\<not> q_isFull (eventQueue s) \<longrightarrow> queue_step h s q' h' \<and>
        q_values h' q' = ref_value h (eventQueue s) r # q_values h (eventQueue s))"
proof -
  have q: "queue_ok h (eventQueue s)" using assms(1) by (simp add: sess_ok_def)
  then have "\<not> q_isFull (eventQueue s) \<Longrightarrow> q_size (eventQueue s) < q_maxSize (eventQueue s)"
    by (auto simp: queue_ok_def ring_ok_def q_isFull_def)
  then obtain q' h' where
    "\<not> q_isFull (eventQueue s) \<Longrightarrow> q_push_front r (eventQueue s) h = Inr (q', h') \<and>
       queue_step h s q' h' \<and> q_values h' q' = ref_value h (eventQueue s) r # q_values h (eventQueue s)"
    using q_push_front_ok [OF q _ assms(2)] unfolding queue_step_def foreign_def by (metis Diff_iff)
  then show ?thesis
    unfolding pushFront_def
    using guarded_eq [OF assms(1), of "\<lambda>q. \<not> q_isFull q" "q_push_front r" q' h'] by auto
qed

lemma popFront_eq:
  assumes "sess_ok api (h, s)"
  shows "\<exists>q' h'. popFront api (h, s) =
       (if s_status s \<noteq> STATUS_HALT \<and> \<not> q_isEmpty (eventQueue s)
        then Inr (True, h', s\<lparr>eventQueue := q'\<rparr>) else Inr (False, h, s)) \<and>
     (\<not> q_isEmpty (eventQueue s) \<longrightarrow> queue_step h s q' h' \<and>
        q_values h' q' = tl (q_values h (eventQueue s)))"
proof -
  have q: "queue_ok h (eventQueue s)" using assms(1) by (simp add: sess_ok_def)
  then have "\<not> q_isEmpty (eventQueue s) \<Longrightarrow> 0 < q_size (eventQueue s)"
    by (auto simp: queue_ok_def ring_ok_def q_isEmpty_def)
  then obtain q' h' where
    "\<not> q_isEmpty (eventQueue s) \<Longrightarrow> q_pop_front (eventQueue s) h = Inr (q', h') \<and>
       queue_step h s q' h' \<and> q_values h' q' = tl (q_values h (eventQueue s))"
    using q_pop_front_ok [OF q] unfolding queue_step_def by metis
  then show ?thesis
    unfolding popFront_def
    using guarded_eq [OF assms(1), of "\<lambda>q. \<not> q_isEmpty q" q_pop_front q' h'] by auto
qed

lemma popBack_eq:
  assumes "sess_ok api (h, s)"
  shows "\<exists>q' h'. popBack api (h, s) =
       (if s_status s \<noteq> STATUS_HALT \<and> \<not> q_isEmpty (eventQueue s)
        then Inr (True, h', s\<lparr>eventQueue := q'\<rparr>) else Inr (False, h, s)) \<and>
     (\<not> q_isEmpty (eventQueue s) \<longrightarrow> queue_step h s q' h' \<and>
        q_values h' q' = butlast (q_values h (eventQueue s)))"
proof -
  have q: "queue_ok h (eventQueue s)" using assms(1) by (simp add: sess_ok_def)
  then have "\<not> q_isEmpty (eventQueue s) \<Longrightarrow> 0 < q_size (eventQueue s)"
    by (auto simp: queue_ok_def ring_ok_def q_isEmpty_def)
  then obtain q' h' where
    "\<not> q_isEmpty (eventQueue s) \<Longrightarrow> q_pop_back (eventQueue s) h = Inr (q', h') \<and>
       queue_step h s q' h' \<and> q_values h' q' = butlast (q_values h (eventQueue s))"
    using q_pop_back_ok [OF q] unfolding queue_step_def by metis
  then show ?thesis
    unfolding popBack_def
    using guarded_eq [OF assms(1), of "\<lambda>q. \<not> q_isEmpty q" q_pop_back q' h'] by auto
qed

lemma clearEventQueue_eq:
  assumes "sess_ok api (h, s)"
  shows "\<exists>q' h'. clearEventQueue api (h, s) = Inr ((), h', s\<lparr>eventQueue := q'\<rparr>) \<and>
     queue_step h s q' h' \<and> q_values h' q' = [] \<and> slots_ok h' (q_eventArr q') {}"
proof -
  have ok: "idle api (sessionLock s)" "queue_ok h (eventQueue s)"
    using assms(1) by (auto simp: sess_ok_def)
  obtain q' h' where q': "q_clear (eventQueue s) h = Inr (q', h')" "queue_ok h' q'"
    "q_values h' q' = []" "q_maxSize q' = q_maxSize (eventQueue s)"
    "foreign h' (q_eventArr q') = foreign h (q_eventArr (eventQueue s))"
    "\<forall>p \<in> foreign h (q_eventArr (eventQueue s)). blocks h' p = blocks h p"
    "slots_ok h' (q_eventArr q') {}"
    using q_clear_ok [OF ok(2)] by blast
  have "clearEventQueue api (h, s) = Inr ((), h', s\<lparr>eventQueue := q'\<rparr>)"
    unfolding clearEventQueue_def using ok(1) q'(1) by (auto intro!: sess_exclusive)
  with q' show ?thesis by (auto simp: queue_step_def)
qed

lemma session_step_refines:
  assumes "sess_ok api st" and "op_ok st x"
  shows "\<exists>r st'. session_step api x st = Inr (r, st') \<and> sess_ok api st' \<and>
     deque_step (op_abs st x) (sess_abs st) = (r, sess_abs st') \<and>
     (\<forall>y. op_ok st y \<longrightarrow> op_ok st' y \<and> op_abs st' y = op_abs st y)"
proof -
  obtain h s where st: "st = (h, s)" by (cases st)
  note ok = assms [unfolded st]
  have ring: "ring_ok (eventQueue s)" using ok(1) by (simp add: sess_ok_def queue_ok_def)
  have "\<exists>r st'. session_step api x st = Inr (r, st') \<and> sess_ok api st' \<and> keeps_foreign st st' \<and>
     deque_step (op_abs st x) (sess_abs st) = (r, sess_abs st')"
  proof (cases x)
    case (PushBack e)
    then have "ref_ok h (eventQueue s) (Ext e)" using ok(2) by (simp add: op_ok_def ext_ok_ref)
    from pushBack_eq [OF ok(1) this] show ?thesis
      using ok(1) queue_step_ok [OF _ ok(1)] ring_ok_full [OF ring]
      by (auto simp: PushBack st op_abs_def sess_abs_def ref_value_def)
  next
    case (PushFront e)
    then have "ref_ok h (eventQueue s) (Ext e)" using ok(2) by (simp add: op_ok_def ext_ok_ref)
    from pushFront_eq [OF ok(1) this] show ?thesis
      using ok(1) queue_step_ok [OF _ ok(1)] ring_ok_full [OF ring]
      by (auto simp: PushFront st op_abs_def sess_abs_def ref_value_def)
  next
    case PopFront
    from popFront_eq [OF ok(1)] show ?thesis
      using ok(1) queue_step_ok [OF _ ok(1)] q_values_empty [OF ring]
      by (auto simp: PopFront st op_abs_def sess_abs_def)
  next
    case PopBack
    from popBack_eq [OF ok(1)] show ?thesis
      using ok(1) queue_step_ok [OF _ ok(1)] q_values_empty [OF ring]
      by (auto simp: PopBack st op_abs_def sess_abs_def)
  next
    case Clear
    from clearEventQueue_eq [OF ok(1)] show ?thesis
      using queue_step_ok [OF _ ok(1)] by (auto simp: Clear st op_abs_def)
  next
    case (SetStatus x')
    have "idle api (sessionLock s)" using ok(1) by (simp add: sess_ok_def)
    then have "s_setStatus api x' (h, s) = Inr ((), h, s\<lparr>s_status := x'\<rparr>)"
      unfolding s_setStatus_def by (auto intro!: sess_exclusive)
    with ok(1) show ?thesis
      by (auto simp: SetStatus st op_abs_def sess_abs_def sess_ok_def keeps_foreign_def)
  qed
  then show ?thesis using keeps_foreign_op by blast
qed

lemma getFirst_eq:
  assumes "sess_ok api (h, s)"
  shows "getFirst api (h, s) =
     Inr (if s_status s \<noteq> STATUS_HALT \<and> \<not> q_isEmpty (eventQueue s)
          then Some (nat (q_head (eventQueue s))) else None, h, s)"
  unfolding getFirst_def using assms by (auto intro!: sess_shared simp: sess_ok_def)

lemma getLast_eq:
  assumes "sess_ok api (h, s)"
  shows "getLast api (h, s) =
     Inr (if s_status s \<noteq> STATUS_HALT \<and> \<not> q_isEmpty (eventQueue s)
          then Some (nat (q_tail (eventQueue s))) else None, h, s)"
  unfolding getLast_def using assms by (auto intro!: sess_shared simp: sess_ok_def)

lemma Session_destroy_eq:
  assumes "sess_ok api (h, s)"
  shows "\<exists>h'. Session_destroy api (h, s) = Inr h' \<and> heap_ok h' \<and>
     dom (blocks h') = foreign h (q_eventArr (eventQueue s)) \<and>
     (\<forall>p \<in> dom (blocks h'). blocks h' p = blocks h p)"
proof -
  obtain q' h' where q': "clearEventQueue api (h, s) = Inr ((), h', s\<lparr>eventQueue := q'\<rparr>)"
    "queue_step h s q' h'" "slots_ok h' (q_eventArr q') {}"
    using clearEventQueue_eq [OF assms] by blast
  have "Event_destroy e h' = Inr h'" if "e \<in> set (q_eventArr q')" for e
    using that q'(3) by (auto simp: slots_ok_def in_set_conv_nth ev_owned_def Event_destroy_def)
  then have "foldR Event_destroy (rev (q_eventArr q')) h' = Inr h'"
    by (intro foldR_id) simp
  moreover have "foreign h' (q_eventArr q') = dom (blocks h')"
    using q'(3) by (auto simp: slots_ok_def foreign_def)
  ultimately show ?thesis
    using q'(1,2) by (auto simp: Session_destroy_def queue_step_def queue_ok_def)
qed

text \<open>The map of a session is a key-value store.\<close>

lemma s_put_eq:
  assumes "sess_ok api (h, s)"
  shows "s_put api k v (h, s) = Inr (True, h, s\<lparr>s_kv_map := smap_put k v (s_kv_map s)\<rparr>)"
  unfolding s_put_def using assms by (auto intro!: sess_exclusive simp: sess_ok_def)

lemma s_get_eq:
  assumes "sess_ok api (h, s)"
  shows "s_get api k (h, s) =
     Inr (case map_of (s_kv_map s) k of None \<Rightarrow> (False, 0) | Some v \<Rightarrow> (True, v), h, s)"
  unfolding s_get_def using assms by (auto intro!: sess_exclusive simp: sess_ok_def)

lemma s_remove_eq:
  assumes "sess_ok api (h, s)"
  shows "s_remove api k (h, s) =
     Inr (False, h, s\<lparr>s_kv_map := (if map_of (s_kv_map s) k = None then s_kv_map s
                                   else smap_erase k (s_kv_map s))\<rparr>)"
  unfolding s_remove_def using assms
  by (cases "map_of (s_kv_map s) k") (auto intro!: sess_exclusive simp: sess_ok_def)

end

sublocale srw_laws \<subseteq> session_deque:
  refinement "sess_ok api" sess_abs "session_step api" deque_step op_ok op_abs
  by unfold_locales (rule session_step_refines)

sublocale srw_laws \<subseteq> session_kv:
  kv_store "sess_ok api" "\<lambda>st. map_of (s_kv_map (snd st))" "s_put api" "s_get api" "s_remove api"
proof unfold_locales
  fix st :: "'l sess" and k v
  assume "sess_ok api st"
  moreover obtain h s where "st = (h, s)" by (cases st)
  ultimately have ok: "sess_ok api (h, s)" and st: "st = (h, s)" by simp_all
  from ok have map: "smap_ok (s_kv_map s)" by (simp add: sess_ok_def)
  show "\<exists>s'. s_put api k v st = Inr (True, s') \<and> sess_ok api s' \<and>
      map_of (s_kv_map (snd s')) = (map_of (s_kv_map (snd st)))(k \<mapsto> v)"
    using ok map by (simp add: st s_put_eq sess_ok_def smap.find_put smap.ok_put)
  show "s_get api k st =
      Inr (case map_of (s_kv_map (snd st)) k of None \<Rightarrow> (False, 0) | Some v \<Rightarrow> (True, v), st)"
    using ok by (simp add: st s_get_eq)
  show "\<exists>s'. s_remove api k st = Inr (False, s') \<and> sess_ok api s' \<and>
      map_of (s_kv_map (snd s')) = (map_of (s_kv_map (snd st)))(k := None)"
    using ok map
    by (auto simp: st s_remove_eq sess_ok_def smap.find_erase smap.ok_erase fun_eq_iff)
qed

text \<open>What the two interfaces give, for any lock that satisfies the laws.\<close>

context srw_laws
begin

lemmas session_run_refines = session_deque.run_refines
lemmas session_get_after_put = session_kv.get_after_put
lemmas session_get_after_remove = session_kv.get_after_remove

end

section \<open>Properties\<close>

text \<open>
  C1. Any sequence of pushes, pops, clears and status changes on a well-formed session runs
  without a fault and answers, call by call, what a bounded double-ended queue of event values
  answers; the session stays well-formed.
\<close>

theorem session_run_refines_deque:
  assumes "srw_laws api" and "sess_ok api st" and "\<forall>x \<in> set ops. op_ok st x"
  shows "\<exists>rs st'. runR (session_step api) ops st = Inr (rs, st') \<and> sess_ok api st' \<and>
     run_spec deque_step (map (op_abs st) ops) (sess_abs st) = (rs, sess_abs st')"
  using srw_laws.session_run_refines [OF assms] by blast

text \<open>A new session is well-formed and empty.\<close>

lemma Session_create_ok:
  assumes "heap_ok h"
  shows "sess_ok api (h, Session_create api key maxSize status level pri) \<and>
     sess_abs (h, Session_create api key maxSize status level pri) =
       \<lparr>d_status = status, d_cap = (if maxSize \<le> 0 then 170 else nat maxSize), d_items = []\<rparr>"
proof -
  let ?m = "if maxSize \<le> 0 then DEFAULT_QUEUE_SIZE else maxSize"
  let ?q = "eventQueue (Session_create api key maxSize status level pri)"
  have m: "0 < ?m" by (simp add: DEFAULT_QUEUE_SIZE_def)
  have q: "?q = \<lparr>q_size = 0, q_maxSize = ?m, q_head = ?m div 2, q_tail = ?m div 2,
      q_eventArr = replicate (nat ?m) Event_default\<rparr>"
    by (simp add: Session_create_def Let_def)
  have "ring_ok ?q" "ring_slots ?q = []"
    using m by (auto simp: q ring_ok_def ring_slots_def)
  moreover have "slots_ok h (q_eventArr ?q) {}" by (simp add: q slots_ok_def)
  ultimately show ?thesis
    using assms m
    by (auto simp: sess_ok_def queue_ok_def sess_abs_def q_values_def idle_def q
        Session_create_def Let_def SRWLock_init_def smap_ok_def DEFAULT_QUEUE_SIZE_def)
qed

lemma session_run_refines_deque_witness:
  "\<exists>rs st'. runR (session_step srw_ref)
       [PushBack (Event_default\<lparr>ev_pData := 7\<rparr>), PushFront Event_default, PopBack]
       (empty_heap, Session_create srw_ref ''k'' 3 STATUS_READY LEVEL_USER PRI_LOW) = Inr (rs, st') \<and>
     rs = [True, True, True] \<and> d_items (sess_abs st') = [ev_value empty_heap Event_default]"
proof -
  let ?st = "(empty_heap, Session_create srw_ref ''k'' 3 STATUS_READY LEVEL_USER PRI_LOW)"
  let ?ops = "[PushBack (Event_default\<lparr>ev_pData := 7\<rparr>), PushFront Event_default, PopBack]"
  have ok: "sess_ok srw_ref ?st" and abs: "sess_abs ?st = \<lparr>d_status = STATUS_READY, d_cap = 3, d_items = []\<rparr>"
    using Session_create_ok [of empty_heap srw_ref "''k''" 3] by simp_all
  have "\<forall>x \<in> set ?ops. op_ok ?st x"
    by (simp add: op_ok_def ext_ok_def ev_ok_def ev_owned_def Event_default_def)
  from session_run_refines_deque [OF srw_ref.srw_laws_axioms ok this]
  obtain rs st' where run: "runR (session_step srw_ref) ?ops ?st = Inr (rs, st')"
    "(rs, sess_abs st') = run_spec deque_step (map (op_abs ?st) ?ops) (sess_abs ?st)" by metis
  from run(2) have "rs = [True, True, True]" "d_items (sess_abs st') = [ev_value empty_heap Event_default]"
    by (simp_all add: abs op_abs_def)
  with run(1) show ?thesis by blast
qed

text \<open>
  The first pointer a session hands out is the slot of the front event and the last one
  the slot of the back event, whenever the session is not halted and not empty; otherwise no
  pointer is handed out.
\<close>

theorem session_first_last:
  assumes "srw_laws api" and "sess_ok api (h, s)"
  shows "if d_status (sess_abs (h, s)) \<noteq> STATUS_HALT \<and> d_items (sess_abs (h, s)) \<noteq> []
     then \<exists>i j. getFirst api (h, s) = Inr (Some i, h, s) \<and> getLast api (h, s) = Inr (Some j, h, s) \<and>
        i < length (q_eventArr (eventQueue s)) \<and> j < length (q_eventArr (eventQueue s)) \<and>
        ev_value h (q_eventArr (eventQueue s) ! i) = hd (d_items (sess_abs (h, s))) \<and>
        ev_value h (q_eventArr (eventQueue s) ! j) = last (d_items (sess_abs (h, s)))
     else getFirst api (h, s) = Inr (None, h, s) \<and> getLast api (h, s) = Inr (None, h, s)"
proof -
  let ?q = "eventQueue s"
  have ring: "ring_ok ?q" using assms(2) by (simp add: sess_ok_def queue_ok_def)
  have ends: "hd (ring_slots ?q) = q_head ?q \<and> last (ring_slots ?q) = q_tail ?q \<and> ring_slots ?q \<noteq> []"
    if "\<not> q_isEmpty ?q"
  proof -
    have "0 < q_size ?q" using that ring_ok_empty [OF ring] by simp
    then have "\<exists>xs. ring_slots ?q = q_head ?q # xs"
      using ring_slots_tl [OF ring, of "?q\<lparr>q_size := q_size ?q - 1, q_head := (q_head ?q + 1) mod q_maxSize ?q\<rparr>"]
      by simp
    moreover have "\<exists>xs. ring_slots ?q = xs @ [q_tail ?q]"
      using ring_slots_butlast [OF ring, of "?q\<lparr>q_size := q_size ?q - 1\<rparr>"] \<open>0 < q_size ?q\<close>
      by (intro exI) simp
    ultimately have "\<exists>xs. ring_slots ?q = q_head ?q # xs" "\<exists>xs. ring_slots ?q = xs @ [q_tail ?q]"
      by blast+
    then show ?thesis by (metis last_snoc list.distinct(1) list.sel(1))
  qed
  show ?thesis
    using ring_index_ok [OF ring] ends q_values_empty [OF ring, of h]
      srw_laws.getFirst_eq [OF assms] srw_laws.getLast_eq [OF assms]
    by (auto simp: sess_abs_def q_values_def hd_map last_map)
qed

lemma session_first_last_witness:
  "let s = Session_create srw_ref ''k'' 3 STATUS_READY LEVEL_USER PRI_LOW in
     getFirst srw_ref (empty_heap, s) = Inr (None, empty_heap, s)"
  using session_first_last [OF srw_ref.srw_laws_axioms,
      of empty_heap "Session_create srw_ref ''k'' 3 STATUS_READY LEVEL_USER PRI_LOW"]
    Session_create_ok [of empty_heap srw_ref "''k''" 3 STATUS_READY LEVEL_USER PRI_LOW]
  by (simp add: Let_def)

text \<open>
  C32. Destroying a session frees exactly the blocks its slots own: no block is freed twice,
  none is leaked, and no block of anybody else is touched.
\<close>

theorem session_destroy_frees_owned:
  assumes "srw_laws api" and "sess_ok api (h, s)"
  shows "\<exists>h'. Session_destroy api (h, s) = Inr h' \<and>
     dom (blocks h') = dom (blocks h) -
       (\<Union>i < length (q_eventArr (eventQueue s)). ev_owned (q_eventArr (eventQueue s) ! i)) \<and>
     (\<forall>p \<in> dom (blocks h'). blocks h' p = blocks h p)"
  using srw_laws.Session_destroy_eq [OF assms] by (auto simp: foreign_def)

lemma session_destroy_frees_owned_witness:
  "\<exists>h'. Session_destroy srw_ref
       (empty_heap, Session_create srw_ref ''k'' 3 STATUS_READY LEVEL_USER PRI_LOW) = Inr h' \<and>
     dom (blocks h') = {}"
  using session_destroy_frees_owned [OF srw_ref.srw_laws_axioms,
      of empty_heap "Session_create srw_ref ''k'' 3 STATUS_READY LEVEL_USER PRI_LOW"]
    Session_create_ok [of empty_heap srw_ref "''k''" 3 STATUS_READY LEVEL_USER PRI_LOW]
  by (metis Diff_empty Diff_eq_empty_iff dom_empty empty_subsetI empty_heap_def heap.select_convs(1) heap_ok_empty)

text \<open>
  A session's map: after a \<^verbatim>\<open>put\<close>, \<^verbatim>\<open>get\<close> finds the value under that key and
  every other key answers as before; after a \<^verbatim>\<open>remove\<close> the key is gone, but the call
  returned false although it removed something.
\<close>

theorem session_put_get_remove:
  assumes "srw_laws api" and "sess_ok api st"
  shows "\<exists>st1 st2. s_put api k v st = Inr (True, st1) \<and> s_get api k st1 = Inr ((True, v), st1) \<and>
     (\<forall>k'. k' \<noteq> k \<longrightarrow> map_sum id fst (s_get api k' st1) = map_sum id fst (s_get api k' st)) \<and>
     s_remove api k st1 = Inr (False, st2) \<and> s_get api k st2 = Inr ((False, 0), st2)"
proof -
  obtain st1 where st1: "s_put api k v st = Inr (True, st1)" "s_get api k st1 = Inr ((True, v), st1)"
    "\<forall>k'. k' \<noteq> k \<longrightarrow> map_sum id fst (s_get api k' st1) = map_sum id fst (s_get api k' st)"
    using srw_laws.session_get_after_put [OF assms, of k v] by blast
  have "sess_ok api st1"
    using st1(1) assms srw_laws.s_put_eq [OF assms(1)] by (cases st) (auto simp: sess_ok_def smap.ok_put)
  from srw_laws.session_get_after_remove [OF assms(1) this, of k] st1 show ?thesis by blast
qed

lemma session_put_get_remove_witness:
  "\<exists>st1. s_put srw_ref ''a'' 5
      (empty_heap, Session_create srw_ref ''k'' 3 STATUS_READY LEVEL_USER PRI_LOW) = Inr (True, st1) \<and>
     s_get srw_ref ''a'' st1 = Inr ((True, 5), st1)"
  using session_put_get_remove [OF srw_ref.srw_laws_axioms,
      of "(empty_heap, Session_create srw_ref ''k'' 3 STATUS_READY LEVEL_USER PRI_LOW)" "''a''" 5]
    Session_create_ok [of empty_heap srw_ref "''k''" 3 STATUS_READY LEVEL_USER PRI_LOW]
  by auto

end
