(* ===== verification/Session_Show.thy ===== *)
theory Session_Show
  imports Session_Deque
begin

text \<open>
  What \<^verbatim>\<open>Event::show\<close> and \<^verbatim>\<open>Session::show\<close> write to the log. A line is the fields that are printed; a text
  is the cells a \<^verbatim>\<open>%s\<close> prints, up to the first 0.
\<close>

section \<open>Showing\<close>

datatype shown = ShownText "cell list" int Status Level Priority | ShownPointer addr int Status Level Priority

text \<open>Printing the string at a pointer: without a 0 in its block, printing runs beyond the end.\<close>

definition print_string :: "addr \<Rightarrow> heap \<Rightarrow> cell list res" where
  "print_string p h =
     (if p = 0 then Inl NullDeref
      else case blocks h p of
        None \<Rightarrow> Inl UseAfterFree
      | Some b \<Rightarrow> if Some (CHR 0x00) \<in> set b then Inr (takeWhile (\<lambda>c. c \<noteq> Some (CHR 0x00)) b) else Inl OutOfBounds)"

definition Event_show :: "Event \<Rightarrow> heap \<Rightarrow> shown res" where
  "Event_show e h =
     (if ev_length e > 0
      then bindR (print_string (ev_pData e) h) (\<lambda>t. Inr (ShownText t (ev_length e) (ev_status e) (ev_level e) (ev_priority e)))
      else Inr (ShownPointer (ev_pData e) (ev_length e) (ev_status e) (ev_level e) (ev_priority e)))"

fun show_slots :: "nat \<Rightarrow> int \<Rightarrow> m_queue \<Rightarrow> heap \<Rightarrow> shown list res" where
  "show_slots 0 index q h = Inr []"
| "show_slots (Suc n) index q h =
     (if index < 0 \<or> length (q_eventArr q) \<le> nat index then Inl OutOfBounds
      else
        bindR (Event_show (q_eventArr q ! nat index) h) (\<lambda>x.
        bindR (show_slots n (if index = q_maxSize q - 1 then 0 else index + 1) q h) (\<lambda>xs.
        Inr (x # xs))))"

text \<open>The line about the session and those about its events, if they are asked for.\<close>

definition Session_show ::
  "'l srw_api \<Rightarrow> bool \<Rightarrow> 'l sess \<Rightarrow> (((string \<times> int \<times> Status \<times> Level \<times> Priority) \<times> shown list) \<times> 'l sess) res" where
  "Session_show api showEvents =
     shared api sess_lock set_sess_lock (\<lambda>(h, s).
       let q = eventQueue s; line = (s_key s, q_size q, s_status s, s_level s, s_priority s) in
       if showEvents
       then bindR (show_slots (nat (q_size q)) (q_head q) q h) (\<lambda>xs. Inr ((line, xs), h, s))
       else Inr ((line, []), h, s))"

section \<open>What is shown of a well-formed queue\<close>

definition value_shown :: "event_value \<Rightarrow> shown" where
  "value_shown v =
     (case v of (p, st, lv, pr) \<Rightarrow>
      case p of
        Owned cs \<Rightarrow> ShownText (takeWhile (\<lambda>c. c \<noteq> Some (CHR 0x00)) cs) (int (length cs)) st lv pr
      | Borrowed a \<Rightarrow> ShownPointer a 0 st lv pr)"

lemma Event_show_ok:
  assumes "ev_ok h e"
  shows "Event_show e h = Inr (value_shown (ev_value h e))"
proof (cases "ev_length e > 0")
  case True
  then obtain b where b: "ev_pData e \<noteq> 0" "blocks h (ev_pData e) = Some b" "length b = nat (ev_length e) + 1"
    "b ! nat (ev_length e) = Some (CHR 0x00)"
    using assms by (auto simp: ev_ok_def split: option.splits)
  let ?n = "nat (ev_length e)"
  have "b = take ?n b @ [Some (CHR 0x00)]" using b(3,4) take_Suc_conv_app_nth [of ?n b] by simp
  then obtain cs where cs: "b = cs @ [Some (CHR 0x00)]" "cs = take ?n b" by blast
  have "takeWhile (\<lambda>c. c \<noteq> Some (CHR 0x00)) b = takeWhile (\<lambda>c. c \<noteq> Some (CHR 0x00)) cs"
    unfolding cs(1) by (induction cs) simp_all
  moreover have "length cs = ?n" "Some (CHR 0x00) \<in> set b" using b(3) cs(1) by simp_all
  ultimately have "print_string (ev_pData e) h = Inr (takeWhile (\<lambda>c. c \<noteq> Some (CHR 0x00)) cs)" "length cs = ?n"
    using b(1,2) by (simp_all add: print_string_def)
  moreover have "ev_payload h e = Owned cs" using True b(2) cs(2) by (simp add: ev_payload_def)
  ultimately show ?thesis using True by (simp add: Event_show_def value_shown_def ev_value_def)
next
  case False
  then show ?thesis
    using assms by (simp add: Event_show_def value_shown_def ev_value_def ev_payload_def ev_ok_def)
qed

lemma show_slots_ok:
  assumes "ring_ok q" and "\<And>j. j < length (q_eventArr q) \<Longrightarrow> ev_ok h (q_eventArr q ! j)" and "0 \<le> i" and "i < q_maxSize q"
  shows "show_slots n i q h =
     Inr (map (\<lambda>k. value_shown (ev_value h (q_eventArr q ! nat ((i + int k) mod q_maxSize q)))) [0..<n])"
  using assms(3,4)
proof (induction n arbitrary: i)
  case (Suc n)
  let ?m = "q_maxSize q" and ?i = "(i + 1) mod q_maxSize q"
  have i: "nat i < length (q_eventArr q)" "i mod ?m = i" using Suc.prems assms(1) by (auto simp: ring_ok_def)
  have nx: "(if i = ?m - 1 then 0 else i + 1) = ?i" using next_index [OF Suc.prems] by (auto split: if_splits)
  have "0 \<le> ?i" "?i < ?m" using Suc.prems by auto
  from Suc.IH [OF this] have "show_slots n ?i q h =
     Inr (map (\<lambda>k. value_shown (ev_value h (q_eventArr q ! nat ((?i + int k) mod ?m)))) [0..<n])" .
  moreover have "(?i + int k) mod ?m = (i + int (Suc k)) mod ?m" for k by (simp add: mod_simps ac_simps)
  ultimately show ?case
    using Suc.prems i Event_show_ok [OF assms(2) [OF i(1)]]
    by (simp add: nx upt_conv_Cons map_Suc_upt [symmetric] comp_def del: upt_Suc)
qed simp

section \<open>Properties\<close>

text \<open>
  Showing a well-formed session changes nothing and never reads beyond the data of an event: with
  \<^verbatim>\<open>showEvents\<close> there is one line for each waiting event, from the first to the last.
\<close>

theorem session_show_in_order:
  assumes "srw_laws api" and "sess_ok api (h, s)"
  shows "Session_show api b (h, s) =
     Inr (((s_key s, q_size (eventQueue s), s_status s, s_level s, s_priority s),
           if b then map value_shown (d_items (sess_abs (h, s))) else []), h, s)"
proof -
  let ?q = "eventQueue s"
  have ok: "ring_ok ?q" "slots_ok h (q_eventArr ?q) (set (ring_slots ?q))" using assms(2) by (simp_all add: sess_ok_def queue_ok_def)
  have "show_slots (nat (q_size ?q)) (q_head ?q) ?q h = Inr (map value_shown (q_values h ?q))"
    using show_slots_ok [OF ok(1), of h "q_head ?q" "nat (q_size ?q)"] ok
    by (simp add: slots_ok_def ring_ok_def q_values_def ring_slots_def comp_def)
  then show ?thesis
    unfolding Session_show_def using assms(2)
    by (auto intro!: srw_laws.sess_shared [OF assms(1)] simp: sess_ok_def sess_abs_def Let_def)
qed

end
