(* ===== verification/Session_Manager.thy ===== *)
theory Session_Manager
  imports Session_Deque
begin

text \<open>
  The class \<^verbatim>\<open>svr::SessionManager\<close> of \<^verbatim>\<open>server.h\<close>: the map of sessions, a key-value map and
  a status, every method under the manager's lock. A session object belongs to the entry that
  points to it, so the map holds the sessions themselves; a handler that
  \<^verbatim>\<open>runSessionHandler\<close> calls is an argument, a step on the whole manager, because nothing
  keeps it from calling the manager again.
\<close>

section \<open>State and methods\<close>

record 'l SessionManager =
  sm_status :: Status
  sm_sessionMap :: "(string, 'l Session) smap"
  sm_kv_map :: "(string, addr) smap"
  sm_lock :: "'l SRWLock"

type_synonym 'l mgr = "heap \<times> 'l SessionManager"

definition mgr_lock :: "'l mgr \<Rightarrow> 'l SRWLock" where
  "mgr_lock st = sm_lock (snd st)"

definition set_mgr_lock :: "'l SRWLock \<Rightarrow> 'l mgr \<Rightarrow> 'l mgr" where
  "set_mgr_lock l st = (fst st, (snd st)\<lparr>sm_lock := l\<rparr>)"

definition SessionManager_create :: "'l srw_api \<Rightarrow> 'l SessionManager" where
  "SessionManager_create api =
     \<lparr>sm_status = STATUS_READY, sm_sessionMap = [], sm_kv_map = [], sm_lock = SRWLock_init api\<rparr>"

text \<open>The parameter \<open>status\<close> hides the member of the same name, as in the source.\<close>

definition addSession ::
  "'l srw_api \<Rightarrow> string \<Rightarrow> int \<Rightarrow> Status \<Rightarrow> Level \<Rightarrow> Priority \<Rightarrow> 'l mgr \<Rightarrow> (bool \<times> 'l mgr) res" where
  "addSession api key maxSize status level pri =
     exclusive api mgr_lock set_mgr_lock (\<lambda>(h, m).
       let it = map_of (sm_sessionMap m) key in
       if STATUS_HALT = status \<or> STATUS_SUSPEND = status then Inr (False, h, m)
       else if it \<noteq> None then
         (let pSession = Session_create api key maxSize status level pri;
              (inserted, sessions) = smap_insert key pSession (sm_sessionMap m)
          in Inr (inserted, h, m\<lparr>sm_sessionMap := sessions\<rparr>))
       else Inr (False, h, m))"

definition runSessionHandler ::
  "'l srw_api \<Rightarrow> string \<Rightarrow> (string \<Rightarrow> 'l mgr \<Rightarrow> 'l mgr res) \<Rightarrow> 'l mgr \<Rightarrow> (bool \<times> 'l mgr) res" where
  "runSessionHandler api key handler =
     shared api mgr_lock set_mgr_lock (\<lambda>(h, m).
       if map_of (sm_sessionMap m) key \<noteq> None \<and> STATUS_HALT \<noteq> sm_status m then
         bindR (handler key (h, m)) (\<lambda>st. Inr (True, st))
       else Inr (False, h, m))"

definition isSessionExsist :: "'l srw_api \<Rightarrow> string \<Rightarrow> 'l mgr \<Rightarrow> (bool \<times> 'l mgr) res" where
  "isSessionExsist api key =
     shared api mgr_lock set_mgr_lock (\<lambda>(h, m).
       Inr (map_of (sm_sessionMap m) key \<noteq> None, h, m))"

definition removeSession :: "'l srw_api \<Rightarrow> string \<Rightarrow> 'l mgr \<Rightarrow> (bool \<times> 'l mgr) res" where
  "removeSession api key =
     exclusive api mgr_lock set_mgr_lock (\<lambda>(h, m).
       case map_of (sm_sessionMap m) key of
         Some s \<Rightarrow>
           bindR (Session_destroy api (h, s)) (\<lambda>h'.
             Inr (True, h', m\<lparr>sm_sessionMap := smap_erase key (sm_sessionMap m)\<rparr>))
       | None \<Rightarrow> Inr (False, h, m))"

definition sm_removeAll :: "'l srw_api \<Rightarrow> 'l mgr \<Rightarrow> (unit \<times> 'l mgr) res" where
  "sm_removeAll api =
     exclusive api mgr_lock set_mgr_lock (\<lambda>(h, m).
       bindR (foldR (\<lambda>e h. Session_destroy api (h, snd e)) (sm_sessionMap m) h) (\<lambda>h'.
         Inr ((), h', m\<lparr>sm_sessionMap := []\<rparr>)))"

definition SessionManager_destroy :: "'l srw_api \<Rightarrow> 'l mgr \<Rightarrow> (unit \<times> 'l mgr) res" where
  "SessionManager_destroy api = sm_removeAll api"

definition getSessionCount :: "'l srw_api \<Rightarrow> 'l mgr \<Rightarrow> (nat \<times> 'l mgr) res" where
  "getSessionCount api =
     shared api mgr_lock set_mgr_lock (\<lambda>(h, m). Inr (length (sm_sessionMap m), h, m))"

definition sm_getStatus :: "'l srw_api \<Rightarrow> 'l mgr \<Rightarrow> (Status \<times> 'l mgr) res" where
  "sm_getStatus api = shared api mgr_lock set_mgr_lock (\<lambda>(h, m). Inr (sm_status m, h, m))"

definition sm_setStatus :: "'l srw_api \<Rightarrow> Status \<Rightarrow> 'l mgr \<Rightarrow> (unit \<times> 'l mgr) res" where
  "sm_setStatus api st =
     exclusive api mgr_lock set_mgr_lock (\<lambda>(h, m). Inr ((), h, m\<lparr>sm_status := st\<rparr>))"

definition sm_put :: "'l srw_api \<Rightarrow> string \<Rightarrow> addr \<Rightarrow> 'l mgr \<Rightarrow> (bool \<times> 'l mgr) res" where
  "sm_put api key v =
     exclusive api mgr_lock set_mgr_lock (\<lambda>(h, m).
       Inr (True, h, m\<lparr>sm_kv_map := smap_put key v (sm_kv_map m)\<rparr>))"

definition sm_get :: "'l srw_api \<Rightarrow> string \<Rightarrow> 'l mgr \<Rightarrow> ((bool \<times> addr) \<times> 'l mgr) res" where
  "sm_get api key =
     exclusive api mgr_lock set_mgr_lock (\<lambda>(h, m).
       Inr (case map_of (sm_kv_map m) key of None \<Rightarrow> (False, 0) | Some v \<Rightarrow> (True, v), h, m))"

definition sm_remove :: "'l srw_api \<Rightarrow> string \<Rightarrow> 'l mgr \<Rightarrow> (bool \<times> 'l mgr) res" where
  "sm_remove api key =
     exclusive api mgr_lock set_mgr_lock (\<lambda>(h, m).
       case map_of (sm_kv_map m) key of
         None \<Rightarrow> Inr (False, h, m)
       | Some v \<Rightarrow> Inr (False, h, m\<lparr>sm_kv_map := smap_erase key (sm_kv_map m)\<rparr>))"

section \<open>Invariant\<close>

definition sess_owned :: "'l Session \<Rightarrow> addr set" where
  "sess_owned s =
     (\<Union>i < length (q_eventArr (eventQueue s)). ev_owned (q_eventArr (eventQueue s) ! i))"

text \<open>Every session of a list is well-formed and no block belongs to two of them.\<close>

definition sessions_ok :: "'l srw_api \<Rightarrow> heap \<Rightarrow> (string, 'l Session) smap \<Rightarrow> bool" where
  "sessions_ok api h ss \<longleftrightarrow>
     (\<forall>e \<in> set ss. sess_ok api (h, snd e)) \<and>
     (\<forall>e \<in> set ss. \<forall>e' \<in> set ss. fst e \<noteq> fst e' \<longrightarrow> sess_owned (snd e) \<inter> sess_owned (snd e') = {})"

definition mgr_ok :: "'l srw_api \<Rightarrow> 'l mgr \<Rightarrow> bool" where
  "mgr_ok api st \<longleftrightarrow> heap_ok (fst st) \<and> idle api (sm_lock (snd st)) \<and>
     smap_ok (sm_sessionMap (snd st)) \<and> smap_ok (sm_kv_map (snd st)) \<and>
     sessions_ok api (fst st) (sm_sessionMap (snd st))"

lemma sess_ok_cong:
  assumes "sess_ok api (h, s)" and "heap_ok h'" and "\<And>p. p \<in> sess_owned s \<Longrightarrow> blocks h' p = blocks h p"
  shows "sess_ok api (h', s)"
proof -
  let ?arr = "q_eventArr (eventQueue s)"
  have "ev_ok h' (?arr ! i)" if "i < length ?arr" for i
  proof -
    have "ev_ok h' (?arr ! i) = ev_ok h (?arr ! i)"
      using that assms(3) by (intro ev_ok_cong [OF subset_refl]) (auto simp: sess_owned_def)
    then show ?thesis using assms(1) that by (simp add: sess_ok_def queue_ok_def slots_ok_def)
  qed
  with assms(1,2) show ?thesis by (simp add: sess_ok_def queue_ok_def slots_ok_def)
qed

lemma sess_owned_live: "sess_ok api (h, s) \<Longrightarrow> sess_owned s \<subseteq> dom (blocks h)"
  using ev_ok_live by (fastforce simp: sess_ok_def queue_ok_def slots_ok_def sess_owned_def)

section \<open>The methods on a well-formed manager\<close>

context srw_laws
begin

lemma mgr_exclusive:
  assumes "idle api (sm_lock m)"
    and "\<And>l. body (h, m\<lparr>sm_lock := l\<rparr>) = Inr (r, h', m'\<lparr>sm_lock := l\<rparr>)"
    and "sm_lock m' = sm_lock m"
  shows "exclusive api mgr_lock set_mgr_lock body (h, m) = Inr (r, h', m')"
  by (rule exclusive_eq)
    (use assms(1,2) in \<open>simp_all add: mgr_lock_def set_mgr_lock_def flip: assms(3)\<close>)

lemma mgr_shared:
  assumes "idle api (sm_lock m)"
    and "\<And>l. body (h, m\<lparr>sm_lock := l\<rparr>) = Inr (r, h', m'\<lparr>sm_lock := l\<rparr>)"
    and "sm_lock m' = sm_lock m"
  shows "shared api mgr_lock set_mgr_lock body (h, m) = Inr (r, h', m')"
  by (rule shared_eq)
    (use assms(1,2) in \<open>simp_all add: mgr_lock_def set_mgr_lock_def flip: assms(3)\<close>)

lemma addSession_eq:
  assumes "idle api (sm_lock m)"
  shows "addSession api key maxSize status level pri (h, m) = Inr (False, h, m)"
  unfolding addSession_def
  by (rule mgr_exclusive [OF assms]) (auto simp: smap_insert_def Let_def split: option.splits)

text \<open>Destroying one session leaves the others well-formed.\<close>

lemma sessions_ok_destroy:
  assumes "sessions_ok api h ss" and "e \<in> set ss" and "Session_destroy api (h, snd e) = Inr h'"
  shows "heap_ok h' \<and> dom (blocks h') = dom (blocks h) - sess_owned (snd e) \<and>
     sessions_ok api h' (filter (\<lambda>e'. fst e' \<noteq> fst e) ss)"
proof -
  have ok: "sess_ok api (h, snd e)" using assms(1,2) by (auto simp: sessions_ok_def)
  have h': "heap_ok h'" "dom (blocks h') = dom (blocks h) - sess_owned (snd e)"
    "\<forall>p \<in> dom (blocks h'). blocks h' p = blocks h p"
    using Session_destroy_eq [OF ok] assms(3) by (auto simp: foreign_def sess_owned_def)
  have "sess_ok api (h', snd e')" if "e' \<in> set ss" "fst e' \<noteq> fst e" for e'
  proof (rule sess_ok_cong)
    show e': "sess_ok api (h, snd e')" using assms(1) that by (auto simp: sessions_ok_def)
    fix p assume "p \<in> sess_owned (snd e')"
    moreover have "sess_owned (snd e') \<inter> sess_owned (snd e) = {}"
      using that assms(1,2) by (auto simp: sessions_ok_def)
    ultimately have "p \<in> dom (blocks h')" using sess_owned_live [OF e'] h'(2) by auto
    then show "blocks h' p = blocks h p" using h'(3) by blast
  qed (rule h'(1))
  with assms(1) h' show ?thesis by (auto simp: sessions_ok_def)
qed

lemma removeSession_eq:
  assumes "mgr_ok api (h, m)"
  shows "case map_of (sm_sessionMap m) key of
       None \<Rightarrow> removeSession api key (h, m) = Inr (False, h, m)
     | Some s \<Rightarrow> (\<exists>h'. removeSession api key (h, m) =
           Inr (True, h', m\<lparr>sm_sessionMap := smap_erase key (sm_sessionMap m)\<rparr>) \<and>
         mgr_ok api (h', m\<lparr>sm_sessionMap := smap_erase key (sm_sessionMap m)\<rparr>) \<and>
         dom (blocks h') = dom (blocks h) - sess_owned s)"
proof (cases "map_of (sm_sessionMap m) key")
  case None
  have "idle api (sm_lock m)" using assms by (simp add: mgr_ok_def)
  with None show ?thesis unfolding removeSession_def by (auto intro!: mgr_exclusive)
next
  case (Some s)
  then have e: "(key, s) \<in> set (sm_sessionMap m)" by (rule map_of_SomeD)
  have ok: "idle api (sm_lock m)" "sessions_ok api h (sm_sessionMap m)" "smap_ok (sm_sessionMap m)"
    using assms by (simp_all add: mgr_ok_def)
  then have "sess_ok api (h, s)" using e by (auto simp: sessions_ok_def)
  then obtain h' where h': "Session_destroy api (h, s) = Inr h'"
    using Session_destroy_eq by blast
  have "removeSession api key (h, m) = Inr (True, h', m\<lparr>sm_sessionMap := smap_erase key (sm_sessionMap m)\<rparr>)"
    unfolding removeSession_def using ok(1) h' Some by (auto intro!: mgr_exclusive)
  with Some assms sessions_ok_destroy [OF ok(2) e] h' show ?thesis
    by (auto simp: mgr_ok_def smap.ok_erase) (simp add: smap_erase_def)
qed

lemma destroy_all_ok:
  assumes "heap_ok h" and "sessions_ok api h ss" and "smap_ok ss"
  shows "\<exists>h'. foldR (\<lambda>e h. Session_destroy api (h, snd e)) ss h = Inr h' \<and> heap_ok h' \<and>
     dom (blocks h') = dom (blocks h) - (\<Union>e \<in> set ss. sess_owned (snd e))"
  using assms
proof (induction ss arbitrary: h)
  case Nil
  then show ?case by simp
next
  case (Cons e ss)
  have "sess_ok api (h, snd e)" using Cons.prems(2) by (simp add: sessions_ok_def)
  then obtain h1 where h1: "Session_destroy api (h, snd e) = Inr h1"
    using Session_destroy_eq by blast
  have rest: "filter (\<lambda>e'. fst e' \<noteq> fst e) (e # ss) = ss"
    using smap_ok_distinct [OF Cons.prems(3)] by (auto intro!: filter_True) (metis fst_conv image_eqI)
  have "heap_ok h1 \<and> dom (blocks h1) = dom (blocks h) - sess_owned (snd e) \<and> sessions_ok api h1 ss"
    using sessions_ok_destroy [OF Cons.prems(2) _ h1] unfolding rest by simp
  with Cons.IH [of h1] smap_ok_tail [OF Cons.prems(3)] h1 show ?case by auto
qed

lemma sm_removeAll_eq:
  assumes "mgr_ok api (h, m)"
  shows "\<exists>h'. sm_removeAll api (h, m) = Inr ((), h', m\<lparr>sm_sessionMap := []\<rparr>) \<and>
     mgr_ok api (h', m\<lparr>sm_sessionMap := []\<rparr>) \<and>
     dom (blocks h') = dom (blocks h) - (\<Union>e \<in> set (sm_sessionMap m). sess_owned (snd e))"
proof -
  have ok: "heap_ok h" "idle api (sm_lock m)" "sessions_ok api h (sm_sessionMap m)" "smap_ok (sm_sessionMap m)"
    using assms by (simp_all add: mgr_ok_def)
  obtain h' where h': "foldR (\<lambda>e h. Session_destroy api (h, snd e)) (sm_sessionMap m) h = Inr h'"
    "heap_ok h'" "dom (blocks h') = dom (blocks h) - (\<Union>e \<in> set (sm_sessionMap m). sess_owned (snd e))"
    using destroy_all_ok [OF ok(1,3,4)] by blast
  have "sm_removeAll api (h, m) = Inr ((), h', m\<lparr>sm_sessionMap := []\<rparr>)"
    unfolding sm_removeAll_def using ok(2) h'(1) by (auto intro!: mgr_exclusive)
  with h' assms show ?thesis
    by (auto simp: mgr_ok_def sessions_ok_def smap_ok_def)
qed

lemma sm_put_eq:
  assumes "idle api (sm_lock m)"
  shows "sm_put api k v (h, m) = Inr (True, h, m\<lparr>sm_kv_map := smap_put k v (sm_kv_map m)\<rparr>)"
  unfolding sm_put_def using assms by (auto intro!: mgr_exclusive)

lemma sm_get_eq:
  assumes "idle api (sm_lock m)"
  shows "sm_get api k (h, m) =
     Inr (case map_of (sm_kv_map m) k of None \<Rightarrow> (False, 0) | Some v \<Rightarrow> (True, v), h, m)"
  unfolding sm_get_def using assms by (auto intro!: mgr_exclusive)

lemma sm_remove_eq:
  assumes "idle api (sm_lock m)"
  shows "sm_remove api k (h, m) =
     Inr (False, h, m\<lparr>sm_kv_map := (if map_of (sm_kv_map m) k = None then sm_kv_map m
                                    else smap_erase k (sm_kv_map m))\<rparr>)"
  unfolding sm_remove_def using assms
  by (cases "map_of (sm_kv_map m) k") (auto intro!: mgr_exclusive)

lemma sm_setStatus_eq:
  assumes "idle api (sm_lock m)"
  shows "sm_setStatus api x (h, m) = Inr ((), h, m\<lparr>sm_status := x\<rparr>)"
  unfolding sm_setStatus_def using assms by (auto intro!: mgr_exclusive)

lemma runSessionHandler_absent:
  assumes "idle api (sm_lock m)" and "map_of (sm_sessionMap m) key = None"
  shows "runSessionHandler api key handler (h, m) = Inr (False, h, m)"
  unfolding runSessionHandler_def using assms by (auto intro!: mgr_shared)

text \<open>A handler runs while the manager's lock is shared; an exclusive method called from it waits for it.\<close>

lemma runSessionHandler_reentrant:
  assumes "idle api (sm_lock m)" and "map_of (sm_sessionMap m) key \<noteq> None"
    and "sm_status m \<noteq> STATUS_HALT"
    and "\<And>k h' m'. AcquireExclusive api (sm_lock m') = Inl WouldBlock \<Longrightarrow> handler k (h', m') = Inl WouldBlock"
  shows "runSessionHandler api key handler (h, m) = Inl WouldBlock"
  by (rule AcquireShared_idle [OF assms(1)])
    (use assms(2-4) in \<open>simp add: runSessionHandler_def shared_def mgr_lock_def set_mgr_lock_def\<close>)

end

sublocale srw_laws \<subseteq> manager_kv:
  kv_store "mgr_ok api" "\<lambda>st. map_of (sm_kv_map (snd st))" "sm_put api" "sm_get api" "sm_remove api"
proof unfold_locales
  fix st :: "'l mgr" and k v
  assume "mgr_ok api st"
  moreover obtain h m where "st = (h, m)" by (cases st)
  ultimately have ok: "mgr_ok api (h, m)" and st: "st = (h, m)" by simp_all
  from ok have map: "smap_ok (sm_kv_map m)" "idle api (sm_lock m)" by (simp_all add: mgr_ok_def)
  show "\<exists>s'. sm_put api k v st = Inr (True, s') \<and> mgr_ok api s' \<and>
      map_of (sm_kv_map (snd s')) = (map_of (sm_kv_map (snd st)))(k \<mapsto> v)"
    using ok map by (simp add: st sm_put_eq mgr_ok_def smap.find_put smap.ok_put)
  show "sm_get api k st =
      Inr (case map_of (sm_kv_map (snd st)) k of None \<Rightarrow> (False, 0) | Some v \<Rightarrow> (True, v), st)"
    using map by (simp add: st sm_get_eq)
  show "\<exists>s'. sm_remove api k st = Inr (False, s') \<and> mgr_ok api s' \<and>
      map_of (sm_kv_map (snd s')) = (map_of (sm_kv_map (snd st)))(k := None)"
    using ok map
    by (auto simp: st sm_remove_eq mgr_ok_def smap.find_erase smap.ok_erase fun_eq_iff)
qed

section \<open>Any use of a new manager\<close>

datatype 'h mgr_op =
    AddSession string int Status Level Priority
  | RemoveSession string
  | RemoveAll
  | RunHandler string 'h
  | SetManagerStatus Status
  | Put string addr
  | RemoveKey string

fun manager_step ::
  "'l srw_api \<Rightarrow> (string \<Rightarrow> 'l mgr \<Rightarrow> 'l mgr res) mgr_op \<Rightarrow> 'l mgr \<Rightarrow> (bool \<times> 'l mgr) res" where
  "manager_step api (AddSession k n st l p) m = addSession api k n st l p m"
| "manager_step api (RemoveSession k) m = removeSession api k m"
| "manager_step api RemoveAll m = bindR (sm_removeAll api m) (\<lambda>(_, m'). Inr (True, m'))"
| "manager_step api (RunHandler k f) m = runSessionHandler api k f m"
| "manager_step api (SetManagerStatus x) m = bindR (sm_setStatus api x m) (\<lambda>(_, m'). Inr (True, m'))"
| "manager_step api (Put k v) m = sm_put api k v m"
| "manager_step api (RemoveKey k) m = sm_remove api k m"

context srw_laws
begin

lemma manager_step_no_sessions:
  assumes "idle api (sm_lock m)" and "sm_sessionMap m = []"
  shows "\<exists>r m'. manager_step api x (h, m) = Inr (r, h, m') \<and> idle api (sm_lock m') \<and> sm_sessionMap m' = [] \<and>
     (smap_ok (sm_kv_map m) \<longrightarrow> smap_ok (sm_kv_map m'))"
proof (cases x)
  case RemoveAll
  have "sm_removeAll api (h, m) = Inr ((), h, m\<lparr>sm_sessionMap := []\<rparr>)"
    unfolding sm_removeAll_def using assms by (auto intro!: mgr_exclusive)
  with assms RemoveAll show ?thesis by auto
next
  case (RemoveSession k)
  have "removeSession api k (h, m) = Inr (False, h, m)"
    unfolding removeSession_def using assms by (auto intro!: mgr_exclusive)
  with assms RemoveSession show ?thesis by auto
qed (use assms in \<open>auto simp: addSession_eq runSessionHandler_absent sm_setStatus_eq sm_put_eq sm_remove_eq
       smap.ok_put smap.ok_erase\<close>)

lemma manager_run_no_sessions:
  assumes "idle api (sm_lock m)" and "sm_sessionMap m = []"
  shows "\<exists>rs m'. runR (manager_step api) ops (h, m) = Inr (rs, h, m') \<and> sm_sessionMap m' = [] \<and>
     isSessionExsist api key (h, m') = Inr (False, h, m')"
  using assms
proof (induction ops arbitrary: m)
  case Nil
  then have "isSessionExsist api key (h, m) = Inr (False, h, m)"
    unfolding isSessionExsist_def by (auto intro!: mgr_shared)
  with Nil show ?case by simp
next
  case (Cons x xs)
  then show ?case using manager_step_no_sessions [OF Cons.prems, of x h] by fastforce
qed

end

section \<open>Properties\<close>

text \<open>
  C29. A session manager never holds a session: \<^verbatim>\<open>addSession\<close> inserts only when the key is
  already there, so after any sequence of calls on a new manager, handlers included, no call
  has added anything and no key exists.
\<close>

theorem manager_never_holds_a_session:
  assumes "srw_laws api"
  shows "\<exists>rs m'. runR (manager_step api) ops (h, SessionManager_create api) = Inr (rs, h, m') \<and>
     sm_sessionMap m' = [] \<and> isSessionExsist api key (h, m') = Inr (False, h, m')"
  by (rule srw_laws.manager_run_no_sessions [OF assms])
    (simp_all add: SessionManager_create_def idle_def SRWLock_init_def)

lemma manager_never_holds_a_session_witness:
  "\<exists>rs m'. runR (manager_step srw_ref)
      [AddSession ''a'' 10 STATUS_READY LEVEL_USER PRI_LOW] (empty_heap, SessionManager_create srw_ref)
        = Inr (rs, empty_heap, m') \<and>
     sm_sessionMap m' = [] \<and> isSessionExsist srw_ref ''a'' (empty_heap, m') = Inr (False, empty_heap, m')"
  by (rule manager_never_holds_a_session [OF srw_ref.srw_laws_axioms])

text \<open>
  C36. Removing on a well-formed manager: \<^verbatim>\<open>removeSession\<close> of a key that is there answers
  true, frees exactly what that session owns and keeps the manager well-formed; of a key that is
  not there it answers false and changes nothing. \<^verbatim>\<open>removeAll\<close> empties the map and frees what
  all sessions own.
\<close>

theorem manager_remove_sessions:
  assumes "srw_laws api" and "mgr_ok api (h, m)"
  shows "(case map_of (sm_sessionMap m) key of
       None \<Rightarrow> removeSession api key (h, m) = Inr (False, h, m)
     | Some s \<Rightarrow> (\<exists>h'. removeSession api key (h, m) =
           Inr (True, h', m\<lparr>sm_sessionMap := smap_erase key (sm_sessionMap m)\<rparr>) \<and>
         mgr_ok api (h', m\<lparr>sm_sessionMap := smap_erase key (sm_sessionMap m)\<rparr>) \<and>
         dom (blocks h') = dom (blocks h) - sess_owned s)) \<and>
     (\<exists>h'. sm_removeAll api (h, m) = Inr ((), h', m\<lparr>sm_sessionMap := []\<rparr>) \<and>
        mgr_ok api (h', m\<lparr>sm_sessionMap := []\<rparr>) \<and>
        dom (blocks h') = dom (blocks h) - (\<Union>e \<in> set (sm_sessionMap m). sess_owned (snd e)))"
  using srw_laws.removeSession_eq [OF assms] srw_laws.sm_removeAll_eq [OF assms] by blast

text \<open>A manager with one session in it, as its map would be had it been added.\<close>

lemma manager_remove_sessions_witness:
  "\<exists>h' m'. removeSession srw_ref ''a'' (empty_heap, (SessionManager_create srw_ref)
       \<lparr>sm_sessionMap := [(''a'', Session_create srw_ref ''a'' 3 STATUS_READY LEVEL_USER PRI_LOW)]\<rparr>) =
     Inr (True, h', m') \<and> sm_sessionMap m' = []"
proof -
  let ?s = "Session_create srw_ref ''a'' 3 STATUS_READY LEVEL_USER PRI_LOW"
  let ?m = "(SessionManager_create srw_ref)\<lparr>sm_sessionMap := [(''a'', ?s)]\<rparr>"
  have "mgr_ok srw_ref (empty_heap, ?m)"
    using Session_create_ok [of empty_heap srw_ref "''a''" 3 STATUS_READY LEVEL_USER PRI_LOW]
    by (simp add: mgr_ok_def sessions_ok_def SessionManager_create_def idle_def SRWLock_init_def smap_ok_def)
  from manager_remove_sessions [OF srw_ref.srw_laws_axioms this, of "''a''"] show ?thesis
    by (auto simp: SessionManager_create_def smap_erase_def)
qed

text \<open>
  A session handler that calls back into an exclusive method of the same manager, such as
  \<^verbatim>\<open>removeSession\<close> of its own session, never returns: the handler runs while the manager's
  lock is held shared.
\<close>

theorem handler_that_removes_deadlocks:
  assumes "srw_laws api" and "idle api (sm_lock m)" and "map_of (sm_sessionMap m) key \<noteq> None"
    and "sm_status m \<noteq> STATUS_HALT"
  shows "runSessionHandler api key
       (\<lambda>k st. bindR (removeSession api k st) (\<lambda>(_, st'). Inr st')) (h, m) = Inl WouldBlock"
  by (rule srw_laws.runSessionHandler_reentrant [OF assms])
    (simp add: removeSession_def exclusive_def mgr_lock_def)

lemma handler_that_removes_deadlocks_witness:
  "runSessionHandler srw_ref ''a'' (\<lambda>k st. bindR (removeSession srw_ref k st) (\<lambda>(_, st'). Inr st'))
     (empty_heap, (SessionManager_create srw_ref)
        \<lparr>sm_sessionMap := [(''a'', Session_create srw_ref ''a'' 3 STATUS_READY LEVEL_USER PRI_LOW)]\<rparr>) =
     Inl WouldBlock"
  by (rule handler_that_removes_deadlocks [OF srw_ref.srw_laws_axioms])
    (simp_all add: SessionManager_create_def idle_def SRWLock_init_def)

end
