(* ===== verification/Protocol.thy ===== *)
theory Protocol
  imports Prelude
begin

text \<open>
  The packet protocol of \<^verbatim>\<open>protocol.h\<close> and \<^verbatim>\<open>protocol.cpp\<close>: the part of \<^verbatim>\<open>std::regex\<close> the
  header pattern uses, the pattern itself, \<^verbatim>\<open>Packet::createHeader\<close> and
  \<^verbatim>\<open>Packet::matchHeader\<close>. A header is recognised exactly when it has the documented form,
  and what \<^verbatim>\<open>createHeader\<close> prints \<^verbatim>\<open>matchHeader\<close> reads back.
\<close>

section \<open>Regular expressions with groups\<close>

text \<open>
  The ECMAScript grammar of \<^verbatim>\<open>std::regex\<close>: \<open>Rep lo hi r\<close> is the greedy \<^verbatim>\<open>r{lo,hi}\<close>
  (\<^verbatim>\<open>r?\<close> is \<open>Rep 0 1 r\<close>), \<open>Star r\<close> is the greedy \<^verbatim>\<open>r*\<close>, an iteration of which
  has to consume something.
\<close>

datatype re =
    Lit string
  | Cls "char \<Rightarrow> bool"
  | Cat re re
  | Alt re re
  | Group nat re
  | Rep nat nat re
  | Star re

fun re_size :: "re \<Rightarrow> nat" where
  "re_size (Lit l) = 1"
| "re_size (Cls P) = 1"
| "re_size (Cat a b) = Suc (re_size a + re_size b)"
| "re_size (Alt a b) = Suc (re_size a + re_size b)"
| "re_size (Group n a) = Suc (re_size a)"
| "re_size (Rep lo hi a) = Suc (re_size a + hi)"
| "re_size (Star a) = Suc (re_size a)"

type_synonym captures = "nat \<rightharpoonup> string"

text \<open>
  All ways to match at the front of a string, in the order a backtracking matcher tries them:
  what is left over and the groups captured on the way.
\<close>

function matches :: "re \<Rightarrow> string \<Rightarrow> captures \<Rightarrow> (string \<times> captures) list" where
  "matches (Lit l) s c = (if take (length l) s = l then [(drop (length l) s, c)] else [])"
| "matches (Cls P) s c = (case s of [] \<Rightarrow> [] | x # t \<Rightarrow> if P x then [(t, c)] else [])"
| "matches (Cat a b) s c = concat (map (\<lambda>(t, d). matches b t d) (matches a s c))"
| "matches (Alt a b) s c = matches a s c @ matches b s c"
| "matches (Group n a) s c =
     map (\<lambda>(t, d). (t, d(n \<mapsto> take (length s - length t) s))) (matches a s c)"
| "matches (Rep lo hi a) s c =
     (case hi of
        0 \<Rightarrow> []
      | Suc hi' \<Rightarrow> concat (map (\<lambda>(t, d). matches (Rep (lo - 1) hi' a) t d) (matches a s c)))
     @ (if lo = 0 then [(s, c)] else [])"
| "matches (Star a) s c =
     concat (map (\<lambda>(t, d). if length t < length s then matches (Star a) t d else [])
       (matches a s c)) @ [(s, c)]"
  by pat_completeness auto
termination
  by (relation "measures [\<lambda>(r, s, c). re_size r, \<lambda>(r, s, c). length s]") auto

text \<open>\<^verbatim>\<open>std::regex_match\<close>: the first way that uses up the whole string.\<close>

definition regex_match :: "re \<Rightarrow> string \<Rightarrow> captures option" where
  "regex_match r s = map_option snd (find (\<lambda>e. fst e = []) (matches r s Map.empty))"

text \<open>\<^verbatim>\<open>result[n].str()\<close>: empty for a group that took no part.\<close>

definition group_str :: "captures \<Rightarrow> nat \<Rightarrow> string" where
  "group_str c n = (case c n of None \<Rightarrow> [] | Some w \<Rightarrow> w)"

text \<open>The character classes \<^verbatim>\<open>\s\<close>, \<^verbatim>\<open>\d\<close>, \<^verbatim>\<open>\w\<close> and \<^verbatim>\<open>.\<close>.\<close>

definition is_space :: "char \<Rightarrow> bool" where
  "is_space x \<longleftrightarrow> (of_char x :: nat) \<in> {9, 10, 11, 12, 13, 32}"

definition is_digit :: "char \<Rightarrow> bool" where
  "is_digit x \<longleftrightarrow> 48 \<le> (of_char x :: nat) \<and> (of_char x :: nat) \<le> 57"

definition is_word :: "char \<Rightarrow> bool" where
  "is_word x \<longleftrightarrow> is_digit x \<or> (65 \<le> (of_char x :: nat) \<and> (of_char x :: nat) \<le> 90) \<or>
     (97 \<le> (of_char x :: nat) \<and> (of_char x :: nat) \<le> 122) \<or> (of_char x :: nat) = 95"

definition is_dot :: "char \<Rightarrow> bool" where
  "is_dot x \<longleftrightarrow> (of_char x :: nat) \<notin> {10, 13}"

section \<open>Packets\<close>

definition space :: re where
  "space = Cls is_space"

fun cat :: "re list \<Rightarrow> re" where
  "cat [] = Lit []"
| "cat [r] = r"
| "cat (r # rs) = Cat r (cat rs)"

definition header_re :: re where
  "header_re = cat
     [Lit ''Operation:'', Group 2 (Rep 1 32 (Cls is_word)), space,
      Rep 0 1 (Group 3 (cat [Lit ''OperationStatus:'', Group 4 (Rep 1 32 (Cls is_word)), space])),
      Lit ''ContentLength:'', Group 5 (Rep 1 7 (Cls is_digit)), space,
      Lit ''TimeStamp:'', Group 6 (Rep 23 23 (Cls is_dot)), space,
      Rep 0 1 (Group 7 (cat [Lit ''InstanceName:'', Group 8 (Rep 1 32 (Cls is_word)), space])),
      Rep 0 1 (Group 9 (cat [Lit ''SessionID:'', Group 10 (Rep 16 16 (Cls is_word)), space])),
      space]"

definition pattern :: re where
  "pattern = Cat (Group 1 header_re) (Star (Group 11 (Alt (Cls is_dot) space)))"

record Packet =
  headLength :: int
  Operation :: string
  OperationStatus :: string
  ContentLength :: int
  TimeStamp :: string
  InstanceName :: string
  SessionID :: string

definition Packet_default :: Packet where
  "Packet_default = \<lparr>headLength = 0, Operation = [], OperationStatus = [], ContentLength = 0,
     TimeStamp = [], InstanceName = [], SessionID = []\<rparr>"

definition Packet_op :: "string \<Rightarrow> string \<Rightarrow> Packet" where
  "Packet_op op stamp = Packet_default\<lparr>Operation := op, TimeStamp := stamp\<rparr>"

definition Packet_data :: "string \<Rightarrow> int \<Rightarrow> string \<Rightarrow> addr \<Rightarrow> Packet" where
  "Packet_data op contLen stamp data =
     Packet_default\<lparr>Operation := op, ContentLength := contLen, TimeStamp := stamp\<rparr>"

text \<open>\<^verbatim>\<open>scanf("%d")\<close> on decimal digits.\<close>

definition scan_nat :: "string \<Rightarrow> nat" where
  "scan_nat w = foldl (\<lambda>n x. 10 * n + (of_char x - 48)) 0 w"

definition scan_int :: "string \<Rightarrow> int option" where
  "scan_int w =
     (let ds = takeWhile is_digit w in if ds = [] then None else Some (int (scan_nat ds)))"

definition newline :: char where
  "newline = CHR 0x0A"

definition createHeader :: "Packet \<Rightarrow> string \<times> Packet" where
  "createHeader p =
     (let ContLen = print_int (ContentLength p);
          header = ''Operation:'' @ Operation p @ [newline];
          header = (if 0 < length (OperationStatus p)
                    then header @ ''OperationStatus:'' @ OperationStatus p @ [newline] else header);
          header = header @ ''ContentLength:'' @ ContLen @ [newline];
          header = header @ ''TimeStamp:'' @ TimeStamp p @ [newline];
          header = (if 0 < length (InstanceName p)
                    then header @ ''InstanceName:'' @ InstanceName p @ [newline] else header);
          header = (if 0 < length (SessionID p)
                    then header @ ''SessionID:'' @ SessionID p @ [newline] else header);
          header = header @ [newline]
      in (header, p\<lparr>headLength := int (length header)\<rparr>))"

text \<open>
  \<open>data\<close> is what can be read behind the pointer, \<open>None\<close> the null pointer; building the
  string from more bytes than there are is out of bounds.
\<close>

definition matchHeader :: "string option \<Rightarrow> int \<Rightarrow> Packet \<Rightarrow> (bool \<times> Packet) res" where
  "matchHeader data len p =
     (case data of
        None \<Rightarrow> Inr (False, p)
      | Some d \<Rightarrow>
          if len \<le> 0 then Inr (False, p)
          else let len = (if len > 256 then 256 else len) in
            if int (length d) < len then Inl OutOfBounds
            else case regex_match pattern (take (nat len) d) of
                None \<Rightarrow> Inr (False, p)
              | Some result \<Rightarrow>
                  let p = p\<lparr>Operation := group_str result 2, OperationStatus := group_str result 4\<rparr>;
                      (ret, p) =
                        (case scan_int (group_str result 5) of
                           None \<Rightarrow> (False, p)
                         | Some n \<Rightarrow> (True, p\<lparr>ContentLength := n\<rparr>))
                  in Inr (ret, p\<lparr>TimeStamp := group_str result 6, InstanceName := group_str result 8,
                       SessionID := group_str result 10,
                       headLength := int (length (group_str result 1))\<rparr>))"

definition getHeaderLength :: "Packet \<Rightarrow> int" where
  "getHeaderLength p = headLength p"

definition getPacketLength :: "Packet \<Rightarrow> int" where
  "getPacketLength p = headLength p + ContentLength p"

section \<open>How the pattern matches\<close>

lemma class_disjoint:
  "is_digit x \<Longrightarrow> is_word x" "is_word x \<Longrightarrow> \<not> is_space x" "is_digit x \<Longrightarrow> \<not> is_space x"
  by (auto simp: is_word_def is_digit_def is_space_def)

lemma is_space_newline [simp]: "is_space newline"
  by (simp add: is_space_def newline_def)

lemma matches_Lit_append [simp]: "matches (Lit l) (l @ t) c = [(t, c)]"
  by simp

lemma matches_Rep_0: "matches (Rep lo 0 a) s c = (if lo = 0 then [(s, c)] else [])"
  by simp

lemma matches_Rep_Cls:
  "matches (Rep lo (Suc hi) (Cls P)) (y # s) c =
     (if P y then matches (Rep (lo - 1) hi (Cls P)) s c else []) @ (if lo = 0 then [(y # s, c)] else [])"
  by (simp add: matches.simps(6) [of lo "Suc hi"] del: matches.simps(6))

declare matches.simps(6) [simp del]

text \<open>A greedy run over a character class: the longest prefix first.\<close>

lemma matches_run:
  assumes "list_all P w" and "length w \<le> hi" and "\<not> P x"
  shows "matches (Rep lo hi (Cls P)) (w @ x # t) c =
     map (\<lambda>n. (drop n (w @ x # t), c)) (rev [lo..<Suc (length w)])"
  using assms(1,2)
proof (induction w arbitrary: lo hi)
  case Nil
  then show ?case using assms(3) by (simp add: matches.simps(6) split: nat.split)
next
  case (Cons y w)
  then obtain hi' where hi: "hi = Suc hi'" by (cases hi) auto
  have "map (\<lambda>n. (drop n (w @ x # t), c)) (rev [lo - 1..<Suc (length w)]) @ (if lo = 0 then [(y # w @ x # t, c)] else [])
     = map (\<lambda>n. (drop n (y # w @ x # t), c)) (rev [lo..<Suc (Suc (length w))])" (is "?l = ?r")
  proof (cases lo)
    case 0
    have "[0..<Suc (Suc (length w))] = 0 # map Suc [0..<Suc (length w)]"
      unfolding map_Suc_upt by (rule upt_conv_Cons) simp
    with 0 show ?thesis by (simp del: upt_Suc add: rev_map comp_def)
  next
    case (Suc k)
    have "[Suc k..<Suc (Suc (length w))] = map Suc [k..<Suc (length w)]"
      by (simp only: map_Suc_upt)
    with Suc show ?thesis by (simp del: upt_Suc add: rev_map comp_def)
  qed
  with Cons hi show ?case by (simp del: upt_Suc add: matches_Rep_Cls)
qed

lemma matches_exact:
  assumes "list_all P w" and "length w = n"
  shows "matches (Rep n n (Cls P)) (w @ t) c = [(t, c)]"
  using assms by (induction w arbitrary: n) (auto simp: matches_Rep_0 matches_Rep_Cls)

text \<open>A field of the header: a class run in a group, ended by white space.\<close>

lemma matches_field:
  assumes "list_all P w" and "lo \<le> length w" and "length w \<le> hi" and "is_space x"
    and "\<And>y. P y \<Longrightarrow> \<not> is_space y"
  shows "matches (Cat (Group g (Rep lo hi (Cls P))) (Cat space r)) (w @ x # t) c =
     matches r t (c(g \<mapsto> w))"
proof -
  let ?s = "w @ x # t"
  have "\<not> P x" using assms(4,5) by blast
  have run: "matches (Rep lo hi (Cls P)) ?s c =
      (x # t, c) # map (\<lambda>n. (drop n ?s, c)) (rev [lo..<length w])"
    using matches_run [OF assms(1,3) \<open>\<not> P x\<close>, of lo t c] assms(2) by simp
  have fail: "matches (Cat space r) (drop n ?s) d = []" if "n < length w" for n d
  proof -
    have "drop n ?s = w ! n # drop (Suc n) ?s"
      using that by (simp add: Cons_nth_drop_Suc nth_append flip: Cons_nth_drop_Suc)
    moreover have "\<not> is_space (w ! n)" using assms(1,5) that by (simp add: list_all_length)
    ultimately show ?thesis by (simp add: space_def)
  qed
  have first: "matches (Cat space r) (x # t) d = matches r t d" for d
    using assms(4) by (simp add: space_def)
  show ?thesis
    unfolding matches.simps(3) [of "Group g (Rep lo hi (Cls P))"] matches.simps(5) run
    by (simp add: first fail comp_def del: matches.simps(3) drop_append)
qed

lemma matches_field_exact:
  assumes "list_all P w" and "length w = n" and "is_space x"
  shows "matches (Cat (Group g (Rep n n (Cls P))) (Cat space r)) (w @ x # t) c =
     matches r t (c(g \<mapsto> w))"
  using matches_exact [OF assms(1,2), of "x # t" c] assms(2,3)
  by (simp add: space_def)

lemma matches_Lit_Cat: "matches (Cat (Lit l) r) (l @ t) c = matches r t c"
  by simp

lemma matches_opt:
  "matches (Cat (Rep 0 1 a) r) s c =
     concat (map (\<lambda>(t, d). matches r t d) (matches a s c)) @ matches r s c"
  by (simp add: split_def matches.simps(6))

section \<open>The documented header\<close>

text \<open>
  The header of \<^verbatim>\<open>protocol.h\<close> as text: labelled fields in a fixed order, an empty optional
  field left out, each field and the whole header closed by a white-space character.
\<close>

record header =
  f_op :: string
  f_st :: string
  f_cl :: string
  f_ts :: string
  f_inst :: string
  f_sid :: string
  f_sp :: string

definition opt_field :: "string \<Rightarrow> string \<Rightarrow> char \<Rightarrow> string" where
  "opt_field l v x = (if v = [] then [] else l @ v @ [x])"

definition header_text :: "header \<Rightarrow> string" where
  "header_text f =
     ''Operation:'' @ f_op f @ f_sp f ! 0 # opt_field ''OperationStatus:'' (f_st f) (f_sp f ! 1) @
     ''ContentLength:'' @ f_cl f @ f_sp f ! 2 # ''TimeStamp:'' @ f_ts f @ f_sp f ! 3 #
     opt_field ''InstanceName:'' (f_inst f) (f_sp f ! 4) @
     opt_field ''SessionID:'' (f_sid f) (f_sp f ! 5) @ [f_sp f ! 6]"

definition field_ok :: "(char \<Rightarrow> bool) \<Rightarrow> nat \<Rightarrow> nat \<Rightarrow> string \<Rightarrow> bool" where
  "field_ok P lo hi w \<longleftrightarrow> list_all P w \<and> lo \<le> length w \<and> length w \<le> hi"

definition header_ok :: "header \<Rightarrow> bool" where
  "header_ok f \<longleftrightarrow>
     field_ok is_word 1 32 (f_op f) \<and> (f_st f = [] \<or> field_ok is_word 1 32 (f_st f)) \<and>
     field_ok is_digit 1 7 (f_cl f) \<and> field_ok is_dot 23 23 (f_ts f) \<and>
     (f_inst f = [] \<or> field_ok is_word 1 32 (f_inst f)) \<and>
     (f_sid f = [] \<or> field_ok is_word 16 16 (f_sid f)) \<and>
     field_ok is_space 7 7 (f_sp f)"

subsection \<open>Every header matches, in one way\<close>

lemma matches_Cat_space: "matches (Cat a space) s c = matches (Cat a (Cat space (Lit []))) s c"
  by (auto simp: space_def split_def split: list.split intro!: arg_cong [where f = concat])

definition opt_re :: "nat \<Rightarrow> string \<Rightarrow> nat \<Rightarrow> nat \<Rightarrow> nat \<Rightarrow> re" where
  "opt_re g l g' lo hi = Rep 0 1 (Group g (Cat (Lit l) (Cat (Group g' (Rep lo hi (Cls is_word))) space)))"

lemma matches_opt_absent:
  "take (length l) s \<noteq> l \<Longrightarrow> matches (Cat (opt_re g l g' lo hi) r) s c = matches r s c"
  unfolding opt_re_def matches_opt by simp

lemma matches_opt_field:
  assumes "v = [] \<or> field_ok is_word lo hi v" and "is_space x"
    and "v = [] \<Longrightarrow> take (length l) t \<noteq> l"
    and "v \<noteq> [] \<Longrightarrow> matches r (l @ v @ x # t) c = []"
  shows "matches (Cat (opt_re g l g' lo hi) r) (opt_field l v x @ t) c =
     matches r t (if v = [] then c else c(g' \<mapsto> v, g \<mapsto> l @ v @ [x]))"
proof (cases "v = []")
  case True
  with assms(3) show ?thesis by (simp add: opt_field_def matches_opt_absent del: matches.simps)
next
  case False
  with assms(1) have v: "list_all is_word v" "lo \<le> length v" "length v \<le> hi"
    by (simp_all add: field_ok_def)
  have "matches (Cat (Lit l) (Cat (Group g' (Rep lo hi (Cls is_word))) space)) (l @ v @ x # t) c =
      [(t, c(g' \<mapsto> v))]"
    unfolding matches_Lit_Cat matches_Cat_space
    by (subst matches_field [OF v assms(2)]) (simp_all add: class_disjoint(2))
  then have "matches (Group g (Cat (Lit l) (Cat (Group g' (Rep lo hi (Cls is_word))) space)))
      (l @ v @ x # t) c = [(t, c(g' \<mapsto> v, g \<mapsto> l @ v @ [x]))]"
    by simp
  with False assms(4) show ?thesis
    unfolding opt_re_def matches_opt by (simp add: opt_field_def)
qed

lemma header_re_eq:
  "header_re =
     Cat (Lit ''Operation:'') (Cat (Group 2 (Rep 1 32 (Cls is_word))) (Cat space
     (Cat (opt_re 3 ''OperationStatus:'' 4 1 32)
     (Cat (Lit ''ContentLength:'') (Cat (Group 5 (Rep 1 7 (Cls is_digit))) (Cat space
     (Cat (Lit ''TimeStamp:'') (Cat (Group 6 (Rep 23 23 (Cls is_dot))) (Cat space
     (Cat (opt_re 7 ''InstanceName:'' 8 1 32)
     (Cat (opt_re 9 ''SessionID:'' 10 16 16) space)))))))))))"
  by (simp add: header_re_def opt_re_def)

lemma matches_Lit_fail: "take (length l) s \<noteq> l \<Longrightarrow> matches (Cat (Lit l) r) s c = []"
  by simp

lemma matches_header:
  assumes "header_ok f"
  shows "\<exists>d. matches header_re (header_text f @ t) Map.empty = [(t, d)] \<and>
     group_str d 2 = f_op f \<and> group_str d 4 = f_st f \<and> group_str d 5 = f_cl f \<and>
     group_str d 6 = f_ts f \<and> group_str d 8 = f_inst f \<and> group_str d 10 = f_sid f"
proof -
  have sp: "is_space (f_sp f ! i)" if "i < 7" for i
    using assms that by (simp add: header_ok_def field_ok_def list_all_length)
  have ok: "field_ok is_word 1 32 (f_op f)" "f_st f = [] \<or> field_ok is_word 1 32 (f_st f)"
    "field_ok is_digit 1 7 (f_cl f)" "field_ok is_dot 23 23 (f_ts f)"
    "f_inst f = [] \<or> field_ok is_word 1 32 (f_inst f)"
    "f_sid f = [] \<or> field_ok is_word 16 16 (f_sid f)"
    using assms by (simp_all add: header_ok_def)
  have sp6: "f_sp f ! 6 \<noteq> CHR ''I''" "f_sp f ! 6 \<noteq> CHR ''S''"
    using sp [of 6] by (auto simp: is_space_def)
  let ?t4 = "opt_field ''SessionID:'' (f_sid f) (f_sp f ! 5) @ f_sp f ! 6 # t"
  have sid: "matches (Cat (opt_re 9 ''SessionID:'' 10 16 16) space) ?t4 c =
      [(t, if f_sid f = [] then c else c(10 \<mapsto> f_sid f, 9 \<mapsto> ''SessionID:'' @ f_sid f @ [f_sp f ! 5]))]" for c
    by (subst matches_opt_field [OF ok(6) sp [of 5]]) (use sp [of 6] sp6 in \<open>simp_all add: space_def is_space_def\<close>)
  have inst: "matches (Cat (opt_re 7 ''InstanceName:'' 8 1 32) (Cat (opt_re 9 ''SessionID:'' 10 16 16) space))
      (opt_field ''InstanceName:'' (f_inst f) (f_sp f ! 4) @ ?t4) c =
      matches (Cat (opt_re 9 ''SessionID:'' 10 16 16) space) ?t4
       (if f_inst f = [] then c else c(8 \<mapsto> f_inst f, 7 \<mapsto> ''InstanceName:'' @ f_inst f @ [f_sp f ! 4]))" for c
    by (rule matches_opt_field [OF ok(5) sp])
      (use sp6 in \<open>simp_all add: opt_field_def matches_opt_absent space_def is_space_def del: matches.simps(3)\<close>)
  let ?t3 = "opt_field ''InstanceName:'' (f_inst f) (f_sp f ! 4) @ ?t4"
  let ?t2 = "''ContentLength:'' @ f_cl f @ f_sp f ! 2 # ''TimeStamp:'' @ f_ts f @ f_sp f ! 3 # ?t3"
  have cl_ts: "matches (Cat (Lit ''ContentLength:'') (Cat (Group 5 (Rep 1 7 (Cls is_digit))) (Cat space
      (Cat (Lit ''TimeStamp:'') (Cat (Group 6 (Rep 23 23 (Cls is_dot))) (Cat space r)))))) ?t2 c =
      matches r ?t3 (c(5 \<mapsto> f_cl f, 6 \<mapsto> f_ts f))" for r c
    unfolding matches_Lit_Cat
    by (subst matches_field [OF _ _ _ sp class_disjoint(3)], use ok(3) in \<open>simp_all add: field_ok_def
         del: matches.simps append_Cons append.simps\<close>)
      (simp only: matches_Lit_Cat, rule matches_field_exact, use ok(4) sp in \<open>simp_all add: field_ok_def\<close>)
  have st: "matches (Cat (opt_re 3 ''OperationStatus:'' 4 1 32) (Cat (Lit ''ContentLength:'') r))
      (opt_field ''OperationStatus:'' (f_st f) (f_sp f ! 1) @ ?t2) c =
      matches (Cat (Lit ''ContentLength:'') r) ?t2
       (if f_st f = [] then c else c(4 \<mapsto> f_st f, 3 \<mapsto> ''OperationStatus:'' @ f_st f @ [f_sp f ! 1]))" for r c
    by (rule matches_opt_field [OF ok(2) sp]) simp_all
  have op_eq: "matches (Cat (Lit ''Operation:'') (Cat (Group 2 (Rep 1 32 (Cls is_word))) (Cat space r)))
      (''Operation:'' @ f_op f @ f_sp f ! 0 # u) c = matches r u (c(2 \<mapsto> f_op f))" for r u c
    unfolding matches_Lit_Cat
    by (rule matches_field [OF _ _ _ sp class_disjoint(2)]) (use ok(1) in \<open>simp_all add: field_ok_def\<close>)
  have txt_eq: "header_text f @ t = ''Operation:'' @ f_op f @ f_sp f ! 0 #
      opt_field ''OperationStatus:'' (f_st f) (f_sp f ! 1) @ ?t2"
    by (simp add: header_text_def)
  show ?thesis
    unfolding header_re_eq txt_eq op_eq st cl_ts inst sid by (auto simp: group_str_def)
qed

subsection \<open>Nothing else matches\<close>

definition consumes :: "re \<Rightarrow> string \<Rightarrow> string \<Rightarrow> bool" where
  "consumes r s t \<longleftrightarrow> (\<exists>c d. (t, d) \<in> set (matches r s c))"

lemma consumes_Cat: "consumes (Cat a b) s t \<Longrightarrow> \<exists>u. consumes a s u \<and> consumes b u t"
  by (force simp: consumes_def)

lemma consumes_CatE:
  assumes "consumes (Cat a b) s t"
  obtains u where "consumes a s u" and "consumes b u t"
  using consumes_Cat [OF assms] by blast

lemma consumes_Lit: "consumes (Lit l) s t \<Longrightarrow> s = l @ t"
  by (auto simp: consumes_def split: if_splits) (metis append_take_drop_id)

lemma consumes_space: "consumes space s t \<Longrightarrow> \<exists>x. is_space x \<and> s = x # t"
  by (auto simp: consumes_def space_def split: list.splits if_splits)

lemma matches_Rep_sound:
  "(t, d) \<in> set (matches (Rep lo hi (Cls P)) s c) \<Longrightarrow>
     \<exists>w. s = w @ t \<and> list_all P w \<and> lo \<le> length w \<and> length w \<le> hi"
proof (induction hi arbitrary: lo s c)
  case 0
  then show ?case by (auto simp: matches_Rep_0 split: if_splits intro: exI [of _ "[]"])
next
  case (Suc hi)
  show ?case
  proof (cases "lo = 0 \<and> s = t")
    case False
    with Suc.prems obtain y s' where s: "s = y # s'" "P y"
      and "(t, d) \<in> set (matches (Rep (lo - 1) hi (Cls P)) s' c)"
      by (auto simp: matches.simps(6) [of lo "Suc hi"] split: list.splits if_splits)
    from Suc.IH [OF this(3)] obtain w where "s' = w @ t" "list_all P w" "lo - 1 \<le> length w" "length w \<le> hi"
      by blast
    with s show ?thesis by (intro exI [of _ "y # w"]) auto
  qed simp
qed

lemma consumes_Group_Rep:
  "consumes (Group g (Rep lo hi (Cls P))) s t \<Longrightarrow> \<exists>w. s = w @ t \<and> field_ok P lo hi w"
  by (auto simp: consumes_def field_ok_def dest!: matches_Rep_sound)

lemma consumes_opt_re:
  assumes "consumes (opt_re g l g' lo hi) s t" and "0 < lo"
  shows "\<exists>v x. (v = [] \<or> field_ok is_word lo hi v) \<and> is_space x \<and> s = opt_field l v x @ t"
proof (cases "s = t")
  case True
  then show ?thesis
    by (intro exI [of _ "[]"] exI [of _ newline]) (simp add: opt_field_def)
next
  case False
  have "consumes (Cat (Lit l) (Cat (Group g' (Rep lo hi (Cls is_word))) space)) s t"
    using assms(1) False unfolding consumes_def opt_re_def
    by (auto simp: matches.simps(6) [of 0] simp del: matches.simps(3) split: nat.splits)
  then obtain v x where v: "s = l @ v @ x # t" "field_ok is_word lo hi v" "is_space x"
    by (blast dest: consumes_Cat consumes_Lit consumes_Group_Rep consumes_space)
  moreover have "v \<noteq> []" using v(2) assms(2) by (auto simp: field_ok_def)
  ultimately show ?thesis by (intro exI [of _ v] exI [of _ x]) (simp add: opt_field_def)
qed

lemma consumes_header:
  assumes "consumes header_re s t"
  shows "\<exists>f. header_ok f \<and> s = header_text f @ t"
proof -
  obtain s1 s2 s3 s4 s5 s6 s7 s8 s9 s10 s11 s12 where
    c: "consumes (Lit ''Operation:'') s s1" "consumes (Group 2 (Rep 1 32 (Cls is_word))) s1 s2"
      "consumes space s2 s3" "consumes (opt_re 3 ''OperationStatus:'' 4 1 32) s3 s4"
      "consumes (Lit ''ContentLength:'') s4 s5" "consumes (Group 5 (Rep 1 7 (Cls is_digit))) s5 s6"
      "consumes space s6 s7" "consumes (Lit ''TimeStamp:'') s7 s8"
      "consumes (Group 6 (Rep 23 23 (Cls is_dot))) s8 s9" "consumes space s9 s10"
      "consumes (opt_re 7 ''InstanceName:'' 8 1 32) s10 s11"
      "consumes (opt_re 9 ''SessionID:'' 10 16 16) s11 s12" "consumes space s12 t"
    using assms unfolding header_re_eq by (elim consumes_CatE) (rule that; assumption)
  obtain x0 x2 x3 x6 where x: "is_space x0" "is_space x2" "is_space x3" "is_space x6"
    "s2 = x0 # s3" "s6 = x2 # s7" "s9 = x3 # s10" "s12 = x6 # t"
    using consumes_space [OF c(3)] consumes_space [OF c(7)] consumes_space [OF c(10)]
      consumes_space [OF c(13)] by blast
  obtain op cl ts where w: "field_ok is_word 1 32 op" "field_ok is_digit 1 7 cl" "field_ok is_dot 23 23 ts"
    "s1 = op @ s2" "s5 = cl @ s6" "s8 = ts @ s9"
    using consumes_Group_Rep [OF c(2)] consumes_Group_Rep [OF c(6)] consumes_Group_Rep [OF c(9)] by blast
  obtain st x1 where st: "st = [] \<or> field_ok is_word 1 32 st" "is_space x1"
    "s3 = opt_field ''OperationStatus:'' st x1 @ s4"
    using consumes_opt_re [OF c(4)] by auto
  obtain inst x4 where inst: "inst = [] \<or> field_ok is_word 1 32 inst" "is_space x4"
    "s10 = opt_field ''InstanceName:'' inst x4 @ s11"
    using consumes_opt_re [OF c(11)] by auto
  obtain sid x5 where sid: "sid = [] \<or> field_ok is_word 16 16 sid" "is_space x5"
    "s11 = opt_field ''SessionID:'' sid x5 @ s12"
    using consumes_opt_re [OF c(12)] by auto
  let ?f = "\<lparr>f_op = op, f_st = st, f_cl = cl, f_ts = ts, f_inst = inst, f_sid = sid,
      f_sp = [x0, x1, x2, x3, x4, x5, x6]\<rparr>"
  have "header_ok ?f"
    using x(1-4) w(1-3) st(1,2) inst(1,2) sid(1,2) unfolding header_ok_def by (simp add: field_ok_def)
  moreover have "s = header_text ?f @ t"
    using consumes_Lit [OF c(1)] consumes_Lit [OF c(5)] consumes_Lit [OF c(8)] x(5-8) w(4-6) st(3) inst(3) sid(3)
    by (simp add: header_text_def)
  ultimately show ?thesis by blast
qed

subsection \<open>The whole pattern\<close>

text \<open>Every character is matched by \<^verbatim>\<open>(.|\s)\<close>, so the tail of the pattern takes all that is left.\<close>

lemma matches_tail:
  "\<exists>d ys. matches (Star (Group 11 (Alt (Cls is_dot) space))) s c = ([], d) # ys \<and> (\<forall>n. n \<noteq> 11 \<longrightarrow> d n = c n)"
proof (induction s arbitrary: c)
  case Nil
  then show ?case by (simp add: space_def)
next
  case (Cons x s)
  have "is_dot x \<or> is_space x" by (auto simp: is_dot_def is_space_def)
  then obtain zs where zs: "matches (Group 11 (Alt (Cls is_dot) space)) (x # s) c = (s, c(11 \<mapsto> [x])) # zs"
    by (cases "is_dot x") (auto simp: space_def)
  obtain d ys where "matches (Star (Group 11 (Alt (Cls is_dot) space))) s (c(11 \<mapsto> [x])) = ([], d) # ys"
    "\<forall>n. n \<noteq> 11 \<longrightarrow> d n = (c(11 \<mapsto> [x])) n"
    using Cons [of "c(11 \<mapsto> [x])"] by blast
  then show ?case
    unfolding matches.simps(7) [of _ "x # s"] zs by (simp del: matches.simps)
qed

lemma regex_match_pattern:
  "header_ok f \<Longrightarrow> \<exists>d. regex_match pattern (header_text f @ t) = Some d \<and> group_str d 1 = header_text f \<and>
     group_str d 2 = f_op f \<and> group_str d 4 = f_st f \<and> group_str d 5 = f_cl f \<and>
     group_str d 6 = f_ts f \<and> group_str d 8 = f_inst f \<and> group_str d 10 = f_sid f"
proof -
  assume "header_ok f"
  from matches_header [OF this, of t] obtain d where d:
    "matches header_re (header_text f @ t) Map.empty = [(t, d)]"
    "group_str d 2 = f_op f" "group_str d 4 = f_st f" "group_str d 5 = f_cl f"
    "group_str d 6 = f_ts f" "group_str d 8 = f_inst f" "group_str d 10 = f_sid f" by blast
  obtain e ys where e: "matches (Star (Group 11 (Alt (Cls is_dot) space))) t (d(1 \<mapsto> header_text f)) = ([], e) # ys"
    "\<forall>n. n \<noteq> 11 \<longrightarrow> e n = (d(1 \<mapsto> header_text f)) n"
    using matches_tail by blast
  have "matches pattern (header_text f @ t) Map.empty = ([], e) # ys"
    unfolding pattern_def using d(1) e(1) by (simp del: matches.simps(7))
  with d e(2) show ?thesis by (simp add: regex_match_def group_str_def)
qed

lemma regex_match_pattern_sound:
  "regex_match pattern s = Some d \<Longrightarrow> \<exists>f t. header_ok f \<and> s = header_text f @ t"
proof -
  assume "regex_match pattern s = Some d"
  then obtain t where "consumes pattern s t"
    by (auto simp: regex_match_def consumes_def find_Some_iff) (metis nth_mem)
  then obtain u where "consumes (Group 1 header_re) s u"
    unfolding pattern_def by (blast dest: consumes_Cat)
  then have "consumes header_re s u" by (auto simp: consumes_def)
  then show ?thesis using consumes_header by blast
qed

section \<open>Decimal numbers\<close>

lemma is_digit_char [simp]: "d < 10 \<Longrightarrow> is_digit (digit_char d)"
  by (simp add: is_digit_def)

lemma print_nat_digits: "list_all is_digit (print_nat n)"
proof (induction n rule: print_nat.induct)
  case (1 n)
  then show ?case by (subst print_nat.simps) simp
qed

lemma scan_print_nat: "scan_nat (print_nat n) = n"
proof (induction n rule: print_nat.induct)
  case (1 n)
  then show ?case by (subst print_nat.simps) (simp add: scan_nat_def)
qed

lemma scan_nat_bound: "list_all is_digit w \<Longrightarrow> scan_nat w < 10 ^ length w"
proof (induction w rule: rev_induct)
  case Nil
  then show ?case by (simp add: scan_nat_def)
next
  case (snoc x w)
  then have "scan_nat w < 10 ^ length w" and x: "of_char x - 48 \<le> (9 :: nat)"
    by (auto simp: is_digit_def)
  then have "10 * scan_nat w + 10 \<le> 10 * 10 ^ length w" by simp
  with x show ?case by (simp add: scan_nat_def)
qed

lemma scan_int_digits:
  assumes "field_ok is_digit 1 7 w"
  shows "scan_int w = Some (int (scan_nat w))"
proof -
  have "takeWhile is_digit w = w" using assms by (simp add: field_ok_def list_all_iff)
  with assms show ?thesis by (auto simp: scan_int_def field_ok_def Let_def simp del: takeWhile_eq_all_conv)
qed

section \<open>Reading a header\<close>

text \<open>The packet a header describes, and the bytes \<^verbatim>\<open>matchHeader\<close> looks at.\<close>

definition packet_of :: "header \<Rightarrow> Packet" where
  "packet_of f =
     \<lparr>headLength = int (length (header_text f)), Operation = f_op f, OperationStatus = f_st f,
      ContentLength = int (scan_nat (f_cl f)), TimeStamp = f_ts f, InstanceName = f_inst f,
      SessionID = f_sid f\<rparr>"

definition window :: "string \<Rightarrow> int \<Rightarrow> string" where
  "window d len = take (nat (min len 256)) d"

lemma matchHeader_header:
  assumes "0 < len" and "len \<le> int (length d)" and "header_ok f" and "window d len = header_text f @ t"
  shows "matchHeader (Some d) len p = Inr (True, packet_of f)"
proof -
  obtain r where "regex_match pattern (window d len) = Some r" "group_str r 1 = header_text f"
    "group_str r 2 = f_op f" "group_str r 4 = f_st f" "group_str r 5 = f_cl f"
    "group_str r 6 = f_ts f" "group_str r 8 = f_inst f" "group_str r 10 = f_sid f"
    using regex_match_pattern [OF assms(3), of t] unfolding assms(4) by blast
  moreover have "(if len > 256 then 256 else len) = min len 256" by simp
  moreover have "scan_int (f_cl f) = Some (int (scan_nat (f_cl f)))"
    using assms(3) by (intro scan_int_digits) (simp add: header_ok_def)
  ultimately show ?thesis
    using assms(1,2) unfolding matchHeader_def window_def by (simp add: Let_def packet_of_def)
qed

lemma matchHeader_no_header:
  assumes "0 < len" and "len \<le> int (length d)" and "\<nexists>f t. header_ok f \<and> window d len = header_text f @ t"
  shows "matchHeader (Some d) len p = Inr (False, p)"
proof -
  have "regex_match pattern (window d len) = None"
    using regex_match_pattern_sound assms(3) by (cases "regex_match pattern (window d len)") auto
  moreover have "(if len > 256 then 256 else len) = min len 256" by simp
  ultimately show ?thesis
    using assms(1,2) unfolding matchHeader_def window_def by (simp add: Let_def)
qed

lemma matchHeader_true:
  assumes "matchHeader (Some d) len p = Inr (True, q)"
  shows "\<exists>f t. header_ok f \<and> window d len = header_text f @ t \<and> q = packet_of f"
proof -
  have len: "0 < len" "min len 256 \<le> int (length d)"
    using assms by (auto simp: matchHeader_def Let_def split: if_splits)
  have w: "window d len = window d (min len 256)" by (simp add: window_def)
  have eq: "matchHeader (Some d) len p = matchHeader (Some d) (min len 256) p"
    using len(1) by (simp add: matchHeader_def Let_def)
  show ?thesis
  proof (cases "\<exists>f t. header_ok f \<and> window d (min len 256) = header_text f @ t")
    case True
    then obtain f t where f: "header_ok f" "window d (min len 256) = header_text f @ t" by blast
    have "matchHeader (Some d) (min len 256) p = Inr (True, packet_of f)"
      by (rule matchHeader_header [OF _ len(2) f]) (use len in simp)
    with f assms eq w show ?thesis by auto
  next
    case False
    have "matchHeader (Some d) (min len 256) p = Inr (False, p)"
      by (rule matchHeader_no_header [OF _ len(2) False]) (use len in simp)
    with assms eq show ?thesis by simp
  qed
qed

lemma header_text_length:
  assumes "header_ok f"
  shows "63 \<le> length (header_text f) \<and> length (header_text f) \<le> 222"
  using assms by (auto simp: header_ok_def field_ok_def header_text_def opt_field_def)

section \<open>Printing a header\<close>

text \<open>The fields a packet may have for its header to be within the protocol.\<close>

definition packet_ok :: "Packet \<Rightarrow> bool" where
  "packet_ok p \<longleftrightarrow>
     field_ok is_word 1 32 (Operation p) \<and> field_ok is_word 0 32 (OperationStatus p) \<and>
     0 \<le> ContentLength p \<and> ContentLength p < 10 ^ 7 \<and> field_ok is_dot 23 23 (TimeStamp p) \<and>
     field_ok is_word 0 32 (InstanceName p) \<and>
     (SessionID p = [] \<or> field_ok is_word 16 16 (SessionID p))"

definition header_of :: "Packet \<Rightarrow> header" where
  "header_of p =
     \<lparr>f_op = Operation p, f_st = OperationStatus p, f_cl = print_int (ContentLength p),
      f_ts = TimeStamp p, f_inst = InstanceName p, f_sid = SessionID p, f_sp = replicate 7 newline\<rparr>"

lemma createHeader_text:
  "createHeader p = (header_text (header_of p), p\<lparr>headLength := int (length (header_text (header_of p)))\<rparr>)"
  by (simp add: createHeader_def header_text_def header_of_def opt_field_def Let_def numeral_nat)

lemma header_of_ok:
  assumes "packet_ok p"
  shows "header_ok (header_of p)"
proof -
  have "print_int (ContentLength p) = print_nat (nat (ContentLength p))"
    using assms by (simp add: packet_ok_def print_int_def)
  moreover have "nat (ContentLength p) < 10 ^ 7" using assms by (auto simp: packet_ok_def nat_less_iff)
  ultimately have "field_ok is_digit 1 7 (print_int (ContentLength p))"
    using print_nat_digits print_nat_length [of "nat (ContentLength p)" 7] by (simp add: field_ok_def)
  with assms show ?thesis
    unfolding packet_ok_def header_ok_def header_of_def
    by (auto simp: field_ok_def list_all_iff Suc_le_eq)
qed

lemma packet_of_header_of:
  assumes "packet_ok p"
  shows "packet_of (header_of p) = p\<lparr>headLength := int (length (header_text (header_of p)))\<rparr>"
  using assms by (simp add: packet_of_def header_of_def packet_ok_def print_int_def scan_print_nat)

section \<open>Properties\<close>


definition example_packet :: Packet where
  "example_packet = \<lparr>headLength = 0, Operation = ''NULL'', OperationStatus = [], ContentLength = 0,
     TimeStamp = ''2016/08/29 12:00:00:000'', InstanceName = ''Server'', SessionID = ''AAAABBBBCCCCDDDD''\<rparr>"

lemma example_packet_ok: "packet_ok example_packet"
  by code_simp


text \<open>
  C3. Round trip: a packet within the protocol's field limits is read back, field for field and
  with its header length, from the header \<^verbatim>\<open>createHeader\<close> printed for it, whatever content
  follows the header and whatever packet reads it; the header always fits the 256 bytes
  \<^verbatim>\<open>matchHeader\<close> looks at.
\<close>

theorem createHeader_matchHeader:
  assumes "packet_ok p" and "createHeader p = (hdr, p')"
  shows "matchHeader (Some (hdr @ body)) (int (length (hdr @ body))) q = Inr (True, p')"
proof -
  have hdr: "hdr = header_text (header_of p)" "p' = packet_of (header_of p)"
    using assms(2) packet_of_header_of [OF assms(1)] by (auto simp: createHeader_text)
  have ok: "header_ok (header_of p)" by (rule header_of_ok [OF assms(1)])
  have len: "length hdr \<le> 256" "0 < length hdr" using header_text_length [OF ok] hdr(1) by auto
  then have "window (hdr @ body) (int (length (hdr @ body))) = hdr @ take (min (length hdr + length body) 256 - length hdr) body"
    by (simp add: window_def nat_mono_iff min_def)
  then show ?thesis
    unfolding hdr(2) by (intro matchHeader_header [OF _ _ ok]) (use len hdr(1) in \<open>auto simp: add_pos_nonneg\<close>)
qed

lemma createHeader_matchHeader_witness:
  "matchHeader (Some (fst (createHeader example_packet) @ ''body'')) 117 Packet_default =
     Inr (True, snd (createHeader example_packet))"
proof -
  have "length (fst (createHeader example_packet)) = 113" by code_simp
  then show ?thesis
    using createHeader_matchHeader [OF example_packet_ok prod.collapse [symmetric], of "''body''" Packet_default]
    by simp
qed

text \<open>
  C33. Bounds of an accepted header: its length is between 63 and 222 and never more than the bytes
  given, the content length is between 0 and 9999999, and the packet length is their sum.
\<close>

theorem matchHeader_bounds:
  assumes "matchHeader (Some d) len p = Inr (True, q)"
  shows "63 \<le> getHeaderLength q \<and> getHeaderLength q \<le> 222 \<and> getHeaderLength q \<le> len \<and>
     0 \<le> ContentLength q \<and> ContentLength q \<le> 9999999 \<and>
     getPacketLength q = getHeaderLength q + ContentLength q"
proof -
  obtain f t where f: "header_ok f" "window d len = header_text f @ t" "q = packet_of f"
    using matchHeader_true [OF assms] by blast
  have "length (header_text f) \<le> length (window d len)" by (simp add: f(2))
  then have "int (length (header_text f)) \<le> len"
    using header_text_length [OF f(1)] by (auto simp: window_def)
  moreover have "scan_nat (f_cl f) < 10 ^ 7"
  proof -
    have "scan_nat (f_cl f) < 10 ^ length (f_cl f)"
      using f(1) by (intro scan_nat_bound) (simp add: header_ok_def field_ok_def)
    also have "\<dots> \<le> (10 :: nat) ^ 7"
      using f(1) by (intro power_increasing) (simp_all add: header_ok_def field_ok_def)
    finally show ?thesis .
  qed
  ultimately show ?thesis
    using header_text_length [OF f(1)]
    by (simp add: f(3) packet_of_def getHeaderLength_def getPacketLength_def)
qed

lemma matchHeader_bounds_witness:
  "63 \<le> getHeaderLength (packet_of (header_of example_packet)) \<and>
     ContentLength (packet_of (header_of example_packet)) \<le> 9999999"
proof -
  have len: "length (header_text (header_of example_packet)) = 113" by code_simp
  have "matchHeader (Some (header_text (header_of example_packet))) 113 Packet_default =
     Inr (True, packet_of (header_of example_packet))"
    by (rule matchHeader_header [where t = "[]"])
      (simp_all add: len window_def header_of_ok [OF example_packet_ok])
  from matchHeader_bounds [OF this] show ?thesis by blast
qed

text \<open>
  The documented limit of 0x800100 bytes per packet is not enforced: the header of a packet
  that announces 9999999 bytes of content, more than the documented 8388608, is accepted and
  the packet length computed from it is beyond the limit.
\<close>

theorem matchHeader_accepts_oversized:
  "let p = example_packet\<lparr>ContentLength := 9999999\<rparr>; hdr = fst (createHeader p) in
     \<exists>q. matchHeader (Some hdr) (int (length hdr)) Packet_default = Inr (True, q) \<and>
       ContentLength q > 8388608 \<and> getPacketLength q > 0x800100"
proof -
  let ?p = "example_packet\<lparr>ContentLength := 9999999\<rparr>"
  have ok: "packet_ok ?p" using example_packet_ok by (simp add: packet_ok_def)
  have "length (print_int 9999999) = 7" by (simp add: print_int_def print_nat.simps)
  then have len: "length (header_text (header_of ?p)) = 119"
    by (simp add: header_text_def header_of_def opt_field_def example_packet_def)
  have "matchHeader (Some (header_text (header_of ?p))) 119 Packet_default = Inr (True, packet_of (header_of ?p))"
    by (rule matchHeader_header [where t = "[]"]) (simp_all add: len window_def header_of_ok [OF ok])
  moreover have "packet_of (header_of ?p) = ?p\<lparr>headLength := 119\<rparr>"
    using packet_of_header_of [OF ok] by (simp only: len) simp
  ultimately show ?thesis
    unfolding Let_def createHeader_text fst_conv len
    by (intro exI [of _ "?p\<lparr>headLength := 119\<rparr>"]) (simp add: getPacketLength_def)
qed

end
