(* ===== verification/Thread_Pool.thy ===== *)
theory Thread_Pool
  imports Prelude
begin

text \<open>
  The thread pool wrapper \<^verbatim>\<open>svrutil::ThreadPool\<close>: pointers to the objects it created last and the calls
  it makes on them. The answers of the operating system are arguments.
\<close>

section \<open>State and methods\<close>

text \<open>
  A pointer to a work, wait or timer object: \<open>None\<close> as long as it was never set. \<open>tp_objects\<close>
  counts the objects created, \<open>tp_log\<close> records the calls made on them.
\<close>

datatype tp_call =
    SubmitThreadpoolWork nat
  | SetThreadpoolWait nat nat nat
  | SetThreadpoolTimer nat int nat nat
  | CloseThreadpoolCleanupGroupMembers
  | CloseThreadpoolCleanupGroup
  | DestroyThreadpoolEnvironment
  | CloseThreadpool

record ThreadPool =
  ThreadMinimum :: int
  ThreadMaximum :: int
  ptpWork :: "nat option"
  ptpWait :: "nat option"
  ptpTimer :: "nat option"
  tp_objects :: nat
  tp_log :: "tp_call list"

definition SERVER_THREAD_POOL_ERROR :: int where
  "SERVER_THREAD_POOL_ERROR = 504"

definition ThreadPool_members :: "int \<Rightarrow> int \<Rightarrow> ThreadPool" where
  "ThreadPool_members min' max' =
     \<lparr>ThreadMinimum = min', ThreadMaximum = max', ptpWork = None, ptpWait = None, ptpTimer = None,
      tp_objects = 0, tp_log = []\<rparr>"

text \<open>The flags say whether the system could create the pool, the cleanup group or the object.\<close>

definition ThreadPool_create :: "bool \<Rightarrow> bool \<Rightarrow> int \<Rightarrow> int \<Rightarrow> ThreadPool res" where
  "ThreadPool_create pool grp min' max' =
     (if \<not> pool then Inl (ExitProcess SERVER_THREAD_POOL_ERROR)
      else if \<not> grp then Inl (ExitProcess SERVER_THREAD_POOL_ERROR)
      else Inr (ThreadPool_members min' max'))"

text \<open>The destructor releases the objects of the cleanup group, the group, the environment and the pool.\<close>

definition ThreadPool_destroy :: "ThreadPool \<Rightarrow> ThreadPool" where
  "ThreadPool_destroy tp =
     tp\<lparr>tp_log := tp_log tp @
       [CloseThreadpoolCleanupGroupMembers, CloseThreadpoolCleanupGroup, DestroyThreadpoolEnvironment, CloseThreadpool]\<rparr>"

definition createWorkThread :: "bool \<Rightarrow> ThreadPool \<Rightarrow> bool \<times> ThreadPool" where
  "createWorkThread ok tp =
     (let prev = ptpWork tp; tp = (if ok then tp\<lparr>ptpWork := Some (tp_objects tp), tp_objects := Suc (tp_objects tp)\<rparr>
                                   else tp\<lparr>ptpWork := None\<rparr>) in
      if \<not> ok then (False, tp\<lparr>ptpWork := prev\<rparr>) else (True, tp))"

definition submitWork :: "ThreadPool \<Rightarrow> ThreadPool res" where
  "submitWork tp = (case ptpWork tp of None \<Rightarrow> Inl Uninitialised | Some w \<Rightarrow> Inr (tp\<lparr>tp_log := tp_log tp @ [SubmitThreadpoolWork w]\<rparr>))"

definition createWaitThread :: "bool \<Rightarrow> ThreadPool \<Rightarrow> bool \<times> ThreadPool" where
  "createWaitThread ok tp =
     (let prev = ptpWait tp; tp = (if ok then tp\<lparr>ptpWait := Some (tp_objects tp), tp_objects := Suc (tp_objects tp)\<rparr>
                                   else tp\<lparr>ptpWait := None\<rparr>) in
      if \<not> ok then (False, tp\<lparr>ptpWait := prev\<rparr>) else (True, tp))"

definition setWait :: "nat \<Rightarrow> nat \<Rightarrow> ThreadPool \<Rightarrow> ThreadPool res" where
  "setWait h pf tp = (case ptpWait tp of None \<Rightarrow> Inl Uninitialised | Some w \<Rightarrow> Inr (tp\<lparr>tp_log := tp_log tp @ [SetThreadpoolWait w h pf]\<rparr>))"

definition createTimerThread :: "bool \<Rightarrow> ThreadPool \<Rightarrow> bool \<times> ThreadPool" where
  "createTimerThread ok tp =
     (let prev = ptpTimer tp; tp = (if ok then tp\<lparr>ptpTimer := Some (tp_objects tp), tp_objects := Suc (tp_objects tp)\<rparr>
                                    else tp\<lparr>ptpTimer := None\<rparr>) in
      if \<not> ok then (False, tp\<lparr>ptpTimer := prev\<rparr>) else (True, tp))"

definition setTimer :: "int \<Rightarrow> nat \<Rightarrow> nat \<Rightarrow> ThreadPool \<Rightarrow> ThreadPool res" where
  "setTimer due period len tp =
     (case ptpTimer tp of None \<Rightarrow> Inl Uninitialised | Some t \<Rightarrow> Inr (tp\<lparr>tp_log := tp_log tp @ [SetThreadpoolTimer t due period len]\<rparr>))"

text \<open>An I/O object belongs to the caller: the pool keeps no pointer to it.\<close>

definition createIOThread :: "bool \<Rightarrow> ThreadPool \<Rightarrow> nat option \<times> ThreadPool" where
  "createIOThread ok tp = (if ok then (Some (tp_objects tp), tp\<lparr>tp_objects := Suc (tp_objects tp)\<rparr>) else (None, tp))"

section \<open>Submitting work\<close>

text \<open>The loop that submits a work object several times, once for each thread that is to run it.\<close>

lemma submit_loop:
  "ptpWork tp = Some w \<Longrightarrow>
   foldR (\<lambda>_. submitWork) xs tp = Inr (tp\<lparr>tp_log := tp_log tp @ replicate (length xs) (SubmitThreadpoolWork w)\<rparr>)"
proof (induction xs arbitrary: tp)
  case (Cons x xs)
  then show ?case by (simp add: submitWork_def Cons.IH)
qed simp

text \<open>
  The thread pool submits the work object created last: after any sequence of attempts to create
  one, of which some failed, \<^verbatim>\<open>submitWork\<close> goes to the last one that succeeded, and a pool with no
  success passes an uninitialised pointer to the system.
\<close>

theorem submitWork_last_created:
  assumes "ThreadPool_create True True lo hi = Inr tp"
  shows "submitWork (fold (\<lambda>ok tp. snd (createWorkThread ok tp)) oks tp) =
     (if True \<in> set oks
      then Inr ((fold (\<lambda>ok tp. snd (createWorkThread ok tp)) oks tp)\<lparr>tp_log := [SubmitThreadpoolWork (length (filter id oks) - 1)]\<rparr>)
      else Inl Uninitialised)"
proof -
  have "ptpWork (fold (\<lambda>ok tp. snd (createWorkThread ok tp)) oks tp) =
      (if True \<in> set oks then Some (length (filter id oks) - 1) else None) \<and>
    tp_objects (fold (\<lambda>ok tp. snd (createWorkThread ok tp)) oks tp) = length (filter id oks) \<and>
    tp_log (fold (\<lambda>ok tp. snd (createWorkThread ok tp)) oks tp) = []"
    using assms by (induction oks rule: rev_induct) (auto simp: ThreadPool_create_def ThreadPool_members_def createWorkThread_def Let_def)
  then show ?thesis by (simp add: submitWork_def)
qed

lemma submitWork_last_created_witness:
  "\<exists>tp. ThreadPool_create True True 4 64 = Inr tp \<and> submitWork (fold (\<lambda>ok tp. snd (createWorkThread ok tp)) [False] tp) = Inl Uninitialised"
proof -
  obtain tp where tp: "ThreadPool_create True True 4 64 = Inr tp" by (simp add: ThreadPool_create_def)
  with submitWork_last_created [OF tp, of "[False]"] show ?thesis by simp
qed

end
