(* ===== verification/IOCP_Contexts.thy ===== *)
theory IOCP_Contexts
  imports Events Locks Protocol Thread_Pool
begin

text \<open>
  The ground of \<^verbatim>\<open>svr::IOCPModule\<close>: the structures \<^verbatim>\<open>IOCPContext\<close> (one overlapped operation
  with its buffer) and \<^verbatim>\<open>SocketContext\<close> (one connection with the operations that belong to
  it), the state the module works on, and the operating system's answers. Objects live in two
  stores indexed by address, next to the heap of character arrays; a deleted object is not in its
  store any more. Every call of the system takes its answer from a record of functions on the
  number of the call, so that a statement for all such records holds for everything the
  system may answer. A field the constructor leaves uninitialised (\<^verbatim>\<open>prevData\<close>) starts as null;
  it is only read under \<^verbatim>\<open>prevFlag\<close>.
\<close>

section \<open>State\<close>

datatype IOCPOperationSignal =
    SIG_NULL | SIG_ACCEPT | SIG_RECV | SIG_SEND | SIG_CLOSE_CONNECTION | SIG_EXIT

definition DEFAULT_BUF_SIZ :: int where
  "DEFAULT_BUF_SIZ = 0x2000"

definition DEFAULT_LISTEN_PORT :: int where
  "DEFAULT_LISTEN_PORT = 6001"

definition IOCP_CONTEXT_BUSIZE_ERROR :: int where
  "IOCP_CONTEXT_BUSIZE_ERROR = 301"

definition TIMER_MODULE_ERROR :: int where
  "TIMER_MODULE_ERROR = 502"

text \<open>\<open>None\<close> is \<^verbatim>\<open>INVALID_SOCKET\<close>; an address is an IPv4 number and a port.\<close>

type_synonym SOCKET = "nat option"
type_synonym SOCKADDR_IN = "nat \<times> nat"

record IOCPContext =
  ic_socket :: SOCKET
  ic_addr :: SOCKADDR_IN
  wsabuf_len :: nat
  wsabuf_buf :: addr
  ic_operation :: IOCPOperationSignal
  contextIndex :: int
  prevFlag :: bool
  bytesToRecv :: int
  prevData :: addr
  ic_packet :: Packet

record 'l SocketContext =
  sc_socket :: SOCKET
  sc_addr :: SOCKADDR_IN
  socketLock :: "'l SRWLock"
  sc_timer :: int
  IOCPContextMap :: "(int, addr) smap"
  sc_count :: int
  closeFlag :: bool

text \<open>
  What the operating system answers to its \<open>n\<close>-th call. An overlapped call that answers
  \<open>True\<close> was started or is pending.
\<close>

record os =
  WSAStartup :: "nat \<Rightarrow> (nat \<times> nat) option"
  WSASocket :: "nat \<Rightarrow> bool"
  os_bind :: "nat \<Rightarrow> bool"
  os_listen :: "nat \<Rightarrow> bool"
  os_connect :: "nat \<Rightarrow> bool"
  WSAIoctl :: "nat \<Rightarrow> bool"
  CreateIoCompletionPort :: "nat \<Rightarrow> bool"
  AcceptEx :: "nat \<Rightarrow> bool"
  WSARecv :: "nat \<Rightarrow> bool"
  WSASend :: "nat \<Rightarrow> bool"
  CreateThreadpoolWork :: "nat \<Rightarrow> bool"
  QueryPerformanceCounter :: "nat \<Rightarrow> int option"
  GetAcceptExSockAddrs :: "nat \<Rightarrow> SOCKADDR_IN"

text \<open>
  A call of a callback, as it was made: which callback (the module's own default one if none is
  set), for which connection, with which bytes behind the data pointer and with which length.
\<close>

datatype call = RecvCall addr addr "string option" int | SendCall addr addr "string option" int

text \<open>A completion packet: bytes transferred, the connection and the operation.\<close>

type_synonym completion = "int \<times> addr \<times> addr"

record 'l IOCPModule =
  hp :: heap
  ics :: "addr \<rightharpoonup> IOCPContext"
  scs :: "addr \<rightharpoonup> 'l SocketContext"
  next_obj :: addr
  tick :: nat
  next_sock :: nat
  open_socks :: "nat list"
  pending :: "addr list"
  port_queue :: "completion list"
  calls :: "call list"
  hIOCP :: bool
  socketContextMap :: "(addr, SOCKET) smap"
  bufferSize :: int
  io_port :: int
  io_lock :: "'l SRWLock"
  IOCPThreadPool :: ThreadPool
  io_status :: Status
  maxThreadNum :: nat
  maxStandbySocket :: nat
  connectionLiveTime :: int
  acceptTimeout :: int
  io_daemonThreadWakeInternal :: int
  connectNum :: int
  normallyClosedNum :: int
  errorNum :: int
  callbackInvokedNum :: int
  pRecvCallback :: addr
  pSendCallback :: addr

text \<open>The listening connection is a member of the module: it has the first address.\<close>

definition LISTEN :: addr where
  "LISTEN = 1"

section \<open>Access to objects\<close>

definition get_ic :: "addr \<Rightarrow> 'l IOCPModule \<Rightarrow> IOCPContext res" where
  "get_ic p s = (if p = 0 then Inl NullDeref else case ics s p of None \<Rightarrow> Inl UseAfterFree | Some ic \<Rightarrow> Inr ic)"

definition put_ic :: "addr \<Rightarrow> IOCPContext \<Rightarrow> 'l IOCPModule \<Rightarrow> 'l IOCPModule" where
  "put_ic p ic s = s\<lparr>ics := (ics s)(p \<mapsto> ic)\<rparr>"

definition get_sc :: "addr \<Rightarrow> 'l IOCPModule \<Rightarrow> 'l SocketContext res" where
  "get_sc p s = (if p = 0 then Inl NullDeref else case scs s p of None \<Rightarrow> Inl UseAfterFree | Some sc \<Rightarrow> Inr sc)"

definition put_sc :: "addr \<Rightarrow> 'l SocketContext \<Rightarrow> 'l IOCPModule \<Rightarrow> 'l IOCPModule" where
  "put_sc p sc s = s\<lparr>scs := (scs s)(p \<mapsto> sc)\<rparr>"

text \<open>One call of the system: its answer, and the call counter moved on.\<close>

definition ask :: "(nat \<Rightarrow> 'a) \<Rightarrow> 'l IOCPModule \<Rightarrow> 'a \<times> 'l IOCPModule" where
  "ask f s = (f (tick s), s\<lparr>tick := Suc (tick s)\<rparr>)"

definition new_socket :: "os \<Rightarrow> 'l IOCPModule \<Rightarrow> SOCKET \<times> 'l IOCPModule" where
  "new_socket os s =
     (case ask (WSASocket os) s of (ok, s) \<Rightarrow>
       if ok then (Some (next_sock s), s\<lparr>next_sock := Suc (next_sock s), open_socks := next_sock s # open_socks s\<rparr>)
       else (None, s))"

definition closesocket :: "SOCKET \<Rightarrow> 'l IOCPModule \<Rightarrow> 'l IOCPModule" where
  "closesocket k s = (case k of None \<Rightarrow> s | Some n \<Rightarrow> s\<lparr>open_socks := removeAll n (open_socks s)\<rparr>)"

text \<open>\<^verbatim>\<open>ZeroMemory\<close> on a whole character array.\<close>

definition zero_memory :: "addr \<Rightarrow> nat \<Rightarrow> heap \<Rightarrow> heap res" where
  "zero_memory p n = write_cells p 0 (replicate n (Some (CHR 0x00)))"

section \<open>IOCPContext\<close>

definition IOCPContext_create :: "int \<Rightarrow> 'l IOCPModule \<Rightarrow> (addr \<times> 'l IOCPModule) res" where
  "IOCPContext_create bufSize s =
     (if bufSize > 0 then
        let (buf, h) = new_array (nat bufSize) (hp s); p = next_obj s in
        bindR (zero_memory buf (nat bufSize) h) (\<lambda>h.
        Inr (p, (put_ic p
          \<lparr>ic_socket = None, ic_addr = (0, 0), wsabuf_len = nat bufSize, wsabuf_buf = buf,
           ic_operation = SIG_NULL, contextIndex = 0, prevFlag = False, bytesToRecv = 0, prevData = 0,
           ic_packet = Packet_default\<rparr> s)\<lparr>hp := h, next_obj := Suc p\<rparr>))
      else Inl (ExitProcess IOCP_CONTEXT_BUSIZE_ERROR))"

text \<open>\<^verbatim>\<open>delete pIC\<close>\<close>

definition IOCPContext_delete :: "addr \<Rightarrow> 'l IOCPModule \<Rightarrow> 'l IOCPModule res" where
  "IOCPContext_delete p s =
     bindR (get_ic p s) (\<lambda>ic.
     bindR (if prevFlag ic then delete_array (prevData ic) (hp s) else Inr (hp s)) (\<lambda>h.
     bindR (delete_array (wsabuf_buf ic) h) (\<lambda>h.
     Inr (s\<lparr>hp := h, ics := (ics s)(p := None)\<rparr>))))"

definition ResetBuffer :: "addr \<Rightarrow> 'l IOCPModule \<Rightarrow> 'l IOCPModule res" where
  "ResetBuffer p s =
     bindR (get_ic p s) (\<lambda>ic.
     bindR (zero_memory (wsabuf_buf ic) (wsabuf_len ic) (hp s)) (\<lambda>h. Inr (s\<lparr>hp := h\<rparr>)))"

section \<open>SocketContext\<close>

definition SocketContext_new :: "'l srw_api \<Rightarrow> 'l SocketContext" where
  "SocketContext_new api =
     \<lparr>sc_socket = None, sc_addr = (0, 0), socketLock = SRWLock_init api, sc_timer = 0,
      IOCPContextMap = [], sc_count = 0, closeFlag = False\<rparr>"

definition SocketContext_create :: "'l srw_api \<Rightarrow> 'l IOCPModule \<Rightarrow> addr \<times> 'l IOCPModule" where
  "SocketContext_create api s =
     (next_obj s, (put_sc (next_obj s) (SocketContext_new api) s)\<lparr>next_obj := Suc (next_obj s)\<rparr>)"

text \<open>\<^verbatim>\<open>delete pSC\<close>: the operations in the map are deleted, then the socket is closed.\<close>

definition SocketContext_delete :: "addr \<Rightarrow> 'l IOCPModule \<Rightarrow> 'l IOCPModule res" where
  "SocketContext_delete p s =
     bindR (get_sc p s) (\<lambda>sc.
     bindR (foldR (\<lambda>e. IOCPContext_delete (snd e)) (IOCPContextMap sc) s) (\<lambda>s.
     Inr ((closesocket (sc_socket sc) s)\<lparr>scs := (scs s)(p := None)\<rparr>)))"

definition timer_start :: "os \<Rightarrow> addr \<Rightarrow> 'l IOCPModule \<Rightarrow> 'l IOCPModule res" where
  "timer_start os p s =
     bindR (get_sc p s) (\<lambda>sc.
     case ask (QueryPerformanceCounter os) s of (t, s) \<Rightarrow>
       (case t of None \<Rightarrow> Inl (ExitProcess TIMER_MODULE_ERROR) | Some t \<Rightarrow> Inr (put_sc p (sc\<lparr>sc_timer := t\<rparr>) s)))"

text \<open>The body between acquiring and releasing a connection's lock.\<close>

definition with_socketLock ::
  "'l srw_api \<Rightarrow> addr \<Rightarrow> ('l SocketContext \<Rightarrow> 'l IOCPModule \<Rightarrow> (('a \<times> 'l SocketContext) \<times> 'l IOCPModule) res)
     \<Rightarrow> 'l IOCPModule \<Rightarrow> ('a \<times> 'l IOCPModule) res" where
  "with_socketLock api p body s =
     bindR (get_sc p s) (\<lambda>sc.
     bindR (AcquireExclusive api (socketLock sc)) (\<lambda>l.
     bindR (body (sc\<lparr>socketLock := l\<rparr>) s) (\<lambda>((r, sc), s).
     Inr (r, put_sc p (sc\<lparr>socketLock := ReleaseExclusive api (socketLock sc)\<rparr>) s))))"

definition createIOCPContext :: "'l srw_api \<Rightarrow> addr \<Rightarrow> int \<Rightarrow> 'l IOCPModule \<Rightarrow> (addr \<times> 'l IOCPModule) res" where
  "createIOCPContext api p bufSize s =
     bindR (IOCPContext_create bufSize s) (\<lambda>(pIC, s).
     with_socketLock api p (\<lambda>sc s.
       bindR (get_ic pIC s) (\<lambda>ic.
         let s = put_ic pIC (ic\<lparr>contextIndex := sc_count sc\<rparr>) s;
             sc = sc\<lparr>sc_count := sc_count sc + 1\<rparr>;
             sc = sc\<lparr>IOCPContextMap := snd (smap_insert (sc_count sc) pIC (IOCPContextMap sc))\<rparr>
         in Inr ((pIC, sc), s))) s)"

definition removeIOCPContext :: "'l srw_api \<Rightarrow> addr \<Rightarrow> int \<Rightarrow> 'l IOCPModule \<Rightarrow> (bool \<times> 'l IOCPModule) res" where
  "removeIOCPContext api p idx =
     with_socketLock api p (\<lambda>sc s.
       case map_of (IOCPContextMap sc) idx of
         Some pIC \<Rightarrow>
           bindR (IOCPContext_delete pIC s) (\<lambda>s.
             Inr ((True, sc\<lparr>IOCPContextMap := smap_erase idx (IOCPContextMap sc)\<rparr>), s))
       | None \<Rightarrow> Inr ((False, sc), s))"

section \<open>The module\<close>

text \<open>
  The two constructors. \<open>garbage\<close> is what the handle, which they leave uninitialised, happens
  to hold. The member \<^verbatim>\<open>IOCPThreadPool\<close> is constructed before; whether the system lets it be is up to
  the caller (\<open>ThreadPool_create\<close>).
\<close>

definition IOCPModule_start :: "'l srw_api \<Rightarrow> bool \<Rightarrow> int \<Rightarrow> int \<Rightarrow> nat \<Rightarrow> nat \<Rightarrow> 'l IOCPModule" where
  "IOCPModule_start api garbage bufSize portNum threads standby =
     \<lparr>hp = empty_heap, ics = Map.empty, scs = [LISTEN \<mapsto> SocketContext_new api], next_obj = Suc LISTEN,
      tick = 0, next_sock = 0, open_socks = [], pending = [], port_queue = [], calls = [],
      hIOCP = garbage, socketContextMap = [], bufferSize = bufSize, io_port = portNum,
      io_lock = SRWLock_init api, IOCPThreadPool = ThreadPool_members 4 64, io_status = STATUS_READY, maxThreadNum = threads, maxStandbySocket = standby,
      connectionLiveTime = 1200000, acceptTimeout = 5000, io_daemonThreadWakeInternal = 5000,
      connectNum = 0, normallyClosedNum = 0, errorNum = 0, callbackInvokedNum = 0,
      pRecvCallback = 0, pSendCallback = 0\<rparr>"

definition IOCPModule_default :: "'l srw_api \<Rightarrow> bool \<Rightarrow> 'l IOCPModule" where
  "IOCPModule_default api garbage = IOCPModule_start api garbage DEFAULT_BUF_SIZ DEFAULT_LISTEN_PORT 8 16"

definition IOCPModule_create :: "'l srw_api \<Rightarrow> bool \<Rightarrow> int \<Rightarrow> int \<Rightarrow> 'l IOCPModule" where
  "IOCPModule_create api garbage bufSize portNum = IOCPModule_start api garbage bufSize portNum 1 1"

definition setRecvCallback :: "addr \<Rightarrow> 'l IOCPModule \<Rightarrow> bool \<times> 'l IOCPModule" where
  "setRecvCallback cb s = (if cb \<noteq> 0 then (True, s\<lparr>pRecvCallback := cb\<rparr>) else (False, s))"

definition setSendCallback :: "addr \<Rightarrow> 'l IOCPModule \<Rightarrow> bool \<times> 'l IOCPModule" where
  "setSendCallback cb s = (if cb \<noteq> 0 then (True, s\<lparr>pSendCallback := cb\<rparr>) else (False, s))"

text \<open>The counters of connections and of errors.\<close>

definition io_counts :: "'l IOCPModule \<Rightarrow> int \<times> int \<times> int" where
  "io_counts s = (connectNum s, normallyClosedNum s, errorNum s)"

lemma io_counts_other [simp]:
  "io_counts (s\<lparr>hp := x0\<rparr>) = io_counts s"
  "io_counts (s\<lparr>ics := x1\<rparr>) = io_counts s"
  "io_counts (s\<lparr>scs := x2\<rparr>) = io_counts s"
  "io_counts (s\<lparr>next_obj := x3\<rparr>) = io_counts s"
  "io_counts (s\<lparr>tick := x4\<rparr>) = io_counts s"
  "io_counts (s\<lparr>next_sock := x5\<rparr>) = io_counts s"
  "io_counts (s\<lparr>open_socks := x6\<rparr>) = io_counts s"
  "io_counts (s\<lparr>pending := x7\<rparr>) = io_counts s"
  "io_counts (s\<lparr>port_queue := x8\<rparr>) = io_counts s"
  "io_counts (s\<lparr>calls := x9\<rparr>) = io_counts s"
  "io_counts (s\<lparr>socketContextMap := x10\<rparr>) = io_counts s"
  "io_counts (s\<lparr>io_lock := x11\<rparr>) = io_counts s"
  "io_counts (s\<lparr>callbackInvokedNum := x12\<rparr>) = io_counts s"
  by (simp_all add: io_counts_def)

section \<open>Ownership\<close>

text \<open>
  The arrays an operation owns, and the shape of the stores: every live operation owns its arrays
  alone; every entry of a connection's map points to a live operation whose index is one less
  than its key; no operation belongs to two entries.
\<close>

definition ic_owned :: "IOCPContext \<Rightarrow> addr set" where
  "ic_owned ic = insert (wsabuf_buf ic) (if prevFlag ic then {prevData ic} else {})"

definition ics_ok :: "'l IOCPModule \<Rightarrow> bool" where
  "ics_ok s \<longleftrightarrow>
     heap_ok (hp s) \<and> 0 < next_obj s \<and>
     (\<forall>p ic. ics s p = Some ic \<longrightarrow>
        p \<noteq> 0 \<and> p < next_obj s \<and> ic_owned ic \<subseteq> dom (blocks (hp s)) \<and>
        (prevFlag ic \<longrightarrow> prevData ic \<noteq> wsabuf_buf ic) \<and>
        0 < wsabuf_len ic \<and> (\<exists>b. blocks (hp s) (wsabuf_buf ic) = Some b \<and> length b = wsabuf_len ic)) \<and>
     (\<forall>p q ic jc. ics s p = Some ic \<longrightarrow> ics s q = Some jc \<longrightarrow> p \<noteq> q \<longrightarrow> ic_owned ic \<inter> ic_owned jc = {})"

definition sc_ok :: "'l srw_api \<Rightarrow> 'l IOCPModule \<Rightarrow> 'l SocketContext \<Rightarrow> bool" where
  "sc_ok api s sc \<longleftrightarrow>
     idle api (socketLock sc) \<and> smap_ok (IOCPContextMap sc) \<and> 0 \<le> sc_count sc \<and>
     (\<forall>k q. map_of (IOCPContextMap sc) k = Some q \<longrightarrow> 1 \<le> k \<and> k \<le> sc_count sc) \<and>
     (\<forall>k q. map_of (IOCPContextMap sc) k = Some q \<longrightarrow> (\<exists>ic. ics s q = Some ic \<and> contextIndex ic = k - 1))"

definition scs_ok :: "'l srw_api \<Rightarrow> 'l IOCPModule \<Rightarrow> bool" where
  "scs_ok api s \<longleftrightarrow>
     (\<forall>p sc. scs s p = Some sc \<longrightarrow> p \<noteq> 0 \<and> p < next_obj s \<and> sc_ok api s sc) \<and>
     (\<forall>p p' sc sc' k k' q. scs s p = Some sc \<longrightarrow> scs s p' = Some sc' \<longrightarrow>
        map_of (IOCPContextMap sc) k = Some q \<longrightarrow> map_of (IOCPContextMap sc') k' = Some q \<longrightarrow> p = p' \<and> k = k')"

definition io_ok :: "'l srw_api \<Rightarrow> 'l IOCPModule \<Rightarrow> bool" where
  "io_ok api s \<longleftrightarrow> ics_ok s \<and> scs_ok api s"

lemma ics_ok_next: "ics_ok s \<Longrightarrow> 0 < next_obj s"
  by (simp add: ics_ok_def)

lemma ics_okD:
  assumes "ics_ok s" and "ics s p = Some ic"
  shows "p \<noteq> 0" and "p < next_obj s" and "get_ic p s = Inr ic"
    and "\<exists>b. blocks (hp s) (wsabuf_buf ic) = Some b \<and> length b = wsabuf_len ic" and "wsabuf_buf ic \<noteq> 0"
    and "0 < wsabuf_len ic"
    and "prevFlag ic \<Longrightarrow> prevData ic \<noteq> 0 \<and> prevData ic \<noteq> wsabuf_buf ic \<and> (\<exists>b. blocks (hp s) (prevData ic) = Some b)"
proof -
  have h: "heap_ok (hp s)" using assms(1) by (simp add: ics_ok_def)
  have ok: "p \<noteq> 0 \<and> p < next_obj s \<and> ic_owned ic \<subseteq> dom (blocks (hp s)) \<and>
        (prevFlag ic \<longrightarrow> prevData ic \<noteq> wsabuf_buf ic) \<and>
        0 < wsabuf_len ic \<and> (\<exists>b. blocks (hp s) (wsabuf_buf ic) = Some b \<and> length b = wsabuf_len ic)"
    using assms unfolding ics_ok_def by blast
  then show "p \<noteq> 0" "p < next_obj s" "get_ic p s = Inr ic" "0 < wsabuf_len ic"
    "\<exists>b. blocks (hp s) (wsabuf_buf ic) = Some b \<and> length b = wsabuf_len ic" "wsabuf_buf ic \<noteq> 0"
    using assms(2) heap_ok_live [OF h] by (auto simp: get_ic_def)
  show "prevFlag ic \<Longrightarrow> prevData ic \<noteq> 0 \<and> prevData ic \<noteq> wsabuf_buf ic \<and> (\<exists>b. blocks (hp s) (prevData ic) = Some b)"
    using ok heap_ok_live [OF h] by (auto simp: ic_owned_def)
qed

lemma scs_okD:
  assumes "scs_ok api s" and "scs s p = Some sc"
  shows "p \<noteq> 0" and "p < next_obj s" and "get_sc p s = Inr sc" and "sc_ok api s sc"
  using assms by (auto simp: scs_ok_def get_sc_def)

text \<open>Deleting an operation frees exactly what it owns.\<close>

lemma IOCPContext_delete_ok:
  assumes "ics_ok s" and "ics s p = Some ic"
  shows "\<exists>h. IOCPContext_delete p s = Inr (s\<lparr>hp := h, ics := (ics s)(p := None)\<rparr>) \<and>
     ics_ok (s\<lparr>hp := h, ics := (ics s)(p := None)\<rparr>) \<and>
     dom (blocks h) = dom (blocks (hp s)) - ic_owned ic \<and>
     (\<forall>a. a \<notin> ic_owned ic \<longrightarrow> blocks h a = blocks (hp s) a)"
proof -
  note ic = ics_okD [OF assms]
  have hok: "heap_ok (hp s)" using assms(1) by (simp add: ics_ok_def)
  define h1 where "h1 = (if prevFlag ic then (hp s)\<lparr>blocks := (blocks (hp s))(prevData ic := None)\<rparr> else hp s)"
  define h where "h = h1\<lparr>blocks := (blocks h1)(wsabuf_buf ic := None)\<rparr>"
  have h1: "(if prevFlag ic then delete_array (prevData ic) (hp s) else Inr (hp s)) = Inr h1" "heap_ok h1"
    using ic(7) hok by (auto simp: h1_def delete_array_live heap_ok_delete)
  have "blocks h1 (wsabuf_buf ic) \<noteq> None" using ic(4,7) by (auto simp: h1_def)
  then have h: "delete_array (wsabuf_buf ic) h1 = Inr h" "heap_ok h"
    using ic(5) h1(2) by (auto simp: h_def delete_array_live heap_ok_delete)
  have bl: "blocks h a = (if a \<in> ic_owned ic then None else blocks (hp s) a)" for a
    by (auto simp: h_def h1_def ic_owned_def)
  have "ics_ok (s\<lparr>hp := h, ics := (ics s)(p := None)\<rparr>)"
    unfolding ics_ok_def
  proof (intro conjI allI impI)
    fix q jc assume q: "ics (s\<lparr>hp := h, ics := (ics s)(p := None)\<rparr>) q = Some jc"
    then have qp: "q \<noteq> p" "ics s q = Some jc" by (auto split: if_splits)
    note jc = ics_okD [OF assms(1) qp(2)]
    have dis: "ic_owned jc \<inter> ic_owned ic = {}" "ic_owned jc \<subseteq> dom (blocks (hp s))"
      using assms qp unfolding ics_ok_def by blast+
    show "q \<noteq> 0" "q < next_obj (s\<lparr>hp := h, ics := (ics s)(p := None)\<rparr>)" "0 < wsabuf_len jc"
      using jc by simp_all
    show "ic_owned jc \<subseteq> dom (blocks (hp (s\<lparr>hp := h, ics := (ics s)(p := None)\<rparr>)))"
      using dis bl by fastforce
    show "prevData jc \<noteq> wsabuf_buf jc" if "prevFlag jc" using jc(7) that by simp
    have "wsabuf_buf jc \<notin> ic_owned ic" using dis(1) by (auto simp: ic_owned_def)
    then show "\<exists>b. blocks (hp (s\<lparr>hp := h, ics := (ics s)(p := None)\<rparr>)) (wsabuf_buf jc) = Some b \<and> length b = wsabuf_len jc"
      using jc(4) bl by simp
  next
    fix a b ic jc
    assume "ics (s\<lparr>hp := h, ics := (ics s)(p := None)\<rparr>) a = Some ic" "ics (s\<lparr>hp := h, ics := (ics s)(p := None)\<rparr>) b = Some jc" "a \<noteq> b"
    then show "ic_owned ic \<inter> ic_owned jc = {}"
      using assms(1) unfolding ics_ok_def by (auto split: if_splits)
  qed (use h(2) ics_ok_next [OF assms(1)] in simp_all)
  moreover have "IOCPContext_delete p s = Inr (s\<lparr>hp := h, ics := (ics s)(p := None)\<rparr>)"
    unfolding IOCPContext_delete_def using ic(3) h1(1) h(1) by simp
  moreover have "dom (blocks h) = dom (blocks (hp s)) - ic_owned ic" using bl by (auto split: if_splits)
  ultimately show ?thesis using bl by auto
qed

text \<open>The fields that do not name arrays may change at will.\<close>

definition same_buffers :: "IOCPContext \<Rightarrow> IOCPContext \<Rightarrow> bool" where
  "same_buffers ic jc \<longleftrightarrow> wsabuf_len jc = wsabuf_len ic \<and> wsabuf_buf jc = wsabuf_buf ic \<and>
     prevFlag jc = prevFlag ic \<and> prevData jc = prevData ic"

lemma same_buffers_owned: "same_buffers ic jc \<Longrightarrow> ic_owned jc = ic_owned ic"
  by (simp add: same_buffers_def ic_owned_def)

lemma ics_ok_put_ic:
  assumes "ics_ok s" and "ics s q = Some ic" and "same_buffers ic jc"
  shows "ics_ok (put_ic q jc s)"
proof -
  have old: "\<exists>ic. ics s p = Some ic \<and> same_buffers ic kc" if "ics (put_ic q jc s) p = Some kc" for p kc
    using that assms(2,3) by (auto simp: put_ic_def same_buffers_def split: if_splits)
  show ?thesis
    unfolding ics_ok_def
  proof (intro conjI allI impI)
    show "heap_ok (hp (put_ic q jc s))" "0 < next_obj (put_ic q jc s)" using assms(1) by (simp_all add: ics_ok_def put_ic_def)
    fix p kc assume "ics (put_ic q jc s) p = Some kc"
    from old [OF this] obtain ic where ic: "ics s p = Some ic" "same_buffers ic kc" by blast
    have "ic_owned ic \<subseteq> dom (blocks (hp s))" using assms(1) ic(1) unfolding ics_ok_def by blast
    then show "ic_owned kc \<subseteq> dom (blocks (hp (put_ic q jc s)))"
      using same_buffers_owned [OF ic(2)] by (simp add: put_ic_def)
    show "p \<noteq> 0" "p < next_obj (put_ic q jc s)" "0 < wsabuf_len kc"
      "\<exists>b. blocks (hp (put_ic q jc s)) (wsabuf_buf kc) = Some b \<and> length b = wsabuf_len kc"
      using ics_okD [OF assms(1) ic(1)] ic(2) by (simp_all add: put_ic_def same_buffers_def)
    show "prevData kc \<noteq> wsabuf_buf kc" if "prevFlag kc"
      using ics_okD(7) [OF assms(1) ic(1)] ic(2) that by (simp add: same_buffers_def)
  next
    fix p p' kc kc' assume "ics (put_ic q jc s) p = Some kc" "ics (put_ic q jc s) p' = Some kc'" "p \<noteq> p'"
    with old [of p kc] old [of p' kc'] assms(1) same_buffers_owned show "ic_owned kc \<inter> ic_owned kc' = {}"
      unfolding ics_ok_def by metis
  qed
qed

lemma ics_ok_scs: "ics_ok (s\<lparr>scs := f\<rparr>) = ics_ok s"
  by (simp add: ics_ok_def)

text \<open>A new operation has a zeroed buffer of its own and shares nothing.\<close>

lemma zero_memory_ok:
  assumes "blocks h p = Some b" and "length b = n" and "p \<noteq> 0"
  shows "zero_memory p n h = Inr (h\<lparr>blocks := (blocks h)(p \<mapsto> replicate n (Some (CHR 0x00)))\<rparr>)"
  using assms by (simp add: zero_memory_def write_cells_def)

definition fresh_ic :: "nat \<Rightarrow> addr \<Rightarrow> IOCPContext" where
  "fresh_ic n buf =
     \<lparr>ic_socket = None, ic_addr = (0, 0), wsabuf_len = n, wsabuf_buf = buf,
      ic_operation = SIG_NULL, contextIndex = 0, prevFlag = False, bytesToRecv = 0, prevData = 0,
      ic_packet = Packet_default\<rparr>"

lemma IOCPContext_create_ok:
  assumes "ics_ok s" and "0 < n" and "0 < next_obj s"
  shows "\<exists>h. IOCPContext_create n s =
       Inr (next_obj s, (put_ic (next_obj s) (fresh_ic (nat n) (hp_next (hp s))) s)\<lparr>hp := h, next_obj := Suc (next_obj s)\<rparr>) \<and>
     ics_ok ((put_ic (next_obj s) (fresh_ic (nat n) (hp_next (hp s))) s)\<lparr>hp := h, next_obj := Suc (next_obj s)\<rparr>) \<and>
     blocks h = (blocks (hp s))(hp_next (hp s) \<mapsto> replicate (nat n) (Some (CHR 0x00))) \<and>
     blocks (hp s) (hp_next (hp s)) = None"
proof -
  have hok: "heap_ok (hp s)" using assms(1) by (simp add: ics_ok_def)
  obtain buf h0 where a: "new_array (nat n) (hp s) = (buf, h0)" by (metis prod.exhaust)
  have buf: "buf = hp_next (hp s)" "blocks (hp s) buf = None" "buf \<noteq> 0" "heap_ok h0"
    using a new_array_fresh [OF hok a] new_array_ok [OF hok a] by (auto simp: new_array_def)
  define h where "h = h0\<lparr>blocks := (blocks h0)(buf \<mapsto> replicate (nat n) (Some (CHR 0x00)))\<rparr>"
  have b0: "blocks h0 buf = Some (replicate (nat n) None)" using new_array_blocks [OF a] by simp
  have z: "zero_memory buf (nat n) h0 = Inr h" unfolding h_def by (rule zero_memory_ok [OF b0 _ buf(3)]) simp
  have hb: "blocks h = (blocks (hp s))(buf \<mapsto> replicate (nat n) (Some (CHR 0x00)))"
    using new_array_blocks [OF a] by (simp add: h_def fun_upd_def fun_eq_iff)
  have hh: "heap_ok h" unfolding h_def using buf(4) b0 by (rule heap_ok_update)
  let ?s = "(put_ic (next_obj s) (fresh_ic (nat n) buf) s)\<lparr>hp := h, next_obj := Suc (next_obj s)\<rparr>"
  have old: "p \<noteq> next_obj s" "buf \<notin> ic_owned ic" if "ics s p = Some ic" for p ic
  proof -
    show "p \<noteq> next_obj s" using ics_okD(2) [OF assms(1) that] by simp
    have "ic_owned ic \<subseteq> dom (blocks (hp s))" using assms(1) that unfolding ics_ok_def by blast
    then show "buf \<notin> ic_owned ic" using buf(2) by auto
  qed
  have new: "ic_owned (fresh_ic (nat n) buf) = {buf}" by (simp add: ic_owned_def fresh_ic_def)
  have "ics_ok ?s"
    unfolding ics_ok_def
  proof (intro conjI allI impI)
    fix q jc assume q: "ics ?s q = Some jc"
    show "q \<noteq> 0" "q < next_obj ?s" "0 < wsabuf_len jc" "ic_owned jc \<subseteq> dom (blocks (hp ?s))"
      "\<exists>b. blocks (hp ?s) (wsabuf_buf jc) = Some b \<and> length b = wsabuf_len jc"
    proof -
      have "q \<noteq> 0 \<and> q < next_obj ?s \<and> 0 < wsabuf_len jc \<and> ic_owned jc \<subseteq> dom (blocks (hp ?s)) \<and>
        (\<exists>b. blocks (hp ?s) (wsabuf_buf jc) = Some b \<and> length b = wsabuf_len jc)"
      proof (cases "q = next_obj s")
        case True
        then have "jc = fresh_ic (nat n) buf" using q by (simp add: put_ic_def)
        with True assms(2,3) hb new show ?thesis by (simp add: fresh_ic_def)
      next
        case False
        with q have jc: "ics s q = Some jc" by (simp add: put_ic_def)
        have "wsabuf_buf jc \<noteq> buf" using old(2) [OF jc] by (auto simp: ic_owned_def)
        moreover have "ic_owned jc \<subseteq> dom (blocks (hp s))" using assms(1) jc unfolding ics_ok_def by blast
        ultimately show ?thesis using ics_okD [OF assms(1) jc] hb by auto
      qed
      then show "q \<noteq> 0" "q < next_obj ?s" "0 < wsabuf_len jc" "ic_owned jc \<subseteq> dom (blocks (hp ?s))"
        "\<exists>b. blocks (hp ?s) (wsabuf_buf jc) = Some b \<and> length b = wsabuf_len jc" by blast+
    qed
    show "prevData jc \<noteq> wsabuf_buf jc" if "prevFlag jc"
      using q that ics_okD(7) [OF assms(1), of q jc] by (auto simp: put_ic_def fresh_ic_def split: if_splits)
  next
    fix p q ic jc assume "ics ?s p = Some ic" "ics ?s q = Some jc" "p \<noteq> q"
    moreover have "ic_owned ic \<inter> ic_owned jc = {}" if "ics s p = Some ic" "ics s q = Some jc" "p \<noteq> q"
      using assms(1) that unfolding ics_ok_def by blast
    ultimately show "ic_owned ic \<inter> ic_owned jc = {}"
      using old new by (auto simp: put_ic_def split: if_splits)
  qed (use hh in simp_all)
  moreover have "IOCPContext_create n s = Inr (next_obj s, ?s)"
    unfolding IOCPContext_create_def fresh_ic_def using assms(2) a z by (simp add: Let_def)
  ultimately show ?thesis using hb buf by auto
qed

text \<open>The connections see their operations only through live addresses and indices.\<close>

lemma scs_ok_mono:
  assumes "scs_ok api s" and "scs s' = scs s" and "next_obj s \<le> next_obj s'"
    and "\<And>q ic. ics s q = Some ic \<Longrightarrow> \<exists>jc. ics s' q = Some jc \<and> contextIndex jc = contextIndex ic"
  shows "scs_ok api s'"
proof -
  have "sc_ok api s' sc" if "sc_ok api s sc" for sc
    using that assms(4) unfolding sc_ok_def by metis
  moreover have "p < next_obj s'" if "p < next_obj s" for p using that assms(3) by simp
  ultimately show ?thesis using assms(1) unfolding scs_ok_def assms(2) by blast
qed

text \<open>The state after a new operation was put into a connection.\<close>

definition created :: "addr \<Rightarrow> int \<Rightarrow> 'l SocketContext \<Rightarrow> heap \<Rightarrow> 'l IOCPModule \<Rightarrow> 'l IOCPModule" where
  "created p n sc h s =
     (let q = next_obj s in
      s\<lparr>hp := h, next_obj := Suc q,
        ics := (ics s)(q \<mapsto> (fresh_ic (nat n) (hp_next (hp s)))\<lparr>contextIndex := sc_count sc\<rparr>),
        scs := (scs s)(p \<mapsto> sc\<lparr>sc_count := sc_count sc + 1,
          IOCPContextMap := smap_put (sc_count sc + 1) q (IOCPContextMap sc)\<rparr>)\<rparr>)"

context srw_laws
begin

lemma with_socketLock_eq:
  assumes "get_sc p s = Inr sc" and "idle api (socketLock sc)"
    and "\<And>l. body (sc\<lparr>socketLock := l\<rparr>) s = Inr ((r, sc'\<lparr>socketLock := l\<rparr>), s')"
    and "socketLock sc' = socketLock sc"
  shows "with_socketLock api p body s = Inr (r, put_sc p sc' s')"
  by (rule AcquireExclusive_idle [OF assms(2)])
    (use assms(1-3) assms(4) [symmetric] in \<open>simp add: with_socketLock_def\<close>)

lemma createIOCPContext_eq:
  assumes "io_ok api s" and "scs s p = Some sc" and "0 < n"
  shows "\<exists>h. createIOCPContext api p n s = Inr (next_obj s, created p n sc h s) \<and>
     ics_ok (created p n sc h s) \<and>
     blocks h = (blocks (hp s))(hp_next (hp s) \<mapsto> replicate (nat n) (Some (CHR 0x00))) \<and>
     blocks (hp s) (hp_next (hp s)) = None"
proof -
  have ok: "ics_ok s" "scs_ok api s" using assms(1) by (simp_all add: io_ok_def)
  note sc = scs_okD [OF ok(2) assms(2)]
  let ?q = "next_obj s" and ?ic = "fresh_ic (nat n) (hp_next (hp s))"
  from IOCPContext_create_ok [OF ok(1) assms(3)] sc(2) obtain h where h:
    "IOCPContext_create n s = Inr (?q, (put_ic ?q ?ic s)\<lparr>hp := h, next_obj := Suc ?q\<rparr>)"
    "ics_ok ((put_ic ?q ?ic s)\<lparr>hp := h, next_obj := Suc ?q\<rparr>)"
    "blocks h = (blocks (hp s))(hp_next (hp s) \<mapsto> replicate (nat n) (Some (CHR 0x00)))"
    "blocks (hp s) (hp_next (hp s)) = None" by auto
  let ?s1 = "(put_ic ?q ?ic s)\<lparr>hp := h, next_obj := Suc ?q\<rparr>"
  have fresh: "map_of (IOCPContextMap sc) (sc_count sc + 1) = None"
    using sc(4) by (fastforce simp: sc_ok_def intro: option.exhaust)
  have iq: "ics ?s1 ?q = Some ?ic" by (simp add: put_ic_def)
  have q: "get_ic ?q ?s1 = Inr ?ic" using ics_okD(3) [OF h(2), of ?q] by (simp add: put_ic_def)
  have "get_sc p ?s1 = Inr sc" using sc(1) assms(2) by (simp add: get_sc_def put_ic_def)
  moreover have "idle api (socketLock sc)" using sc(4) by (simp add: sc_ok_def)
  ultimately have "createIOCPContext api p n s = Inr (?q, put_sc p
      (sc\<lparr>sc_count := sc_count sc + 1, IOCPContextMap := smap_put (sc_count sc + 1) ?q (IOCPContextMap sc)\<rparr>)
      (put_ic ?q (?ic\<lparr>contextIndex := sc_count sc\<rparr>) ?s1))"
    unfolding createIOCPContext_def h(1) bindR_simps prod.case
    by (rule with_socketLock_eq) (simp_all add: q Let_def smap_insert_fresh [OF fresh])
  moreover have "put_sc p
      (sc\<lparr>sc_count := sc_count sc + 1, IOCPContextMap := smap_put (sc_count sc + 1) ?q (IOCPContextMap sc)\<rparr>)
      (put_ic ?q (?ic\<lparr>contextIndex := sc_count sc\<rparr>) ?s1) = created p n sc h s"
    by (simp add: created_def Let_def put_sc_def put_ic_def)
  moreover have "ics_ok (created p n sc h s)"
    using ics_ok_put_ic [OF h(2) iq, of "?ic\<lparr>contextIndex := sc_count sc\<rparr>"]
    by (simp add: same_buffers_def created_def Let_def put_ic_def ics_ok_scs)
  ultimately show ?thesis using h(3,4) by auto
qed

lemma created_ok:
  assumes "io_ok api s" and "scs s p = Some sc" and "ics_ok (created p n sc h s)"
  shows "io_ok api (created p n sc h s)"
proof -
  let ?s = "created p n sc h s" and ?q = "next_obj s"
  let ?sc = "sc\<lparr>sc_count := sc_count sc + 1, IOCPContextMap := smap_put (sc_count sc + 1) ?q (IOCPContextMap sc)\<rparr>"
  have ok: "ics_ok s" "scs_ok api s" using assms(1) by (simp_all add: io_ok_def)
  have sc: "sc_ok api s sc" by (rule scs_okD(4) [OF ok(2) assms(2)])
  have ics: "ics ?s = (ics s)(?q \<mapsto> (fresh_ic (nat n) (hp_next (hp s)))\<lparr>contextIndex := sc_count sc\<rparr>)"
    by (simp add: created_def Let_def)
  have scs: "scs ?s = (scs s)(p \<mapsto> ?sc)" "next_obj ?s = Suc ?q" by (simp_all add: created_def Let_def)
  have notq: "q \<noteq> ?q" if "scs s p' = Some sc'" "map_of (IOCPContextMap sc') k = Some q" for p' sc' k q
    using scs_okD(4) [OF ok(2) that(1)] that(2) ics_okD(2) [OF ok(1)] by (fastforce simp: sc_ok_def)
  have mono: "sc_ok api ?s sc'" if "scs s p' = Some sc'" for p' sc'
    using scs_okD(4) [OF ok(2) that] notq [OF that] unfolding sc_ok_def ics by (metis fun_upd_other)
  have map: "map_of (smap_put (sc_count sc + 1) ?q (IOCPContextMap sc)) = (map_of (IOCPContextMap sc))(sc_count sc + 1 \<mapsto> ?q)"
    using sc by (simp add: sc_ok_def smap.find_put)
  have "sc_ok api ?s ?sc"
    using mono [OF assms(2)] sc notq [OF assms(2)] unfolding sc_ok_def ics
    by (auto simp: smap.ok_put map)
  moreover have "p' \<noteq> 0 \<and> p' < Suc ?q" if "scs s p' = Some sc'" for p' sc'
    using scs_okD(1,2) [OF ok(2) that] by simp
  ultimately have each: "p' \<noteq> 0 \<and> p' < next_obj ?s \<and> sc_ok api ?s sc'" if "scs ?s p' = Some sc'" for p' sc'
    using that mono [of p' sc'] assms(2) unfolding scs by (auto split: if_splits)
  have uniq: "a = b \<and> k = k'" if "scs ?s a = Some x" "scs ?s b = Some y"
    "map_of (IOCPContextMap x) k = Some q" "map_of (IOCPContextMap y) k' = Some q" for a b x y k k' q
  proof -
    have ent: "(q = ?q \<and> a = p \<and> k = sc_count sc + 1) \<or> (\<exists>x0. scs s a = Some x0 \<and> map_of (IOCPContextMap x0) k = Some q)"
      if "scs ?s a = Some x" "map_of (IOCPContextMap x) k = Some q" for a x k
      using that assms(2) unfolding scs by (auto simp: map split: if_splits)
    have "a = b \<and> k = k'" if "scs s a = Some x" "scs s b = Some y"
      "map_of (IOCPContextMap x) k = Some q" "map_of (IOCPContextMap y) k' = Some q" for x y
      using ok(2) that unfolding scs_ok_def by blast
    with ent [OF that(1,3)] ent [OF that(2,4)] notq show ?thesis by metis
  qed
  have "scs_ok api ?s"
    unfolding scs_ok_def by (intro conjI allI impI) (use each uniq in blast)+
  then show ?thesis using assms(3) by (simp add: io_ok_def)
qed

lemma removeIOCPContext_absent:
  assumes "io_ok api s" and "scs s p = Some sc" and "map_of (IOCPContextMap sc) k = None"
  shows "removeIOCPContext api p k s = Inr (False, s)"
proof -
  have "scs_ok api s" using assms(1) by (simp add: io_ok_def)
  note sc = scs_okD [OF this assms(2)]
  then have "idle api (socketLock sc)" by (simp add: sc_ok_def)
  then have "removeIOCPContext api p k s = Inr (False, put_sc p sc s)"
    unfolding removeIOCPContext_def using sc(3) assms(3) by (intro with_socketLock_eq) simp_all
  then show ?thesis using assms(2) by (simp add: put_sc_def map_upd_triv)
qed

lemma removeIOCPContext_present:
  assumes "io_ok api s" and "scs s p = Some sc" and "map_of (IOCPContextMap sc) k = Some q" and "ics s q = Some ic"
  shows "\<exists>h. removeIOCPContext api p k s = Inr (True, s\<lparr>hp := h, ics := (ics s)(q := None),
       scs := (scs s)(p \<mapsto> sc\<lparr>IOCPContextMap := smap_erase k (IOCPContextMap sc)\<rparr>)\<rparr>) \<and>
     io_ok api (s\<lparr>hp := h, ics := (ics s)(q := None),
       scs := (scs s)(p \<mapsto> sc\<lparr>IOCPContextMap := smap_erase k (IOCPContextMap sc)\<rparr>)\<rparr>) \<and>
     dom (blocks h) = dom (blocks (hp s)) - ic_owned ic"
proof -
  have ok: "ics_ok s" "scs_ok api s" using assms(1) by (simp_all add: io_ok_def)
  note sc = scs_okD [OF ok(2) assms(2)]
  obtain h where h: "IOCPContext_delete q s = Inr (s\<lparr>hp := h, ics := (ics s)(q := None)\<rparr>)"
    "ics_ok (s\<lparr>hp := h, ics := (ics s)(q := None)\<rparr>)" "dom (blocks h) = dom (blocks (hp s)) - ic_owned ic"
    using IOCPContext_delete_ok [OF ok(1) assms(4)] by blast
  let ?sc = "sc\<lparr>IOCPContextMap := smap_erase k (IOCPContextMap sc)\<rparr>"
  let ?s = "s\<lparr>hp := h, ics := (ics s)(q := None), scs := (scs s)(p \<mapsto> ?sc)\<rparr>"
  have "idle api (socketLock sc)" using sc(4) by (simp add: sc_ok_def)
  then have "removeIOCPContext api p k s = Inr (True, put_sc p ?sc (s\<lparr>hp := h, ics := (ics s)(q := None)\<rparr>))"
    unfolding removeIOCPContext_def using sc(3) assms(3) h(1) by (intro with_socketLock_eq) simp_all
  then have run: "removeIOCPContext api p k s = Inr (True, ?s)" by (simp add: put_sc_def)
  have map: "map_of (smap_erase k (IOCPContextMap sc)) = (map_of (IOCPContextMap sc))(k := None)"
    by (rule map_of_smap_erase)
  have uniq: "a = b \<and> i = j" if "scs s a = Some x" "scs s b = Some y"
    "map_of (IOCPContextMap x) i = Some r" "map_of (IOCPContextMap y) j = Some r" for a b x y i j r
    using ok(2) that unfolding scs_ok_def by blast
  have ent: "\<exists>x0. scs s a = Some x0 \<and> map_of (IOCPContextMap x0) i = Some r \<and> r \<noteq> q"
    if "scs ?s a = Some x" "map_of (IOCPContextMap x) i = Some r" for a x i r
  proof (cases "a = p")
    case True
    then have i: "map_of (IOCPContextMap sc) i = Some r" "i \<noteq> k" using that by (auto simp: map split: if_splits)
    have "r \<noteq> q" using uniq [OF assms(2) assms(2) assms(3), of i] i by blast
    with True assms(2) i(1) show ?thesis by blast
  next
    case False
    then have "scs s a = Some x" using that(1) by simp
    moreover have "r \<noteq> q" using False that(2) uniq [OF calculation assms(2) _ assms(3), of i] by blast
    ultimately show ?thesis using that(2) by blast
  qed
  have each: "a \<noteq> 0 \<and> a < next_obj ?s \<and> sc_ok api ?s x" if a: "scs ?s a = Some x" for a x
  proof -
    obtain x0 where x0: "scs s a = Some x0" "socketLock x = socketLock x0" "sc_count x = sc_count x0"
      "IOCPContextMap x = IOCPContextMap x0 \<or> IOCPContextMap x = smap_erase k (IOCPContextMap x0)"
      using a assms(2) by (auto split: if_splits)
    have "map_of (IOCPContextMap x) i = Some r \<Longrightarrow> map_of (IOCPContextMap x0) i = Some r \<and> r \<noteq> q" for i r
      using ent [OF a] x0(1) by auto
    with x0 scs_okD [OF ok(2) x0(1)] show ?thesis by (auto simp: sc_ok_def smap.ok_erase)
  qed
  have "scs_ok api ?s"
    unfolding scs_ok_def
  proof (intro conjI allI impI)
    fix a b x y i j r
    assume "scs ?s a = Some x" "scs ?s b = Some y" "map_of (IOCPContextMap x) i = Some r" "map_of (IOCPContextMap y) j = Some r"
    then show "a = b" "i = j" using ent uniq by meson+
  qed (use each in blast)+
  moreover have "ics_ok ?s" using h(2) by (simp add: ics_ok_def)
  ultimately show ?thesis using run h(3) by (auto simp: io_ok_def)
qed

text \<open>Deleting a connection deletes exactly the operations in its map.\<close>

lemma delete_contexts_ok:
  "ics_ok s \<Longrightarrow> distinct (map snd es) \<Longrightarrow> (\<forall>e \<in> set es. ics s (snd e) \<noteq> None) \<Longrightarrow>
     \<exists>h. foldR (\<lambda>e. IOCPContext_delete (snd e)) es s = Inr (s\<lparr>hp := h, ics := ics s |` (- (snd ` set es))\<rparr>) \<and>
       ics_ok (s\<lparr>hp := h, ics := ics s |` (- (snd ` set es))\<rparr>)"
proof (induction es arbitrary: s)
  case Nil
  have "ics s |` UNIV = ics s" by (simp add: fun_eq_iff)
  with Nil show ?case by (intro exI [of _ "hp s"]) simp
next
  case (Cons e es)
  then obtain ic where ic: "ics s (snd e) = Some ic" by auto
  from IOCPContext_delete_ok [OF Cons.prems(1) ic] obtain h1 where h1:
    "IOCPContext_delete (snd e) s = Inr (s\<lparr>hp := h1, ics := (ics s)(snd e := None)\<rparr>)"
    "ics_ok (s\<lparr>hp := h1, ics := (ics s)(snd e := None)\<rparr>)" by blast
  let ?s = "s\<lparr>hp := h1, ics := (ics s)(snd e := None)\<rparr>"
  have "\<forall>e' \<in> set es. ics ?s (snd e') \<noteq> None"
    using Cons.prems(2,3) by (auto simp: image_iff)
  moreover have "distinct (map snd es)" using Cons.prems(2) by simp
  ultimately obtain h where h:
    "foldR (\<lambda>e. IOCPContext_delete (snd e)) es ?s = Inr (?s\<lparr>hp := h, ics := ics ?s |` (- (snd ` set es))\<rparr>)"
    "ics_ok (?s\<lparr>hp := h, ics := ics ?s |` (- (snd ` set es))\<rparr>)"
    using Cons.IH [OF h1(2)] by blast
  moreover have "ics ?s |` (- (snd ` set es)) = ics s |` (- (snd ` set (e # es)))"
    by (auto simp: fun_eq_iff restrict_map_def)
  ultimately show ?case using h1(1) by auto
qed

lemma SocketContext_delete_ok:
  assumes "io_ok api s" and "scs s p = Some sc"
  shows "\<exists>s'. SocketContext_delete p s = Inr s' \<and> io_ok api s' \<and> scs s' = (scs s)(p := None) \<and>
     ics s' = ics s |` (- (snd ` set (IOCPContextMap sc))) \<and> socketContextMap s' = socketContextMap s \<and>
     pending s' = pending s \<and> port_queue s' = port_queue s \<and> io_lock s' = io_lock s \<and>
     next_obj s' = next_obj s \<and> calls s' = calls s \<and> io_counts s' = io_counts s"
proof -
  have ok: "ics_ok s" "scs_ok api s" using assms(1) by (simp_all add: io_ok_def)
  note sc = scs_okD [OF ok(2) assms(2)]
  have smap: "smap_ok (IOCPContextMap sc)" using sc(4) by (simp add: sc_ok_def)
  have mem: "map_of (IOCPContextMap sc) k = Some q" if "(k, q) \<in> set (IOCPContextMap sc)" for k q
    using that smap_ok_distinct [OF smap] by simp
  have uniq: "a = b \<and> i = j" if "scs s a = Some x" "scs s b = Some y"
    "map_of (IOCPContextMap x) i = Some r" "map_of (IOCPContextMap y) j = Some r" for a b x y i j r
    using ok(2) that unfolding scs_ok_def by blast
  have "inj_on snd (set (IOCPContextMap sc))"
    using uniq [OF assms(2) assms(2)] mem by (intro inj_onI) (metis prod.collapse)
  then have dist: "distinct (map snd (IOCPContextMap sc))"
    using smap_ok_distinct [OF smap] by (simp add: distinct_map)
  have "\<forall>e \<in> set (IOCPContextMap sc). ics s (snd e) \<noteq> None"
    using sc(4) mem by (fastforce simp: sc_ok_def)
  from delete_contexts_ok [OF ok(1) dist this] obtain h where h:
    "foldR (\<lambda>e. IOCPContext_delete (snd e)) (IOCPContextMap sc) s =
       Inr (s\<lparr>hp := h, ics := ics s |` (- (snd ` set (IOCPContextMap sc)))\<rparr>)"
    "ics_ok (s\<lparr>hp := h, ics := ics s |` (- (snd ` set (IOCPContextMap sc)))\<rparr>)" by blast
  define s1 where "s1 = s\<lparr>hp := h, ics := ics s |` (- (snd ` set (IOCPContextMap sc)))\<rparr>"
  define s' where "s' = (closesocket (sc_socket sc) s1)\<lparr>scs := (scs s)(p := None)\<rparr>"
  have run: "SocketContext_delete p s = Inr s'"
    unfolding SocketContext_delete_def using sc(3) h(1) by (simp add: s'_def s1_def)
  have f: "ics s' = ics s |` (- (snd ` set (IOCPContextMap sc)))" "scs s' = (scs s)(p := None)" "hp s' = h"
    "next_obj s' = next_obj s" "socketContextMap s' = socketContextMap s" "pending s' = pending s"
    "port_queue s' = port_queue s" "io_lock s' = io_lock s" "calls s' = calls s" "io_counts s' = io_counts s"
    by (simp_all add: s'_def s1_def closesocket_def io_counts_def split: option.split)
  have "ics_ok s'" using h(2) unfolding ics_ok_def f by simp
  moreover have "sc_ok api s' x" if x: "scs s a = Some x" "a \<noteq> p" for a x
  proof -
    have "q \<notin> snd ` set (IOCPContextMap sc)" if "map_of (IOCPContextMap x) k = Some q" for k q
    proof
      assume "q \<in> snd ` set (IOCPContextMap sc)"
      then obtain k' where "(k', q) \<in> set (IOCPContextMap sc)" by auto
      from uniq [OF x(1) assms(2) that mem [OF this]] x(2) show False by blast
    qed
    with scs_okD(4) [OF ok(2) x(1)] show ?thesis by (auto simp: sc_ok_def f restrict_map_def)
  qed
  then have "scs_ok api s'"
    using scs_okD(1,2) [OF ok(2)] uniq unfolding scs_ok_def f by (auto split: if_splits)
  ultimately have "io_ok api s'" using assms(1) f by (simp add: io_ok_def)
  with run f show ?thesis by blast
qed

lemma createIOCPContext_ok:
  assumes "io_ok api s" and "scs s p = Some sc" and "0 < n"
  shows "\<exists>h. createIOCPContext api p n s = Inr (next_obj s, created p n sc h s) \<and>
     io_ok api (created p n sc h s) \<and>
     blocks h = (blocks (hp s))(hp_next (hp s) \<mapsto> replicate (nat n) (Some (CHR 0x00)))"
  using createIOCPContext_eq [OF assms] created_ok [OF assms(1,2)] by blast

lemma IOCPModule_start_ok: "io_ok api (IOCPModule_start api g n q t b)"
  by (auto simp: io_ok_def ics_ok_def scs_ok_def sc_ok_def IOCPModule_start_def SocketContext_new_def LISTEN_def
      idle_def SRWLock_init_def smap_ok_def)

text \<open>Removing by an operation's own index.\<close>

lemma remove_by_index:
  assumes "io_ok api s" and "scs s p = Some sc" and "0 < n" and "createIOCPContext api p n s = Inr (pIC, s1)"
  shows "\<exists>r s2. removeIOCPContext api p (contextIndex (the (ics s1 pIC))) s1 = Inr (r, s2) \<and> io_ok api s2 \<and>
     ics s2 pIC = ics s1 pIC \<and> ics s1 pIC \<noteq> None \<and>
     (case map_of (IOCPContextMap sc) (sc_count sc) of
        None \<Rightarrow> \<not> r \<and> s2 = s1
      | Some q \<Rightarrow> r \<and> q \<noteq> pIC \<and> ics s1 q \<noteq> None \<and> ics s2 q = None)"
proof -
  from createIOCPContext_ok [OF assms(1-3)] assms(4) obtain h where
    s1: "pIC = next_obj s" "s1 = created p n sc h s" "io_ok api s1" by auto
  have ok: "ics_ok s" "scs_ok api s" using assms(1) by (simp_all add: io_ok_def)
  let ?sc = "sc\<lparr>sc_count := sc_count sc + 1, IOCPContextMap := smap_put (sc_count sc + 1) pIC (IOCPContextMap sc)\<rparr>"
  have sc1: "scs s1 p = Some ?sc" by (simp add: s1 created_def Let_def)
  have ic: "ics s1 pIC = Some ((fresh_ic (nat n) (hp_next (hp s)))\<lparr>contextIndex := sc_count sc\<rparr>)"
    by (simp add: s1 created_def Let_def)
  have map: "map_of (IOCPContextMap ?sc) (sc_count sc) = map_of (IOCPContextMap sc) (sc_count sc)"
    using scs_okD(4) [OF ok(2) assms(2)] by (simp add: sc_ok_def smap.find_put)
  show ?thesis
  proof (cases "map_of (IOCPContextMap sc) (sc_count sc)")
    case None
    with removeIOCPContext_absent [OF s1(3) sc1] map ic s1(3) show ?thesis by auto
  next
    case (Some q)
    then have q: "map_of (IOCPContextMap ?sc) (sc_count sc) = Some q" using map by simp
    from scs_okD(4) [OF ok(2) assms(2)] Some obtain jc where jc: "ics s q = Some jc" unfolding sc_ok_def by blast
    have "q \<noteq> pIC" using ics_okD(2) [OF ok(1) jc] by (simp add: s1)
    moreover from this jc have jc1: "ics s1 q = Some jc" by (simp add: s1 created_def Let_def)
    ultimately show ?thesis
      using removeIOCPContext_present [OF s1(3) sc1 q jc1] ic Some by auto
  qed
qed

end

section \<open>Properties\<close>

text \<open>
  \<^verbatim>\<open>createIOCPContext\<close> numbers an operation with the count before the increment and files it
  under the count after it, so that \<^verbatim>\<open>removeIOCPContext\<close> called with an operation's own index
  (as every caller does) never removes that operation: it stays alive, and what is removed and
  freed instead is the operation that was created just before it, if that is still there.
\<close>

theorem remove_by_own_index_misses:
  assumes "srw_laws api" and "io_ok api s" and "scs s p = Some sc" and "0 < n"
    and "createIOCPContext api p n s = Inr (pIC, s1)"
  shows "\<exists>r s2. removeIOCPContext api p (contextIndex (the (ics s1 pIC))) s1 = Inr (r, s2) \<and> io_ok api s2 \<and>
     ics s2 pIC = ics s1 pIC \<and> ics s1 pIC \<noteq> None \<and>
     (case map_of (IOCPContextMap sc) (sc_count sc) of
        None \<Rightarrow> \<not> r \<and> s2 = s1
      | Some q \<Rightarrow> r \<and> q \<noteq> pIC \<and> ics s1 q \<noteq> None \<and> ics s2 q = None)"
  by (rule srw_laws.remove_by_index [OF assms])

lemma remove_by_own_index_misses_witness:
  "\<exists>s1 s2. createIOCPContext srw_ref LISTEN 100 (IOCPModule_default srw_ref False) = Inr (2, s1) \<and>
     removeIOCPContext srw_ref LISTEN (contextIndex (the (ics s1 2))) s1 = Inr (False, s2) \<and> ics s2 2 \<noteq> None"
proof -
  let ?s = "IOCPModule_default srw_ref False"
  have ok: "io_ok srw_ref ?s" unfolding IOCPModule_default_def by (rule srw_ref.IOCPModule_start_ok)
  have sc: "scs ?s LISTEN = Some (SocketContext_new srw_ref)" "next_obj ?s = 2"
    by (simp_all add: IOCPModule_default_def IOCPModule_start_def LISTEN_def)
  from srw_ref.createIOCPContext_ok [OF ok sc(1), of 100] sc(2) obtain s1 where s1:
    "createIOCPContext srw_ref LISTEN 100 ?s = Inr (2, s1)" by auto
  from remove_by_own_index_misses [OF srw_ref.srw_laws_axioms ok sc(1) _ s1] s1 show ?thesis
    by (auto simp: SocketContext_new_def)
qed

text \<open>
  Deleting a connection deletes exactly the operations of its map, each once, and leaves every
  other connection and operation well-formed.
\<close>

theorem connection_delete_frees_its_contexts:
  assumes "srw_laws api" and "io_ok api s" and "scs s p = Some sc"
  shows "\<exists>s'. SocketContext_delete p s = Inr s' \<and> io_ok api s' \<and> scs s' = (scs s)(p := None) \<and>
     ics s' = ics s |` (- (snd ` set (IOCPContextMap sc)))"
  using srw_laws.SocketContext_delete_ok [OF assms] by blast

lemma connection_delete_frees_its_contexts_witness:
  "\<exists>s'. SocketContext_delete LISTEN (IOCPModule_default srw_ref False) = Inr s' \<and> scs s' LISTEN = None"
proof -
  have ok: "io_ok srw_ref (IOCPModule_default srw_ref False)"
    unfolding IOCPModule_default_def by (rule srw_ref.IOCPModule_start_ok)
  have sc: "scs (IOCPModule_default srw_ref False) LISTEN = Some (SocketContext_new srw_ref)"
    by (simp add: IOCPModule_default_def IOCPModule_start_def)
  from connection_delete_frees_its_contexts [OF srw_ref.srw_laws_axioms ok sc] show ?thesis by auto
qed

end
