(* ===== verification/IOCP_Module.thy ===== *)
theory IOCP_Module
  imports IOCP_Contexts
begin

text \<open>
  The operations of \<^verbatim>\<open>svr::IOCPModule\<close> (\<^verbatim>\<open>server.cpp\<close>): posting and completing overlapped
  accept, receive and send operations, closing connections, and the loop of the worker threads.
  Log lines are left out; a call of a callback is recorded with its arguments, since the callbacks
  of the sources only log.
\<close>

section \<open>Helpers\<close>

definition set_io_lock :: "'l SRWLock \<Rightarrow> 'l IOCPModule \<Rightarrow> 'l IOCPModule" where
  "set_io_lock l s = s\<lparr>io_lock := l\<rparr>"

text \<open>The bytes that can be read from a position in a character array on.\<close>

definition cell_char :: "cell \<Rightarrow> char" where
  "cell_char c = (case c of Some x \<Rightarrow> x | None \<Rightarrow> CHR 0x00)"

definition peek :: "addr \<Rightarrow> nat \<Rightarrow> heap \<Rightarrow> string res" where
  "peek p off h =
     (if p = 0 then Inl NullDeref
      else case blocks h p of
        None \<Rightarrow> Inl UseAfterFree
      | Some b \<Rightarrow> if off \<le> length b then Inr (map cell_char (drop off b)) else Inl OutOfBounds)"

text \<open>\<^verbatim>\<open>RELEASE_SOCKET\<close> on the socket of a connection.\<close>

definition release_socket :: "addr \<Rightarrow> 'l IOCPModule \<Rightarrow> 'l IOCPModule res" where
  "release_socket p s =
     bindR (get_sc p s) (\<lambda>sc. Inr (put_sc p (sc\<lparr>sc_socket := None\<rparr>) (closesocket (sc_socket sc) s)))"

text \<open>Calling the receive or the send callback; without one, a default callback is made for the call.\<close>

definition run_recv_callback :: "addr \<Rightarrow> string option \<Rightarrow> int \<Rightarrow> 'l IOCPModule \<Rightarrow> 'l IOCPModule" where
  "run_recv_callback pSC data len s = s\<lparr>calls := calls s @ [RecvCall (pRecvCallback s) pSC data len]\<rparr>"

definition run_send_callback :: "addr \<Rightarrow> string option \<Rightarrow> int \<Rightarrow> 'l IOCPModule \<Rightarrow> 'l IOCPModule" where
  "run_send_callback pSC data len s = s\<lparr>calls := calls s @ [SendCall (pSendCallback s) pSC data len]\<rparr>"

section \<open>Posting operations\<close>

definition postAccept :: "os \<Rightarrow> addr \<Rightarrow> 'l IOCPModule \<Rightarrow> (bool \<times> 'l IOCPModule) res" where
  "postAccept os p s =
     (if p = 0 then Inr (False, s)
      else
        bindR (get_ic p s) (\<lambda>ic.
        case new_socket os s of (sock, s) \<Rightarrow>
          let s = put_ic p (ic\<lparr>ic_operation := SIG_ACCEPT, ic_socket := sock\<rparr>) s in
          if sock = None then Inr (False, s)
          else case ask (AcceptEx os) s of (ok, s) \<Rightarrow>
            if ok then Inr (True, s\<lparr>pending := p # pending s\<rparr>) else Inr (False, s)))"

definition postRecv :: "os \<Rightarrow> addr \<Rightarrow> 'l IOCPModule \<Rightarrow> (bool \<times> 'l IOCPModule) res" where
  "postRecv os p s =
     bindR (ResetBuffer p s) (\<lambda>s.
     bindR (get_ic p s) (\<lambda>ic.
       let s = put_ic p (ic\<lparr>ic_operation := SIG_RECV\<rparr>) s in
       case ask (WSARecv os) s of (ok, s) \<Rightarrow>
         if ok then Inr (True, s\<lparr>pending := p # pending s\<rparr>) else Inr (False, s)))"

text \<open>
  \<^verbatim>\<open>&pIC->wsabuf + (pIC->wsabuf.len - pIC->bytesToRecv)\<close> moves the pointer by whole \<^verbatim>\<open>WSABUF\<close>
  structures: unless the difference is zero it does not point to the operation's buffer.
\<close>

definition postSend :: "os \<Rightarrow> addr \<Rightarrow> 'l IOCPModule \<Rightarrow> (bool \<times> 'l IOCPModule) res" where
  "postSend os p s =
     bindR (get_ic p s) (\<lambda>ic.
       if int (wsabuf_len ic) \<noteq> bytesToRecv ic then Inl OutOfBounds
       else case ask (WSASend os) s of (ok, s) \<Rightarrow>
         let s = put_ic p (ic\<lparr>ic_operation := SIG_SEND\<rparr>) s in
         if ok then Inr (True, s\<lparr>pending := p # pending s\<rparr>) else Inr (False, s))"

definition postCloseConnection :: "'l srw_api \<Rightarrow> addr \<Rightarrow> 'l IOCPModule \<Rightarrow> (unit \<times> 'l IOCPModule) res" where
  "postCloseConnection api pSC s =
     (if pSC = 0 then Inr ((), s)
      else exclusive api io_lock set_io_lock (\<lambda>s.
        if map_of (socketContextMap s) pSC = None then Inr ((), s)
        else
          bindR (get_sc pSC s) (\<lambda>sc.
            if \<not> closeFlag sc then
              let s = put_sc pSC (sc\<lparr>closeFlag := True\<rparr>) s in
              bindR (createIOCPContext api pSC 4096 s) (\<lambda>(p, s).
              bindR (get_ic p s) (\<lambda>ic.
                let s = put_ic p (ic\<lparr>ic_operation := SIG_CLOSE_CONNECTION\<rparr>) s in
                Inr ((), s\<lparr>port_queue := port_queue s @ [(1, pSC, p)]\<rparr>)))
            else Inr ((), s))) s)"

definition doCloseConnection :: "'l srw_api \<Rightarrow> addr \<Rightarrow> 'l IOCPModule \<Rightarrow> (unit \<times> 'l IOCPModule) res" where
  "doCloseConnection api pSC =
     exclusive api io_lock set_io_lock (\<lambda>s.
       if map_of (socketContextMap s) pSC \<noteq> None then
         bindR (SocketContext_delete pSC s) (\<lambda>s.
           Inr ((), s\<lparr>socketContextMap := smap_erase pSC (socketContextMap s)\<rparr>))
       else Inr ((), s))"

section \<open>Completing operations\<close>

text \<open>
  The wait branch of \<^verbatim>\<open>doAccept\<close>: the packet is longer, or shorter, than what has arrived.
\<close>

definition keep_partial :: "addr \<Rightarrow> Packet \<Rightarrow> addr \<Rightarrow> int \<Rightarrow> 'l IOCPModule \<Rightarrow> 'l IOCPModule res" where
  "keep_partial pContext packet buf dataLength s =
     bindR (get_ic pContext s) (\<lambda>ic.
       let (prev, h) = new_array (nat (getPacketLength packet)) (hp s) in
       bindR (zero_memory prev (nat (getPacketLength packet)) h) (\<lambda>h.
       bindR (memcpy prev 0 buf 0 (nat dataLength) h) (\<lambda>h.
         Inr ((put_ic pContext (ic\<lparr>prevFlag := True, prevData := prev,
           bytesToRecv := getPacketLength packet - dataLength, ic_packet := packet\<rparr>) s)\<lparr>hp := h\<rparr>))))"

definition doAccept ::
  "'l srw_api \<Rightarrow> os \<Rightarrow> addr \<Rightarrow> addr \<Rightarrow> int \<Rightarrow> 'l IOCPModule \<Rightarrow> (bool \<times> 'l IOCPModule) res" where
  "doAccept api os pSC pIC dataLength s =
     bindR (get_ic pIC s) (\<lambda>ic.
     case ask (GetAcceptExSockAddrs os) s of (clientAddr, s) \<Rightarrow>
     case SocketContext_create api s of (psc, s) \<Rightarrow>
     bindR (get_sc psc s) (\<lambda>sc.
     bindR (timer_start os psc (put_sc psc (sc\<lparr>sc_socket := ic_socket ic, sc_addr := clientAddr\<rparr>) s)) (\<lambda>s.
     bindR (createIOCPContext api psc DEFAULT_BUF_SIZ s) (\<lambda>(pContext, s).
     bindR (get_ic pContext s) (\<lambda>c.
     let s = put_ic pContext (c\<lparr>ic_socket := ic_socket ic, ic_addr := clientAddr, ic_operation := SIG_RECV\<rparr>) s in
     case ask (CreateIoCompletionPort os) s of (bound, s) \<Rightarrow>
     if \<not> bound then
       bindR (release_socket psc s) (\<lambda>s.
       bindR (SocketContext_delete psc s) (postAccept os pIC))
     else
       bindR (peek (wsabuf_buf ic) 0 (hp s)) (\<lambda>data.
       bindR (matchHeader (Some data) dataLength Packet_default) (\<lambda>(matched, packet).
       let processFlag = (matched \<and> getPacketLength packet = dataLength) in
       bindR (if matched \<and> \<not> processFlag then keep_partial pContext packet (wsabuf_buf ic) dataLength s
              else Inr s) (\<lambda>s.
       bindR (postRecv os pContext s) (\<lambda>(posted, s).
       if \<not> posted then
         bindR (release_socket psc s) (\<lambda>s.
         bindR (SocketContext_delete psc s) (postAccept os pIC))
       else
         bindR (exclusive api io_lock set_io_lock (\<lambda>s.
           Inr ((), s\<lparr>socketContextMap := snd (smap_insert psc (ic_socket ic) (socketContextMap s))\<rparr>)) s) (\<lambda>(_, s).
         let s = (if processFlag
                  then run_recv_callback pSC (Some (take (nat dataLength) data)) dataLength
                         (s\<lparr>callbackInvokedNum := callbackInvokedNum s + 1\<rparr>)
                  else s) in
         bindR (ResetBuffer pIC s) (postAccept os pIC)))))))))))"

text \<open>
  The packet splicing loop of \<^verbatim>\<open>doRecv\<close>: from the position \<open>count\<close> on, how far it gets, the last
  packet header it read and for how many packets it calls the callback. Every header it accepts
  announces a packet of at least 63 bytes, so it stops.
\<close>

function splice :: "string \<Rightarrow> int \<Rightarrow> int \<Rightarrow> Packet \<Rightarrow> nat \<Rightarrow> (int \<times> Packet \<times> nat) res" where
  "splice buf dataLength count pack n =
     (if count < dataLength then
        (case matchHeader (Some (drop (nat count) buf)) (dataLength - count) pack of
           Inl e \<Rightarrow> Inl e
         | Inr r \<Rightarrow>
             if fst r then
               splice buf dataLength (count + getPacketLength (snd r)) (snd r)
                 (if getPacketLength (snd r) \<le> dataLength - count then Suc n else n)
             else Inr (count, snd r, n))
      else Inr (count, pack, n))"
  by pat_completeness auto

termination
proof (relation "measure (\<lambda>(buf, dataLength, count, pack, n). nat (dataLength - count))")
  fix buf :: string and dataLength count :: int and pack :: Packet and n :: nat and r
  assume "count < dataLength"
    and m: "matchHeader (Some (drop (nat count) buf)) (dataLength - count) pack = Inr r" and "fst r"
  then have "63 \<le> headLength (snd r) \<and> 0 \<le> ContentLength (snd r)"
    using matchHeader_true [of "drop (nat count) buf" "dataLength - count" pack "snd r"] header_text_length
    by (cases r) (fastforce simp: packet_of_def)
  with \<open>count < dataLength\<close>
  show "((buf, dataLength, count + getPacketLength (snd r), snd r,
        if getPacketLength (snd r) \<le> dataLength - count then Suc n else n), buf, dataLength, count, pack, n)
      \<in> measure (\<lambda>(buf, dataLength, count, pack, n). nat (dataLength - count))"
    by (simp add: getPacketLength_def)
qed simp

declare splice.simps [simp del]

text \<open>
  What \<^verbatim>\<open>doRecv\<close> does when the last packet it found is not complete: it keeps as many bytes as are
  missing, from where that packet starts. It does not set the operation's \<^verbatim>\<open>packet\<close>.
\<close>

definition keep_rest :: "addr \<Rightarrow> int \<Rightarrow> int \<Rightarrow> Packet \<Rightarrow> 'l IOCPModule \<Rightarrow> 'l IOCPModule res" where
  "keep_rest p count dataLength pack s =
     bindR (get_ic p s) (\<lambda>ic.
       let missing = count - dataLength; (prev, h) = new_array (nat missing) (hp s) in
       bindR (zero_memory prev (nat missing) h) (\<lambda>h.
       if count - getPacketLength pack < 0 then Inl OutOfBounds
       else bindR (memcpy prev 0 (wsabuf_buf ic) (nat (count - getPacketLength pack)) (nat missing) h) (\<lambda>h.
         Inr ((put_ic p (ic\<lparr>prevFlag := True, bytesToRecv := missing, prevData := prev\<rparr>) s)\<lparr>hp := h\<rparr>))))"

text \<open>Copying the received bytes behind the bytes already kept; a negative position is out of bounds.\<close>

definition append_prev :: "IOCPContext \<Rightarrow> int \<Rightarrow> heap \<Rightarrow> heap res" where
  "append_prev ic n h =
     (let off = getPacketLength (ic_packet ic) - bytesToRecv ic in
      if off < 0 then Inl OutOfBounds else memcpy (prevData ic) (nat off) (wsabuf_buf ic) 0 (nat n) h)"

definition drop_prev :: "addr \<Rightarrow> 'l IOCPModule \<Rightarrow> 'l IOCPModule res" where
  "drop_prev p s =
     bindR (get_ic p s) (\<lambda>ic.
     bindR (delete_array (prevData ic) (hp s)) (\<lambda>h.
       Inr ((put_ic p (ic\<lparr>prevFlag := False, bytesToRecv := 0\<rparr>) s)\<lparr>hp := h\<rparr>)))"

fun repeat_callback :: "nat \<Rightarrow> addr \<Rightarrow> string \<Rightarrow> int \<Rightarrow> 'l IOCPModule \<Rightarrow> 'l IOCPModule" where
  "repeat_callback 0 pSC data len s = s"
| "repeat_callback (Suc n) pSC data len s = repeat_callback n pSC data len (run_recv_callback pSC (Some data) len s)"

definition count_callbacks :: "nat \<Rightarrow> 'l IOCPModule \<Rightarrow> 'l IOCPModule" where
  "count_callbacks n s = s\<lparr>callbackInvokedNum := callbackInvokedNum s + int n\<rparr>"

definition doRecv ::
  "os \<Rightarrow> addr \<Rightarrow> addr \<Rightarrow> int \<Rightarrow> 'l IOCPModule \<Rightarrow> (bool \<times> 'l IOCPModule) res" where
  "doRecv os pSC pIC dataLength s =
     bindR (get_ic pIC s) (\<lambda>ic.
     bindR (peek (wsabuf_buf ic) 0 (hp s)) (\<lambda>buf.
     let data = take (nat dataLength) buf in
     bindR
       (if prevFlag ic then
          if bytesToRecv ic = dataLength then
            drop_prev pIC (repeat_callback 1 pSC data dataLength (count_callbacks 1 s))
          else if dataLength < bytesToRecv ic then
            bindR (append_prev ic dataLength (hp s)) (\<lambda>h.
              Inr ((put_ic pIC (ic\<lparr>bytesToRecv := bytesToRecv ic - dataLength\<rparr>) s)\<lparr>hp := h\<rparr>))
          else if dataLength \<le> bufferSize s then
            bindR (append_prev ic (bytesToRecv ic) (hp s)) (\<lambda>h.
            bindR (drop_prev pIC (repeat_callback 1 pSC data dataLength (count_callbacks 1 (s\<lparr>hp := h\<rparr>)))) (\<lambda>s.
            bindR (splice buf dataLength (bytesToRecv ic) Packet_default 0) (\<lambda>(count, pack, n).
              let s = repeat_callback n pSC data dataLength (count_callbacks n s) in
              if count > dataLength then keep_rest pIC count dataLength pack s else Inr s)))
          else drop_prev pIC s
        else
          bindR (splice buf dataLength 0 Packet_default 0) (\<lambda>(count, pack, n).
            let s = repeat_callback n pSC data dataLength s in
            if count > dataLength then keep_rest pIC count dataLength pack s else Inr s))
       (postRecv os pIC)))"

definition doSend ::
  "'l srw_api \<Rightarrow> os \<Rightarrow> addr \<Rightarrow> addr \<Rightarrow> int \<Rightarrow> 'l IOCPModule \<Rightarrow> (bool \<times> 'l IOCPModule) res" where
  "doSend api os pSC pIC dataLength s =
     bindR (get_ic pIC s) (\<lambda>ic.
       if dataLength = bytesToRecv ic then
         bindR (peek (wsabuf_buf ic) 0 (hp s)) (\<lambda>buf.
         bindR (removeIOCPContext api pSC (contextIndex ic)
           (run_send_callback pSC (Some (take (nat dataLength) buf)) dataLength (count_callbacks 1 s))) (\<lambda>(_, s).
           Inr (True, s)))
       else if dataLength < bytesToRecv ic then
         bindR (postSend os pIC (put_ic pIC (ic\<lparr>bytesToRecv := bytesToRecv ic - dataLength\<rparr>) s)) (\<lambda>(posted, s).
           if posted then Inr (True, s)
           else bindR (removeIOCPContext api pSC (contextIndex ic) s) (\<lambda>(_, s). Inr (False, s)))
       else bindR (removeIOCPContext api pSC (contextIndex ic) s) (\<lambda>(_, s). Inr (False, s)))"

section \<open>Connections of one's own\<close>

definition createConnectContext ::
  "'l srw_api \<Rightarrow> os \<Rightarrow> SOCKADDR_IN \<Rightarrow> 'l IOCPModule \<Rightarrow> (addr \<times> 'l IOCPModule) res" where
  "createConnectContext api os peer s =
     (case SocketContext_create api s of (p, s) \<Rightarrow>
      case new_socket os s of (sock, s) \<Rightarrow>
      bindR (get_sc p s) (\<lambda>sc.
        let s = put_sc p (sc\<lparr>sc_addr := peer, sc_socket := sock\<rparr>) s in
        if sock = None then bindR (SocketContext_delete p s) (\<lambda>s. Inr (0, s))
        else case ask (os_connect os) s of (ok, s) \<Rightarrow>
          if ok then bindR (timer_start os p s) (\<lambda>s. Inr (p, s))
          else bindR (SocketContext_delete p s) (\<lambda>s. Inr (0, s))))"

text \<open>The part of \<^verbatim>\<open>sendData\<close> for a connection the module does not know yet.\<close>

definition adopt_connection ::
  "'l srw_api \<Rightarrow> os \<Rightarrow> addr \<Rightarrow> 'l IOCPModule \<Rightarrow> (bool \<times> 'l IOCPModule) res" where
  "adopt_connection api os pSC s =
     bindR (get_sc pSC s) (\<lambda>sc.
     case ask (CreateIoCompletionPort os) s of (bound, s) \<Rightarrow>
     if \<not> bound then Inr (False, s)
     else
       bindR (createIOCPContext api pSC (bufferSize s) s) (\<lambda>(p, s).
       bindR (get_ic p s) (\<lambda>ic.
       let s = put_ic p (ic\<lparr>ic_socket := sc_socket sc, ic_addr := sc_addr sc, ic_operation := SIG_RECV\<rparr>) s in
       bindR (exclusive api io_lock set_io_lock (\<lambda>s.
         bindR (postRecv os p s) (\<lambda>(posted, s).
         bindR (if posted then Inr (True, s) else removeIOCPContext api pSC (contextIndex ic) s) (\<lambda>(_, s).
           Inr ((), s\<lparr>socketContextMap := snd (smap_insert pSC (sc_socket sc) (socketContextMap s))\<rparr>)))) s) (\<lambda>(_, s).
       Inr (True, s)))))"

text \<open>\<open>data\<close> is what can be read behind the pointer, \<open>None\<close> the null pointer.\<close>

definition sendData ::
  "'l srw_api \<Rightarrow> os \<Rightarrow> addr \<Rightarrow> string option \<Rightarrow> int \<Rightarrow> 'l IOCPModule \<Rightarrow> (bool \<times> 'l IOCPModule) res" where
  "sendData api os pSC data len s =
     (case data of
        None \<Rightarrow> Inr (False, s)
      | Some d \<Rightarrow>
          if pSC = 0 \<or> len \<le> 0 \<or> len > 0x800100 then Inr (False, s)
          else
            bindR (shared api io_lock set_io_lock (\<lambda>s. Inr (map_of (socketContextMap s) pSC = None, s)) s) (\<lambda>(flag, s).
            bindR (if flag then adopt_connection api os pSC s else Inr (True, s)) (\<lambda>(ok, s).
            if \<not> ok then Inr (False, s)
            else
              bindR (createIOCPContext api pSC len s) (\<lambda>(p, s).
              bindR (get_sc pSC s) (\<lambda>sc.
              bindR (get_ic p s) (\<lambda>ic.
              if int (length d) < len then Inl OutOfBounds
              else
                bindR (write_cells (wsabuf_buf ic) 0 (map Some (take (nat len) d)) (hp s)) (\<lambda>h.
                let s = (put_ic p (ic\<lparr>ic_socket := sc_socket sc, ic_addr := sc_addr sc,
                           ic_operation := SIG_SEND, bytesToRecv := len\<rparr>) s)\<lparr>hp := h\<rparr> in
                bindR (postSend os p s) (\<lambda>(posted, s).
                if posted then Inr (True, s)
                else bindR (removeIOCPContext api pSC (contextIndex ic) s) (\<lambda>(_, s). Inr (False, s))))))))))"

section \<open>The worker threads\<close>

text \<open>
  What \<^verbatim>\<open>GetQueuedCompletionStatus\<close> gives: a completion (successful or not) with its byte count,
  connection and operation, or a failure that takes nothing from the queue and leaves the byte
  count and the connection of the caller as they are.
\<close>

datatype dequeue = Dequeued bool int addr addr | NotDequeued

record work_thread =
  wt_bytes :: int
  wt_pSC :: addr
  wt_pIC :: addr
  wt_exit :: bool

definition work_thread_start :: work_thread where
  "work_thread_start = \<lparr>wt_bytes = 0, wt_pSC = 0, wt_pIC = 0, wt_exit = False\<rparr>"

definition repost_accept ::
  "'l srw_api \<Rightarrow> os \<Rightarrow> addr \<Rightarrow> 'l IOCPModule \<Rightarrow> 'l IOCPModule res" where
  "repost_accept api os pIC s =
     bindR (get_ic pIC s) (\<lambda>ic.
       let s = (closesocket (ic_socket ic) s)\<lparr>connectNum := connectNum s + 1, normallyClosedNum := normallyClosedNum s + 1\<rparr> in
       bindR (postAccept os pIC s) (\<lambda>(posted, s).
         if posted then Inr s
         else bindR (removeIOCPContext api LISTEN (contextIndex ic) s) (\<lambda>(_, s). Inr s)))"

definition close_after :: "'l srw_api \<Rightarrow> addr \<Rightarrow> (bool \<times> 'l IOCPModule) res \<Rightarrow> 'l IOCPModule res" where
  "close_after api pSC r =
     bindR r (\<lambda>(ok, s). if ok then Inr s else bindR (postCloseConnection api pSC s) (\<lambda>(_, s). Inr s))"

text \<open>The branch of the loop for a failed call.\<close>

definition work_error ::
  "'l srw_api \<Rightarrow> os \<Rightarrow> int \<Rightarrow> addr \<Rightarrow> addr \<Rightarrow> bool \<Rightarrow> 'l IOCPModule \<Rightarrow> 'l IOCPModule res" where
  "work_error api os bytes pSC pIC noOverlapped s =
     (let s = s\<lparr>errorNum := errorNum s + 1\<rparr> in
      if pSC = 0 then Inr s
      else if noOverlapped then bindR (postCloseConnection api pSC s) (\<lambda>(_, s). Inr s)
      else
        bindR (get_ic pIC s) (\<lambda>ic.
          if ic_operation ic = SIG_ACCEPT then repost_accept api os pIC s
          else if ic_operation ic = SIG_SEND then
            bindR (postCloseConnection api pSC (run_send_callback pSC None bytes s)) (\<lambda>(_, s). Inr s)
          else bindR (postCloseConnection api pSC s) (\<lambda>(_, s). Inr s)))"

text \<open>The branch for a completion; the flag says whether the thread ends.\<close>

definition work_completion ::
  "'l srw_api \<Rightarrow> os \<Rightarrow> int \<Rightarrow> addr \<Rightarrow> addr \<Rightarrow> 'l IOCPModule \<Rightarrow> (bool \<times> 'l IOCPModule) res" where
  "work_completion api os bytes pSC pIC s =
     bindR (timer_start os pSC s) (\<lambda>s.
     bindR (get_ic pIC s) (\<lambda>ic.
     if bytes > 0 then
       (case ic_operation ic of
          SIG_ACCEPT \<Rightarrow>
            bindR (doAccept api os pSC pIC bytes s) (\<lambda>(ok, s).
              if ok then Inr (False, s\<lparr>connectNum := connectNum s + 1\<rparr>)
              else bindR (removeIOCPContext api LISTEN (contextIndex ic) s) (\<lambda>(_, s). Inr (False, s)))
        | SIG_RECV \<Rightarrow> bindR (close_after api pSC (doRecv os pSC pIC bytes s)) (\<lambda>s. Inr (False, s))
        | SIG_SEND \<Rightarrow> bindR (close_after api pSC (doSend api os pSC pIC bytes s)) (\<lambda>s. Inr (False, s))
        | SIG_CLOSE_CONNECTION \<Rightarrow>
            bindR (doCloseConnection api pSC s) (\<lambda>(_, s).
              Inr (False, s\<lparr>normallyClosedNum := normallyClosedNum s + 1\<rparr>))
        | SIG_NULL \<Rightarrow> Inr (False, s)
        | SIG_EXIT \<Rightarrow> bindR (SocketContext_delete pSC s) (\<lambda>s. Inr (True, s)))
     else if ic_operation ic = SIG_ACCEPT then bindR (repost_accept api os pIC s) (\<lambda>s. Inr (False, s))
     else
       bindR (get_sc pSC s) (\<lambda>sc.
         if \<not> closeFlag sc then bindR (postCloseConnection api pSC s) (\<lambda>(_, s). Inr (False, s))
         else Inr (False, s))))"

text \<open>One turn of the loop of \<^verbatim>\<open>IOCPWorkThread\<close>; after an error the local variables keep their values.\<close>

definition IOCPWorkThread ::
  "'l srw_api \<Rightarrow> os \<Rightarrow> dequeue \<Rightarrow> work_thread \<Rightarrow> 'l IOCPModule \<Rightarrow> (work_thread \<times> 'l IOCPModule) res" where
  "IOCPWorkThread api os dq w s =
     (if wt_exit w then Inr (w, s)
      else case dq of
        NotDequeued \<Rightarrow>
          bindR (work_error api os (wt_bytes w) (wt_pSC w) (wt_pIC w) True s) (\<lambda>s. Inr (w, s))
      | Dequeued flag bytes pSC pIC \<Rightarrow>
          let w = w\<lparr>wt_bytes := bytes, wt_pSC := pSC, wt_pIC := pIC\<rparr> in
          if \<not> flag then bindR (work_error api os bytes pSC pIC False s) (\<lambda>s. Inr (w, s))
          else
            bindR (work_completion api os bytes pSC pIC s) (\<lambda>(exit, s).
              Inr (work_thread_start\<lparr>wt_exit := exit\<rparr>, s)))"

section \<open>Starting and stopping\<close>

definition LoadSocketLib :: "os \<Rightarrow> 'l IOCPModule \<Rightarrow> bool \<times> 'l IOCPModule" where
  "LoadSocketLib os s =
     (case ask (WSAStartup os) s of (version, s) \<Rightarrow> (version = Some (2, 2), s))"

definition GetFunctionAddress :: "os \<Rightarrow> 'l IOCPModule \<Rightarrow> bool \<times> 'l IOCPModule" where
  "GetFunctionAddress os s =
     (case ask (WSAIoctl os) s of (ok1, s) \<Rightarrow> if \<not> ok1 then (False, s) else ask (WSAIoctl os) s)"

text \<open>One standby socket of \<^verbatim>\<open>initIOCP\<close>.\<close>

definition standby_socket :: "'l srw_api \<Rightarrow> os \<Rightarrow> 'l IOCPModule \<Rightarrow> 'l IOCPModule res" where
  "standby_socket api os s =
     bindR (createIOCPContext api LISTEN DEFAULT_BUF_SIZ s) (\<lambda>(p, s).
     bindR (get_ic p s) (\<lambda>ic.
     bindR (postAccept os p (put_ic p (ic\<lparr>ic_operation := SIG_ACCEPT\<rparr>) s)) (\<lambda>(posted, s).
       if posted then Inr s
       else bindR (removeIOCPContext api LISTEN (contextIndex ic) s) (\<lambda>(_, s). Inr s))))"

text \<open>The worker threads: one work object, submitted once for each thread. Its creation is not checked.\<close>

definition start_workers :: "os \<Rightarrow> 'l IOCPModule \<Rightarrow> 'l IOCPModule res" where
  "start_workers os s =
     (case ask (CreateThreadpoolWork os) s of (ok, s) \<Rightarrow>
      bindR (foldR (\<lambda>_. submitWork) [0..<maxThreadNum s] (snd (createWorkThread ok (IOCPThreadPool s)))) (\<lambda>tp.
      Inr (s\<lparr>IOCPThreadPool := tp\<rparr>)))"

definition initIOCP :: "'l srw_api \<Rightarrow> os \<Rightarrow> 'l IOCPModule \<Rightarrow> (bool \<times> 'l IOCPModule) res" where
  "initIOCP api os s =
     (let s = s\<lparr>connectNum := 0, normallyClosedNum := 0, errorNum := 0, callbackInvokedNum := 0\<rparr> in
      case LoadSocketLib os s of (_, s) \<Rightarrow>
      case new_socket os s of (sock, s) \<Rightarrow>
      bindR (get_sc LISTEN s) (\<lambda>sc.
      let s = put_sc LISTEN (sc\<lparr>sc_socket := sock, sc_addr := (0, nat (io_port s))\<rparr>) s in
      if sock = None then Inr (False, s)
      else case ask (CreateIoCompletionPort os) s of (port, s) \<Rightarrow>
      let s = s\<lparr>hIOCP := port\<rparr> in
      if \<not> port then Inr (False, s)
      else case ask (CreateIoCompletionPort os) s of (bound, s) \<Rightarrow>
      if \<not> bound then Inr (False, s)
      else case ask (os_bind os) s of (b, s) \<Rightarrow>
      if \<not> b then Inr (False, s)
      else case ask (os_listen os) s of (l, s) \<Rightarrow>
      if \<not> l then Inr (False, s)
      else case GetFunctionAddress os s of (f, s) \<Rightarrow>
      if \<not> f then Inr (False, s)
      else
        bindR (start_workers os s) (\<lambda>s.
        bindR (exclusive api io_lock set_io_lock (\<lambda>s.
          bindR (foldR (\<lambda>_. standby_socket api os) [0..<maxStandbySocket s] s) (\<lambda>s. Inr ((), s))) s) (\<lambda>(_, s).
        Inr (True, s\<lparr>io_status := STATUS_RUNNING\<rparr>)))))"

text \<open>One exit signal of \<^verbatim>\<open>stopIOCP\<close>.\<close>

definition post_exit :: "'l srw_api \<Rightarrow> 'l IOCPModule \<Rightarrow> 'l IOCPModule res" where
  "post_exit api s =
     (case SocketContext_create api s of (psc, s) \<Rightarrow>
      bindR (createIOCPContext api psc DEFAULT_BUF_SIZ s) (\<lambda>(p, s).
      bindR (get_ic p s) (\<lambda>ic.
        let s = put_ic p (ic\<lparr>ic_operation := SIG_EXIT\<rparr>) s in
        Inr (s\<lparr>port_queue := port_queue s @ [(1, psc, p)]\<rparr>))))"

definition stopIOCP :: "'l srw_api \<Rightarrow> 'l IOCPModule \<Rightarrow> (bool \<times> 'l IOCPModule) res" where
  "stopIOCP api =
     exclusive api io_lock set_io_lock (\<lambda>s.
       let s = s\<lparr>io_status := STATUS_HALT\<rparr> in
       bindR (get_sc LISTEN s) (\<lambda>sc.
       bindR (foldR (\<lambda>_. post_exit api) [0..<maxThreadNum s] (closesocket (sc_socket sc) s)) (\<lambda>s.
       bindR (get_sc LISTEN s) (\<lambda>sc.
       bindR (foldR (\<lambda>e s.
           bindR (get_ic (snd e) s) (\<lambda>ic. IOCPContext_delete (snd e) (closesocket (ic_socket ic) s)))
         (IOCPContextMap sc) (s\<lparr>hIOCP := False\<rparr>)) (\<lambda>s.
       bindR (get_sc LISTEN s) (\<lambda>sc.
         Inr (True, put_sc LISTEN (sc\<lparr>IOCPContextMap := []\<rparr>) s)))))))"

definition isValidOperation :: "int \<Rightarrow> bool" where
  "isValidOperation t \<longleftrightarrow> 0 \<le> t \<and> t \<le> 5"

end
