(* ===== verification/IOCP_Receive.thy ===== *)
theory IOCP_Receive
  imports IOCP_Module
begin

text \<open>
  Receiving: how \<^verbatim>\<open>doRecv\<close> and \<^verbatim>\<open>doAccept\<close> cut a byte stream into packets. Chunks made of
  whole packets are handled packet by packet; packets that arrive in pieces are not put together.
\<close>

section \<open>Packets in a buffer\<close>

definition pkt_text :: "Packet \<times> string \<Rightarrow> string" where
  "pkt_text m = fst (createHeader (fst m)) @ snd m"

definition pkt_ok :: "Packet \<times> string \<Rightarrow> bool" where
  "pkt_ok m \<longleftrightarrow> packet_ok (fst m) \<and> int (length (snd m)) = ContentLength (fst m)"

definition pkt_head :: "Packet \<times> string \<Rightarrow> Packet" where
  "pkt_head m = snd (createHeader (fst m))"

lemma pkt_head_length:
  "pkt_ok m \<Longrightarrow> getPacketLength (pkt_head m) = int (length (pkt_text m))"
  by (simp add: pkt_ok_def pkt_head_def pkt_text_def createHeader_text getPacketLength_def)

lemma pkt_header_length:
  "pkt_ok m \<Longrightarrow> 63 \<le> length (fst (createHeader (fst m))) \<and> length (fst (createHeader (fst m))) \<le> 222"
  using header_text_length [OF header_of_ok] by (simp add: pkt_ok_def createHeader_text)

lemma pkt_text_nonempty: "pkt_ok m \<Longrightarrow> pkt_text m \<noteq> []"
  using pkt_header_length by (fastforce simp: pkt_text_def)

lemma match_at_packet:
  assumes "pkt_ok m" and "int (length (fst (createHeader (fst m)))) \<le> len" and "len \<le> int (length d)"
    and "d = fst (createHeader (fst m)) @ t"
  shows "matchHeader (Some d) len q = Inr (True, pkt_head m)"
proof -
  let ?f = "header_of (fst m)"
  have hdr: "fst (createHeader (fst m)) = header_text ?f" "pkt_head m = packet_of ?f"
    using assms(1) by (simp_all add: createHeader_text pkt_head_def pkt_ok_def packet_of_header_of)
  have len: "63 \<le> length (header_text ?f)" "length (header_text ?f) \<le> 222"
    using pkt_header_length [OF assms(1)] hdr by simp_all
  have "window d len = header_text ?f @ take (nat (min len 256) - length (header_text ?f)) t"
    using assms(2) len unfolding window_def assms(4) hdr(1) by simp
  then show ?thesis
    unfolding hdr(2) using assms(1-3) len hdr(1)
    by (intro matchHeader_header [OF _ _ header_of_ok]) (auto simp: pkt_ok_def)
qed

text \<open>Bytes that do not start with a header, and the first data of a connection: a whole packet or such bytes.\<close>

definition junk :: "string \<Rightarrow> bool" where
  "junk t \<longleftrightarrow> (\<nexists>f u. header_ok f \<and> window t (int (length t)) = header_text f @ u)"

definition first_data :: "bool \<Rightarrow> string \<Rightarrow> bool" where
  "first_data b d \<longleftrightarrow> d \<noteq> [] \<and> (if b then \<exists>m. pkt_ok m \<and> d = pkt_text m else junk d)"

lemma first_data_packet: "pkt_ok m \<Longrightarrow> first_data True (pkt_text m)"
  using pkt_text_nonempty [of m] by (auto simp: first_data_def simp del: split_paired_Ex)

lemma junk_short: "length t < 63 \<Longrightarrow> junk t"
  using header_text_length by (fastforce simp: junk_def window_def dest: arg_cong [where f = length])

lemma match_at_junk:
  assumes "junk t" and "t \<noteq> []"
  shows "matchHeader (Some (t @ r)) (int (length t)) q = Inr (False, q)"
proof (rule matchHeader_no_header)
  have "window (t @ r) (int (length t)) = window t (int (length t))" by (simp add: window_def min_def)
  then show "\<nexists>f u. header_ok f \<and> window (t @ r) (int (length t)) = header_text f @ u" using assms(1) by (simp add: junk_def)
qed (use assms(2) in simp_all)

lemma match_first_data:
  assumes "first_data b d"
  shows "\<exists>pk. matchHeader (Some (d @ r)) (int (length d)) q = Inr (b, pk) \<and> (b \<longrightarrow> getPacketLength pk = int (length d))"
proof (cases b)
  case True
  then obtain m where m: "pkt_ok m" "d = pkt_text m" using assms by (auto simp: first_data_def)
  then have "matchHeader (Some (d @ r)) (int (length d)) q = Inr (True, pkt_head m)"
    by (intro match_at_packet [where t = "snd m @ r"]) (simp_all add: pkt_text_def)
  with True m show ?thesis by (simp add: pkt_head_length)
next
  case False
  with assms match_at_junk show ?thesis by (auto simp: first_data_def)
qed

lemma splice_packet:
  assumes "pkt_ok m" and "int (length pre) + int (length (fst (createHeader (fst m)))) \<le> dataLength"
    and "dataLength \<le> int (length buf)" and "buf = pre @ fst (createHeader (fst m)) @ t"
  shows "splice buf dataLength (int (length pre)) pack n =
     splice buf dataLength (int (length pre) + int (length (pkt_text m))) (pkt_head m)
       (if int (length (pkt_text m)) \<le> dataLength - int (length pre) then Suc n else n)"
proof -
  have "matchHeader (Some (drop (nat (int (length pre))) buf)) (dataLength - int (length pre)) pack = Inr (True, pkt_head m)"
    by (rule match_at_packet [OF assms(1), where t = t]) (use assms(2-4) in auto)
  moreover have "int (length pre) < dataLength" using assms(2) pkt_header_length [OF assms(1)] by linarith
  ultimately show ?thesis
    by (subst splice.simps) (simp add: pkt_head_length [OF assms(1)])
qed

lemma splice_packets:
  "list_all pkt_ok ms \<Longrightarrow> buf = pre @ concat (map pkt_text ms) @ t \<Longrightarrow>
   dataLength = int (length pre + length (concat (map pkt_text ms)) + k) \<Longrightarrow> k \<le> length t \<Longrightarrow>
   \<exists>pack'. splice buf dataLength (int (length pre)) pack n =
     splice buf dataLength (int (length pre + length (concat (map pkt_text ms)))) pack' (n + length ms)"
proof (induction ms arbitrary: pre pack n)
  case Nil
  then show ?case by auto
next
  case (Cons m ms)
  let ?h = "fst (createHeader (fst m))"
  have m: "pkt_ok m" "list_all pkt_ok ms" using Cons.prems(1) by simp_all
  have step: "splice buf dataLength (int (length pre)) pack n =
      splice buf dataLength (int (length pre) + int (length (pkt_text m))) (pkt_head m)
        (if int (length (pkt_text m)) \<le> dataLength - int (length pre) then Suc n else n)"
    by (rule splice_packet [OF m(1), where t = "snd m @ concat (map pkt_text ms) @ t"])
      (use Cons.prems in \<open>simp_all add: pkt_text_def [of m]\<close>)
  have "\<exists>pack'. splice buf dataLength (int (length (pre @ pkt_text m))) (pkt_head m) (Suc n) =
      splice buf dataLength (int (length (pre @ pkt_text m) + length (concat (map pkt_text ms)))) pack' (Suc n + length ms)"
    by (rule Cons.IH [OF m(2)]) (use Cons.prems in simp_all)
  with step show ?case using Cons.prems(3) by (simp add: add.assoc)
qed

lemma splice_stop: "splice buf dataLength dataLength pack n = Inr (dataLength, pack, n)"
  by (subst splice.simps) simp

lemma splice_junk:
  assumes "junk t" and "buf = pre @ t @ r" and "dataLength = int (length pre + length t)"
  shows "splice buf dataLength (int (length pre)) pack n = Inr (int (length pre), pack, n)"
proof (cases "t = []")
  case False
  then have "matchHeader (Some (drop (nat (int (length pre))) buf)) (dataLength - int (length pre)) pack = Inr (False, pack)"
    using match_at_junk [OF assms(1)] assms(2,3) by simp
  then show ?thesis using assms(3) by (subst splice.simps) simp
qed (use assms(3) splice_stop in simp)

section \<open>What the operations leave alone\<close>

lemma ics_ok_hp:
  assumes "ics_ok s" and "heap_ok h"
    and "\<And>a b. blocks (hp s) a = Some b \<Longrightarrow> \<exists>b'. blocks h a = Some b' \<and> length b' = length b"
  shows "ics_ok (s\<lparr>hp := h\<rparr>)"
proof -
  have d: "dom (blocks (hp s)) \<subseteq> dom (blocks h)" using assms(3) by fastforce
  have own: "ic_owned ic \<subseteq> dom (blocks h)" if "ics s p = Some ic" for p ic
    using assms(1) that d unfolding ics_ok_def by blast
  have buf: "\<exists>b. blocks h (wsabuf_buf ic) = Some b \<and> length b = wsabuf_len ic" if "ics s p = Some ic" for p ic
    using ics_okD(4) [OF assms(1) that] assms(3) by fastforce
  show ?thesis
    unfolding ics_ok_def
  proof (intro conjI allI impI)
    fix p q ic jc assume "ics (s\<lparr>hp := h\<rparr>) p = Some ic" "ics (s\<lparr>hp := h\<rparr>) q = Some jc" "p \<noteq> q"
    then show "ic_owned ic \<inter> ic_owned jc = {}" using assms(1) unfolding ics_ok_def by simp
  qed (use assms(2) own buf ics_okD [OF assms(1)] ics_ok_next [OF assms(1)] in simp_all)
qed

text \<open>Data arriving in the buffer of an operation.\<close>

definition deliver :: "addr \<Rightarrow> string \<Rightarrow> 'l IOCPModule \<Rightarrow> 'l IOCPModule res" where
  "deliver p d s =
     bindR (get_ic p s) (\<lambda>ic.
     bindR (write_cells (wsabuf_buf ic) 0 (map Some d) (hp s)) (\<lambda>h. Inr (s\<lparr>hp := h\<rparr>)))"

lemma scs_ok_hp: "scs_ok api (s\<lparr>hp := h\<rparr>) = scs_ok api s"
  by (simp add: scs_ok_def sc_ok_def)

lemma io_ok_put_ic:
  assumes "io_ok api s" and "ics s q = Some ic" and "same_buffers ic jc" and "contextIndex jc = contextIndex ic"
  shows "io_ok api (put_ic q jc s)"
proof -
  have "scs_ok api (put_ic q jc s)"
    by (rule scs_ok_mono [of api s]) (use assms in \<open>auto simp: io_ok_def put_ic_def\<close>)
  with ics_ok_put_ic [of s q ic jc] assms show ?thesis by (simp add: io_ok_def)
qed

text \<open>Overwriting the buffer of an operation.\<close>

lemma write_buffer_ok:
  assumes "io_ok api s" and "ics s p = Some ic" and "length cs \<le> wsabuf_len ic"
  shows "\<exists>h b. write_cells (wsabuf_buf ic) 0 cs (hp s) = Inr h \<and> io_ok api (s\<lparr>hp := h\<rparr>) \<and>
     blocks h = (blocks (hp s))(wsabuf_buf ic \<mapsto> cs @ drop (length cs) b) \<and> length b = wsabuf_len ic"
proof -
  have ok: "ics_ok s" using assms(1) by (simp add: io_ok_def)
  note ic = ics_okD [OF ok assms(2)]
  from ic(4) obtain b where b: "blocks (hp s) (wsabuf_buf ic) = Some b" "length b = wsabuf_len ic" by blast
  define h where "h = (hp s)\<lparr>blocks := (blocks (hp s))(wsabuf_buf ic \<mapsto> cs @ drop (length cs) b)\<rparr>"
  have w: "write_cells (wsabuf_buf ic) 0 cs (hp s) = Inr h"
    using b ic(5) assms(3) by (simp add: write_cells_def h_def)
  have "heap_ok (hp s)" using ok by (simp add: ics_ok_def)
  then have hok: "heap_ok h" unfolding h_def using b(1) by (rule heap_ok_update)
  have "ics_ok (s\<lparr>hp := h\<rparr>)"
    by (rule ics_ok_hp [OF ok hok]) (use b assms(3) in \<open>auto simp: h_def\<close>)
  then have "io_ok api (s\<lparr>hp := h\<rparr>)" using assms(1) by (simp add: io_ok_def scs_ok_hp)
  with w b(2) show ?thesis by (auto simp: h_def)
qed

lemma ResetBuffer_ok:
  assumes "io_ok api s" and "ics s p = Some ic"
  shows "\<exists>h. ResetBuffer p s = Inr (s\<lparr>hp := h\<rparr>) \<and> io_ok api (s\<lparr>hp := h\<rparr>) \<and>
     (\<forall>a. a \<noteq> wsabuf_buf ic \<longrightarrow> blocks h a = blocks (hp s) a)"
proof -
  have "get_ic p s = Inr ic" using assms ics_okD(3) by (auto simp: io_ok_def)
  moreover obtain h b where "write_cells (wsabuf_buf ic) 0 (replicate (wsabuf_len ic) (Some (CHR 0x00))) (hp s) = Inr h"
    "io_ok api (s\<lparr>hp := h\<rparr>)" "blocks h = (blocks (hp s))(wsabuf_buf ic \<mapsto> replicate (wsabuf_len ic) (Some (CHR 0x00)) @ drop (wsabuf_len ic) b)"
    using write_buffer_ok [OF assms, of "replicate (wsabuf_len ic) (Some (CHR 0x00))"] by auto
  ultimately show ?thesis by (auto simp: ResetBuffer_def zero_memory_def)
qed

lemma io_ok_cong:
  "hp s' = hp s \<Longrightarrow> ics s' = ics s \<Longrightarrow> scs s' = scs s \<Longrightarrow> next_obj s' = next_obj s \<Longrightarrow>
     io_ok api s' = io_ok api s"
  by (simp add: io_ok_def ics_ok_def scs_ok_def sc_ok_def)

text \<open>What posting a receive leaves as it was.\<close>

definition io_frame :: "'l IOCPModule \<Rightarrow> 'l IOCPModule \<Rightarrow> bool" where
  "io_frame s s' \<longleftrightarrow>
     scs s' = scs s \<and> calls s' = calls s \<and> callbackInvokedNum s' = callbackInvokedNum s \<and>
     socketContextMap s' = socketContextMap s \<and> port_queue s' = port_queue s \<and> io_lock s' = io_lock s \<and>
     bufferSize s' = bufferSize s \<and> pRecvCallback s' = pRecvCallback s \<and> pSendCallback s' = pSendCallback s \<and>
     io_status s' = io_status s \<and> maxThreadNum s' = maxThreadNum s \<and> next_obj s' = next_obj s \<and> io_counts s' = io_counts s"

lemma postRecv_ok:
  assumes "io_ok api s" and "ics s p = Some ic"
  shows "\<exists>s'. postRecv os p s = Inr (WSARecv os (tick s), s') \<and> io_ok api s' \<and> io_frame s s' \<and>
     ics s' = (ics s)(p \<mapsto> ic\<lparr>ic_operation := SIG_RECV\<rparr>) \<and> next_obj s' = next_obj s \<and>
     pending s' = (if WSARecv os (tick s) then [p] else []) @ pending s \<and>
     (\<forall>a. a \<noteq> wsabuf_buf ic \<longrightarrow> blocks (hp s') a = blocks (hp s) a)"
proof -
  obtain h where h: "ResetBuffer p s = Inr (s\<lparr>hp := h\<rparr>)" "io_ok api (s\<lparr>hp := h\<rparr>)"
    "\<forall>a. a \<noteq> wsabuf_buf ic \<longrightarrow> blocks h a = blocks (hp s) a"
    using ResetBuffer_ok [OF assms] by blast
  define s' where "s' = s\<lparr>hp := h, ics := (ics s)(p \<mapsto> ic\<lparr>ic_operation := SIG_RECV\<rparr>), tick := Suc (tick s),
         pending := (if WSARecv os (tick s) then [p] else []) @ pending s\<rparr>"
  have "get_ic p (s\<lparr>hp := h\<rparr>) = Inr ic" using h(2) assms(2) ics_okD(3) [of "s\<lparr>hp := h\<rparr>" p ic] by (simp add: io_ok_def)
  then have "postRecv os p s = Inr (WSARecv os (tick s), s')"
    using h(1) by (auto simp: postRecv_def ask_def put_ic_def Let_def s'_def)
  moreover have "io_ok api (put_ic p (ic\<lparr>ic_operation := SIG_RECV\<rparr>) (s\<lparr>hp := h\<rparr>))"
    by (rule io_ok_put_ic [OF h(2)]) (use assms(2) in \<open>auto simp: same_buffers_def\<close>)
  then have "io_ok api s'" by (subst io_ok_cong) (simp_all add: s'_def put_ic_def)
  ultimately show ?thesis using h(3) by (auto simp: s'_def io_frame_def io_counts_def)
qed

lemma deliver_ok:
  assumes "io_ok api s" and "ics s p = Some ic" and "length d \<le> wsabuf_len ic"
  shows "\<exists>h rest. deliver p d s = Inr (s\<lparr>hp := h\<rparr>) \<and> io_ok api (s\<lparr>hp := h\<rparr>) \<and>
     blocks h = (blocks (hp s))(wsabuf_buf ic \<mapsto> map Some d @ rest) \<and> length d + length rest = wsabuf_len ic"
proof -
  have "get_ic p s = Inr ic" using assms(1,2) ics_okD(3) by (auto simp: io_ok_def)
  moreover obtain h b where "write_cells (wsabuf_buf ic) 0 (map Some d) (hp s) = Inr h" "io_ok api (s\<lparr>hp := h\<rparr>)"
    "blocks h = (blocks (hp s))(wsabuf_buf ic \<mapsto> map Some d @ drop (length d) b)" "length b = wsabuf_len ic"
    using write_buffer_ok [OF assms(1,2), of "map Some d"] assms(3) by auto
  ultimately show ?thesis
    using assms(3) by (intro exI [of _ h] exI [of _ "drop (length d) b"]) (simp add: deliver_def)
qed

lemma peek_delivered:
  "p \<noteq> 0 \<Longrightarrow> blocks h p = Some (map Some d @ rest) \<Longrightarrow> peek p 0 h = Inr (d @ map cell_char rest)"
  by (simp add: peek_def comp_def cell_char_def)

lemma repeat_callback_eq:
  "repeat_callback n pSC d len s =
     s\<lparr>calls := calls s @ replicate n (RecvCall (pRecvCallback s) pSC (Some d) len)\<rparr>"
proof (induction n arbitrary: s)
  case (Suc n)
  have "replicate n x @ [x] = x # replicate n x" for x :: call by (simp add: replicate_append_same)
  with Suc show ?case by (simp add: run_recv_callback_def)
qed simp

text \<open>A chunk of data arrives and its completion is handled.\<close>

definition recv_chunk :: "os \<Rightarrow> addr \<Rightarrow> addr \<Rightarrow> string \<Rightarrow> 'l IOCPModule \<Rightarrow> (bool \<times> 'l IOCPModule) res" where
  "recv_chunk os pSC p d s = bindR (deliver p d s) (doRecv os pSC p (int (length d)))"

section \<open>Whole packets\<close>

lemma doRecv_packets:
  assumes "io_ok api s" and "ics s p = Some ic" and "\<not> prevFlag ic" and "list_all pkt_ok ms" and "junk t"
    and "d = concat (map pkt_text ms) @ t" and "length d \<le> wsabuf_len ic"
  shows "\<exists>s'. recv_chunk os pSC p d s = Inr (WSARecv os (tick s), s') \<and>
     io_ok api s' \<and> ics s' = (ics s)(p \<mapsto> ic\<lparr>ic_operation := SIG_RECV\<rparr>) \<and> scs s' = scs s \<and>
     calls s' = calls s @ replicate (length ms) (RecvCall (pRecvCallback s) pSC (Some d) (int (length d))) \<and>
     callbackInvokedNum s' = callbackInvokedNum s \<and> pRecvCallback s' = pRecvCallback s \<and>
     pending s' = (if WSARecv os (tick s) then [p] else []) @ pending s \<and> socketContextMap s' = socketContextMap s \<and>
     port_queue s' = port_queue s \<and> io_lock s' = io_lock s \<and> next_obj s' = next_obj s \<and> io_counts s' = io_counts s"
proof -
  obtain h rest where h: "deliver p d s = Inr (s\<lparr>hp := h\<rparr>)" "io_ok api (s\<lparr>hp := h\<rparr>)"
    "blocks h = (blocks (hp s))(wsabuf_buf ic \<mapsto> map Some d @ rest)"
    using deliver_ok [OF assms(1,2,7)] by blast
  have ok: "ics_ok s" "ics_ok (s\<lparr>hp := h\<rparr>)" using assms(1) h(2) by (simp_all add: io_ok_def)
  have g: "get_ic p (s\<lparr>hp := h\<rparr>) = Inr ic" using ics_okD(3) [OF ok(2)] assms(2) by simp
  have pk: "peek (wsabuf_buf ic) 0 h = Inr (d @ map cell_char rest)"
    using ics_okD(5) [OF ok(1) assms(2)] h(3) by (intro peek_delivered) simp_all
  let ?n = "length (concat (map pkt_text ms))"
  obtain pack where sp: "splice (d @ map cell_char rest) (int (length d)) 0 Packet_default 0 = Inr (int ?n, pack, length ms)"
    using splice_packets [OF assms(4), of "d @ map cell_char rest" "[]" "t @ map cell_char rest" "int (length d)" "length t" Packet_default 0]
      splice_junk [OF assms(5), of "d @ map cell_char rest" "concat (map pkt_text ms)" "map cell_char rest" "int (length d)"]
      assms(6) by auto
  have le: "\<not> int ?n > int (length d)" using assms(6) by simp
  define s1 where "s1 = s\<lparr>hp := h, calls := calls s @ replicate (length ms) (RecvCall (pRecvCallback s) pSC (Some d) (int (length d)))\<rparr>"
  have "io_ok api s1" using h(2) io_ok_cong [of s1 "s\<lparr>hp := h\<rparr>"] by (simp add: s1_def)
  moreover have "ics s1 p = Some ic" using assms(2) by (simp add: s1_def)
  ultimately obtain s' where s': "postRecv os p s1 = Inr (WSARecv os (tick s1), s')" "io_ok api s'" "io_frame s1 s'"
    "ics s' = (ics s1)(p \<mapsto> ic\<lparr>ic_operation := SIG_RECV\<rparr>)" "pending s' = (if WSARecv os (tick s1) then [p] else []) @ pending s1"
    using postRecv_ok by blast
  have "doRecv os pSC p (int (length d)) (s\<lparr>hp := h\<rparr>) = postRecv os p s1"
    unfolding doRecv_def using g pk sp le assms(3) by (simp add: repeat_callback_eq s1_def Let_def del: of_nat_less_iff)
  with h(1) s' show ?thesis by (auto simp: recv_chunk_def s1_def io_frame_def io_counts_def)
qed

section \<open>Packets in pieces\<close>

text \<open>An operation that starts to keep data gets an array of its own.\<close>

lemma ics_ok_set_prev:
  assumes "ics_ok s" and "ics s p = Some ic" and "heap_ok h"
    and "\<And>a b. blocks (hp s) a = Some b \<Longrightarrow> \<exists>b'. blocks h a = Some b' \<and> length b' = length b"
    and "blocks (hp s) prev = None" and "blocks h prev \<noteq> None"
    and "wsabuf_len jc = wsabuf_len ic" "wsabuf_buf jc = wsabuf_buf ic" "prevFlag jc" "prevData jc = prev"
  shows "ics_ok ((put_ic p jc s)\<lparr>hp := h\<rparr>)"
proof -
  let ?s = "(put_ic p jc s)\<lparr>hp := h\<rparr>"
  have d: "dom (blocks (hp s)) \<subseteq> dom (blocks h)" using assms(4) by fastforce
  have own: "ic_owned kc \<subseteq> dom (blocks (hp s))" if "ics s q = Some kc" for q kc
    using assms(1) that unfolding ics_ok_def by blast
  have jc: "ic_owned jc \<subseteq> insert prev (ic_owned ic)" using assms(7-10) by (auto simp: ic_owned_def)
  have fresh: "prev \<notin> ic_owned kc" if "ics s q = Some kc" for q kc
    using own [OF that] assms(5) by auto
  have dis: "ic_owned kc \<inter> ic_owned lc = {}" if "ics s a = Some kc" "ics s b = Some lc" "a \<noteq> b" for a b kc lc
    using assms(1) that unfolding ics_ok_def by blast
  have old: "(q = p \<and> kc = jc) \<or> (q \<noteq> p \<and> ics s q = Some kc)" if "ics ?s q = Some kc" for q kc
    using that by (auto simp: put_ic_def split: if_splits)
  show ?thesis
    unfolding ics_ok_def
  proof (intro conjI allI impI)
    fix q kc assume q: "ics ?s q = Some kc"
    obtain kc0 where kc0: "ics s q = Some kc0" "wsabuf_len kc = wsabuf_len kc0" "wsabuf_buf kc = wsabuf_buf kc0"
      using old [OF q] assms(2,7,8) by auto
    note k = ics_okD [OF assms(1) kc0(1)]
    show "q \<noteq> 0" "q < next_obj ?s" "0 < wsabuf_len kc" using k kc0 by (simp_all add: put_ic_def)
    show "\<exists>b. blocks (hp ?s) (wsabuf_buf kc) = Some b \<and> length b = wsabuf_len kc"
      using k(4) kc0 assms(4) by fastforce
    show "ic_owned kc \<subseteq> dom (blocks (hp ?s))"
    proof -
      have "ic_owned kc \<subseteq> insert prev (dom (blocks (hp s)))"
        using old [OF q] own [of q kc] own [OF assms(2)] jc by blast
      moreover have "prev \<in> dom (blocks h)" using assms(6) by auto
      ultimately show ?thesis using d by auto
    qed
    show "prevData kc \<noteq> wsabuf_buf kc" if "prevFlag kc"
      using old [OF q] ics_okD(7) [OF assms(1), of q kc] that assms(8,10) fresh [OF assms(2)] by (auto simp: ic_owned_def)
  next
    fix a b kc lc assume ab: "ics ?s a = Some kc" "ics ?s b = Some lc" "a \<noteq> b"
    then show "ic_owned kc \<inter> ic_owned lc = {}"
      using old [OF ab(1)] old [OF ab(2)] dis [of a kc b lc] dis [OF assms(2), of b lc] dis [OF _ assms(2), of a kc]
        jc fresh [of a kc] fresh [of b lc] by blast
  qed (use assms(3) ics_ok_next [OF assms(1)] in \<open>simp_all add: put_ic_def\<close>)
qed

lemma scs_ok_put_ic_hp:
  assumes "scs_ok api s" and "ics s p = Some ic" and "contextIndex jc = contextIndex ic"
  shows "scs_ok api ((put_ic p jc s)\<lparr>hp := h\<rparr>)"
  by (rule scs_ok_mono [OF assms(1)]) (use assms(2,3) in \<open>auto simp: put_ic_def\<close>)

lemma keep_rest_ok:
  assumes "io_ok api s" and "ics s p = Some ic" and "count = getPacketLength pack" and "dataLength < count"
  shows "if count - dataLength \<le> int (wsabuf_len ic)
     then \<exists>s'. keep_rest p count dataLength pack s = Inr s' \<and> io_ok api s' \<and> io_frame s s' \<and> tick s' = tick s \<and>
       (\<exists>prev. ics s' = (ics s)(p \<mapsto> ic\<lparr>prevFlag := True, bytesToRecv := count - dataLength, prevData := prev\<rparr>))
     else keep_rest p count dataLength pack s = Inl OutOfBounds"
proof -
  have ok: "ics_ok s" "scs_ok api s" "heap_ok (hp s)" using assms(1) by (simp_all add: io_ok_def ics_ok_def)
  note ic = ics_okD [OF ok(1) assms(2)]
  from ic(4) obtain b where b: "blocks (hp s) (wsabuf_buf ic) = Some b" "length b = wsabuf_len ic" by blast
  define n where "n = nat (count - dataLength)"
  obtain prev h0 where a: "new_array n (hp s) = (prev, h0)" by (metis prod.exhaust)
  have prev: "prev \<noteq> 0" "blocks (hp s) prev = None" "heap_ok h0" "prev \<noteq> wsabuf_buf ic"
    using new_array_fresh [OF ok(3) a] new_array_ok [OF ok(3) a] b by auto
  have b0: "blocks h0 = (blocks (hp s))(prev \<mapsto> replicate n None)" by (rule new_array_blocks [OF a])
  define h1 where "h1 = h0\<lparr>blocks := (blocks h0)(prev \<mapsto> replicate n (Some (CHR 0x00)))\<rparr>"
  have p0: "blocks h0 prev = Some (replicate n None)" using b0 by simp
  have z: "zero_memory prev n h0 = Inr h1" unfolding h1_def by (rule zero_memory_ok [OF p0 _ prev(1)]) simp
  have h1: "heap_ok h1" "blocks h1 prev = Some (replicate n (Some (CHR 0x00)))" "blocks h1 (wsabuf_buf ic) = Some b"
    unfolding h1_def using heap_ok_update [OF prev(3) p0] b0 b prev(4) by auto
  show ?thesis
  proof (cases "count - dataLength \<le> int (wsabuf_len ic)")
    case True
    define h2 where "h2 = h1\<lparr>blocks := (blocks h1)(prev \<mapsto> take n b)\<rparr>"
    have cp: "memcpy prev 0 (wsabuf_buf ic) 0 n h1 = Inr h2"
      using True h1 b prev(1) ic(5) by (simp add: memcpy_def read_cells_def write_cells_def h2_def n_def)
    let ?jc = "ic\<lparr>prevFlag := True, bytesToRecv := count - dataLength, prevData := prev\<rparr>"
    let ?s = "(put_ic p ?jc s)\<lparr>hp := h2\<rparr>"
    have run: "keep_rest p count dataLength pack s = Inr ?s"
      using ic(3) a z cp assms(3) by (simp add: keep_rest_def n_def Let_def)
    have "ics_ok ?s"
      by (rule ics_ok_set_prev [OF ok(1) assms(2) _ _ prev(2)])
        (use heap_ok_update [OF h1(1,2)] b0 prev(2) in \<open>auto simp: h2_def h1_def\<close>)
    moreover have "scs_ok api ?s" by (rule scs_ok_put_ic_hp [OF ok(2) assms(2)]) simp
    ultimately show ?thesis using True run by (auto simp: io_ok_def io_frame_def put_ic_def)
  next
    case False
    then have "wsabuf_len ic < n" by (simp add: n_def)
    then have "memcpy prev 0 (wsabuf_buf ic) 0 n h1 = Inl OutOfBounds"
      using h1 b ic(5) by (simp add: memcpy_def read_cells_def)
    with False ic(3) a z assms(3) show ?thesis by (simp add: keep_rest_def n_def Let_def)
  qed
qed

lemma recv_chunk_start:
  assumes "io_ok api s" and "ics s p = Some ic" and "length d \<le> wsabuf_len ic"
  shows "\<exists>h rest. recv_chunk os pSC p d s = doRecv os pSC p (int (length d)) (s\<lparr>hp := h\<rparr>) \<and> io_ok api (s\<lparr>hp := h\<rparr>) \<and>
     get_ic p (s\<lparr>hp := h\<rparr>) = Inr ic \<and> peek (wsabuf_buf ic) 0 h = Inr (d @ rest)"
proof -
  obtain h rest where h: "deliver p d s = Inr (s\<lparr>hp := h\<rparr>)" "io_ok api (s\<lparr>hp := h\<rparr>)"
    "blocks h = (blocks (hp s))(wsabuf_buf ic \<mapsto> map Some d @ rest)"
    using deliver_ok [OF assms] by blast
  have ok: "ics_ok s" "ics_ok (s\<lparr>hp := h\<rparr>)" using assms(1) h(2) by (simp_all add: io_ok_def)
  have "get_ic p (s\<lparr>hp := h\<rparr>) = Inr ic" using ics_okD(3) [OF ok(2)] assms(2) by simp
  moreover have "peek (wsabuf_buf ic) 0 h = Inr (d @ map cell_char rest)"
    using ics_okD(5) [OF ok(1) assms(2)] h(3) by (intro peek_delivered) simp_all
  ultimately show ?thesis using h(1,2) by (auto simp: recv_chunk_def)
qed

text \<open>The first part of a packet, at least its header, arrives at an operation that keeps nothing.\<close>

lemma doRecv_first_part:
  assumes "io_ok api s" and "ics s p = Some ic" and "\<not> prevFlag ic" and "pkt_ok m" and "pkt_text m = d @ missing"
    and "missing \<noteq> []" and "length (fst (createHeader (fst m))) \<le> length d" and "length d \<le> wsabuf_len ic"
  shows "if length missing \<le> wsabuf_len ic
     then \<exists>s' prev. recv_chunk os pSC p d s = Inr (WSARecv os (tick s), s') \<and> io_ok api s' \<and> io_frame s s' \<and>
       ics s' = (ics s)(p \<mapsto> ic\<lparr>prevFlag := True, bytesToRecv := int (length missing), prevData := prev, ic_operation := SIG_RECV\<rparr>)
     else recv_chunk os pSC p d s = Inl OutOfBounds"
proof -
  obtain h rest where h: "recv_chunk os pSC p d s = doRecv os pSC p (int (length d)) (s\<lparr>hp := h\<rparr>)"
    "io_ok api (s\<lparr>hp := h\<rparr>)" "get_ic p (s\<lparr>hp := h\<rparr>) = Inr ic" "peek (wsabuf_buf ic) 0 h = Inr (d @ rest)"
    using recv_chunk_start [OF assms(1,2,8)] by blast
  let ?hd = "fst (createHeader (fst m))" and ?len = "int (length (pkt_text m))"
  have d: "d = ?hd @ drop (length ?hd) d"
    using assms(5,7) unfolding pkt_text_def by (metis append_eq_append_conv_if append_take_drop_id)
  have lt: "int (length d) < ?len" using assms(5,6) by simp
  have "splice (d @ rest) (int (length d)) (int (length ([] :: string))) Packet_default 0 =
      splice (d @ rest) (int (length d)) (int (length ([] :: string)) + ?len) (pkt_head m)
        (if ?len \<le> int (length d) - int (length ([] :: string)) then Suc 0 else 0)"
    by (rule splice_packet [OF assms(4), where t = "drop (length ?hd) d @ rest"]) (use assms(7) d in auto)
  then have sp: "splice (d @ rest) (int (length d)) 0 Packet_default 0 = Inr (?len, pkt_head m, 0)"
    using lt by (simp add: splice.simps [of _ _ ?len])
  have run: "recv_chunk os pSC p d s =
      bindR (keep_rest p ?len (int (length d)) (pkt_head m) (s\<lparr>hp := h\<rparr>)) (postRecv os p)"
    unfolding h(1) doRecv_def using h(3,4) sp assms(3) lt by simp
  have miss: "?len - int (length d) = int (length missing)" using assms(5) by simp
  have ic: "ics (s\<lparr>hp := h\<rparr>) p = Some ic" using assms(2) by simp
  note kr = keep_rest_ok [OF h(2) ic pkt_head_length [OF assms(4), symmetric] lt]
  show ?thesis
  proof (cases "length missing \<le> wsabuf_len ic")
    case True
    with kr miss obtain s1 prev where s1: "keep_rest p ?len (int (length d)) (pkt_head m) (s\<lparr>hp := h\<rparr>) = Inr s1"
      "io_ok api s1" "io_frame (s\<lparr>hp := h\<rparr>) s1" "tick s1 = tick s"
      "ics s1 = (ics s)(p \<mapsto> ic\<lparr>prevFlag := True, bytesToRecv := int (length missing), prevData := prev\<rparr>)"
      by auto
    have "ics s1 p = Some (ic\<lparr>prevFlag := True, bytesToRecv := int (length missing), prevData := prev\<rparr>)"
      by (simp add: s1(5))
    from postRecv_ok [OF s1(2) this, of os] obtain s2 where
      "postRecv os p s1 = Inr (WSARecv os (tick s1), s2)" "io_ok api s2" "io_frame s1 s2"
      "ics s2 = (ics s1)(p \<mapsto> ic\<lparr>prevFlag := True, bytesToRecv := int (length missing), prevData := prev, ic_operation := SIG_RECV\<rparr>)"
      by auto
    with True run s1 show ?thesis by (auto simp: io_frame_def)
  next
    case False
    with kr miss run show ?thesis by simp
  qed
qed

text \<open>Giving up what was kept.\<close>

lemma drop_prev_ok:
  assumes "io_ok api s" and "ics s p = Some ic" and "prevFlag ic"
  shows "\<exists>s'. drop_prev p s = Inr s' \<and> io_ok api s' \<and> io_frame s s' \<and> tick s' = tick s \<and>
     ics s' = (ics s)(p \<mapsto> ic\<lparr>prevFlag := False, bytesToRecv := 0\<rparr>)"
proof -
  have ok: "ics_ok s" "scs_ok api s" "heap_ok (hp s)" using assms(1) by (simp_all add: io_ok_def ics_ok_def)
  note ic = ics_okD [OF ok(1) assms(2)]
  from ic(7) [OF assms(3)] obtain b where b: "blocks (hp s) (prevData ic) = Some b" "prevData ic \<noteq> 0" "prevData ic \<noteq> wsabuf_buf ic"
    by blast
  define h where "h = (hp s)\<lparr>blocks := (blocks (hp s))(prevData ic := None)\<rparr>"
  have del: "delete_array (prevData ic) (hp s) = Inr h" unfolding h_def by (rule delete_array_live [OF b(1,2)])
  let ?jc = "ic\<lparr>prevFlag := False, bytesToRecv := 0\<rparr>" and ?s = "(put_ic p (ic\<lparr>prevFlag := False, bytesToRecv := 0\<rparr>) s)\<lparr>hp := h\<rparr>"
  have old: "(q = p \<and> kc = ?jc) \<or> (q \<noteq> p \<and> ics s q = Some kc)" if "ics ?s q = Some kc" for q kc
    using that by (auto simp: put_ic_def split: if_splits)
  have own: "ic_owned kc \<subseteq> dom (blocks (hp s))" if "ics s q = Some kc" for q kc
    using ok(1) that unfolding ics_ok_def by blast
  have dis: "ic_owned kc \<inter> ic_owned lc = {}" if "ics s a = Some kc" "ics s c = Some lc" "a \<noteq> c" for a c kc lc
    using ok(1) that unfolding ics_ok_def by blast
  have prev: "prevData ic \<in> ic_owned ic" "ic_owned ?jc = {wsabuf_buf ic}" "wsabuf_buf ic \<in> ic_owned ic"
    using assms(3) by (auto simp: ic_owned_def)
  have sub: "\<exists>kc0. ics s q = Some kc0 \<and> ic_owned kc \<subseteq> ic_owned kc0" if "ics ?s q = Some kc" for q kc
    using old [OF that] prev(2,3) assms(2) by (metis insert_subset empty_subsetI order_refl)
  have "ics_ok ?s"
    unfolding ics_ok_def
  proof (intro conjI allI impI)
    fix q kc assume q: "ics ?s q = Some kc"
    obtain kc0 where kc0: "ics s q = Some kc0" "wsabuf_len kc = wsabuf_len kc0" "wsabuf_buf kc = wsabuf_buf kc0"
      using old [OF q] assms(2) by auto
    note k = ics_okD [OF ok(1) kc0(1)]
    have ne: "prevData ic \<notin> ic_owned kc"
      using old [OF q] dis [OF assms(2), of q kc] prev b(3) by auto
    show "q \<noteq> 0" "q < next_obj ?s" "0 < wsabuf_len kc" using k kc0 by (simp_all add: put_ic_def)
    have "ic_owned kc \<subseteq> dom (blocks (hp s))" using sub [OF q] own by (metis order_trans)
    with ne show "ic_owned kc \<subseteq> dom (blocks (hp ?s))" by (simp add: h_def) blast
    have "wsabuf_buf kc \<noteq> prevData ic" using ne by (auto simp: ic_owned_def)
    then show "\<exists>b. blocks (hp ?s) (wsabuf_buf kc) = Some b \<and> length b = wsabuf_len kc"
      using k(4) kc0(2,3) by (simp add: h_def)
    show "prevData kc \<noteq> wsabuf_buf kc" if "prevFlag kc"
      using old [OF q] ics_okD(7) [OF ok(1), of q kc] that by auto
  next
    fix a c kc lc assume ac: "ics ?s a = Some kc" "ics ?s c = Some lc" "a \<noteq> c"
    obtain kc0 lc0 where "ics s a = Some kc0" "ic_owned kc \<subseteq> ic_owned kc0"
        and "ics s c = Some lc0" "ic_owned lc \<subseteq> ic_owned lc0"
      using sub [OF ac(1)] sub [OF ac(2)] by metis
    then show "ic_owned kc \<inter> ic_owned lc = {}" using dis [of a kc0 c lc0] ac(3) by blast
  qed (use ok(3) ics_ok_next [OF ok(1)] in \<open>simp_all add: h_def heap_ok_delete put_ic_def\<close>)
  moreover have "scs_ok api ?s" by (rule scs_ok_put_ic_hp [OF ok(2) assms(2)]) simp
  moreover have "drop_prev p s = Inr ?s" using ic(3) del by (simp add: drop_prev_def)
  ultimately show ?thesis by (auto simp: io_ok_def io_frame_def put_ic_def)
qed

text \<open>
  A second chunk for an operation whose \<^verbatim>\<open>packet\<close> was never set: one that is not the last is copied
  to a place before the array, the last one is all the callback gets.
\<close>

lemma doRecv_second_part:
  assumes "io_ok api s" and "ics s p = Some ic" and "prevFlag ic" and "ic_packet ic = Packet_default"
    and "int (length d) < bytesToRecv ic" and "length d \<le> wsabuf_len ic"
  shows "recv_chunk os pSC p d s = Inl OutOfBounds"
proof -
  obtain h rest where h: "recv_chunk os pSC p d s = doRecv os pSC p (int (length d)) (s\<lparr>hp := h\<rparr>)"
    "get_ic p (s\<lparr>hp := h\<rparr>) = Inr ic" "peek (wsabuf_buf ic) 0 h = Inr (d @ rest)"
    using recv_chunk_start [OF assms(1,2,6)] by blast
  have "append_prev ic (int (length d)) h = Inl OutOfBounds"
    using assms(4,5) by (simp add: append_prev_def Packet_default_def getPacketLength_def)
  with h assms(3,5) show ?thesis by (simp add: doRecv_def)
qed

lemma doRecv_last_part:
  assumes "io_ok api s" and "ics s p = Some ic" and "prevFlag ic" and "bytesToRecv ic = int (length d)"
    and "length d \<le> wsabuf_len ic"
  shows "\<exists>s'. recv_chunk os pSC p d s = Inr (WSARecv os (tick s), s') \<and>
     calls s' = calls s @ [RecvCall (pRecvCallback s) pSC (Some d) (int (length d))] \<and>
     (\<exists>ic'. ics s' p = Some ic' \<and> \<not> prevFlag ic')"
proof -
  obtain h rest where h: "recv_chunk os pSC p d s = doRecv os pSC p (int (length d)) (s\<lparr>hp := h\<rparr>)"
    "io_ok api (s\<lparr>hp := h\<rparr>)" "get_ic p (s\<lparr>hp := h\<rparr>) = Inr ic" "peek (wsabuf_buf ic) 0 h = Inr (d @ rest)"
    using recv_chunk_start [OF assms(1,2,5)] by blast
  define s1 where "s1 = (s\<lparr>hp := h\<rparr>)\<lparr>callbackInvokedNum := callbackInvokedNum s + 1,
      calls := calls s @ [RecvCall (pRecvCallback s) pSC (Some d) (int (length d))]\<rparr>"
  have "io_ok api s1" using h(2) io_ok_cong [of s1 "s\<lparr>hp := h\<rparr>"] by (simp add: s1_def)
  moreover have "ics s1 p = Some ic" using assms(2) by (simp add: s1_def)
  ultimately obtain s2 where s2: "drop_prev p s1 = Inr s2" "io_ok api s2" "io_frame s1 s2" "tick s2 = tick s1"
    "ics s2 = (ics s1)(p \<mapsto> ic\<lparr>prevFlag := False, bytesToRecv := 0\<rparr>)"
    using drop_prev_ok assms(3) by blast
  then have "ics s2 p = Some (ic\<lparr>prevFlag := False, bytesToRecv := 0\<rparr>)" by simp
  from postRecv_ok [OF s2(2) this, of os] obtain s3 where s3: "postRecv os p s2 = Inr (WSARecv os (tick s2), s3)"
    "io_frame s2 s3" "ics s3 = (ics s2)(p \<mapsto> ic\<lparr>prevFlag := False, bytesToRecv := 0, ic_operation := SIG_RECV\<rparr>)"
    by auto
  have "doRecv os pSC p (int (length d)) (s\<lparr>hp := h\<rparr>) = bindR (drop_prev p s1) (postRecv os p)"
    unfolding doRecv_def using h(3,4) assms(3,4)
    by (simp add: repeat_callback_eq count_callbacks_def s1_def)
  with h(1) s2 s3 show ?thesis by (simp add: io_frame_def s1_def)
qed

section \<open>The splicing loop ends\<close>

lemma matchHeader_step:
  assumes "matchHeader (Some d) len p = Inr (True, q)"
  shows "63 \<le> getPacketLength q"
proof -
  obtain f t where f: "header_ok f" "q = packet_of f"
    using matchHeader_true [OF assms] by blast
  show ?thesis using header_text_length [OF f(1)] by (simp add: f(2) packet_of_def getPacketLength_def)
qed

lemma matchHeader_total: "len \<le> int (length d) \<Longrightarrow> \<exists>r. matchHeader (Some d) len p = Inr r"
  by (auto simp: matchHeader_def Let_def split: option.split)

lemma splice_result:
  "0 \<le> count \<Longrightarrow> dataLength \<le> int (length buf) \<Longrightarrow>
   \<exists>count' pack' k. splice buf dataLength count pack n = Inr (count', pack', n + k) \<and>
     count \<le> count' \<and> int (63 * k) \<le> count' - count \<and> (count \<le> dataLength \<longrightarrow> int (63 * k) \<le> dataLength - count)"
proof (induction buf dataLength count pack n rule: splice.induct)
  case (1 buf dataLength count pack n)
  show ?case
  proof (cases "count < dataLength")
    case False
    then show ?thesis by (subst splice.simps) simp
  next
    case True
    have "dataLength - count \<le> int (length (drop (nat count) buf))" using "1.prems" by simp
    then obtain b q where m: "matchHeader (Some (drop (nat count) buf)) (dataLength - count) pack = Inr (b, q)"
      using matchHeader_total by (metis prod.collapse)
    show ?thesis
    proof (cases b)
      case False
      with m True show ?thesis by (subst splice.simps) simp
    next
      case b: True
      let ?n = "if getPacketLength q \<le> dataLength - count then Suc n else n"
      have q: "63 \<le> getPacketLength q" using m b by (auto intro: matchHeader_step)
      have "\<exists>c' p' k. splice buf dataLength (count + getPacketLength q) q ?n = Inr (c', p', ?n + k) \<and>
          count + getPacketLength q \<le> c' \<and> int (63 * k) \<le> c' - (count + getPacketLength q) \<and>
          (count + getPacketLength q \<le> dataLength \<longrightarrow> int (63 * k) \<le> dataLength - (count + getPacketLength q))"
        using "1.IH" [OF True m] b q "1.prems" by simp
      then obtain c' p' k where k: "splice buf dataLength (count + getPacketLength q) q ?n = Inr (c', p', ?n + k)"
        "count + getPacketLength q \<le> c'" "int (63 * k) \<le> c' - (count + getPacketLength q)"
        "count + getPacketLength q \<le> dataLength \<Longrightarrow> int (63 * k) \<le> dataLength - (count + getPacketLength q)"
        by blast
      have run: "splice buf dataLength count pack n = Inr (c', p', ?n + k)"
        using True m b k(1) by (subst splice.simps) simp
      show ?thesis
      proof (cases "getPacketLength q \<le> dataLength - count")
        case True
        with run k q show ?thesis by (intro exI [of _ c'] exI [of _ p'] exI [of _ "Suc k"]) auto
      next
        case False
        then have "splice buf dataLength (count + getPacketLength q) q n = Inr (count + getPacketLength q, q, n)"
          by (subst splice.simps) simp
        with False k(1) have "c' = count + getPacketLength q" "k = 0" by auto
        with run False \<open>count < dataLength\<close> q show ?thesis by auto
      qed
    qed
  qed
qed

section \<open>Properties\<close>

text \<open>A module with one operation on its listening connection, for examples.\<close>

definition example_module :: "srw_state IOCPModule" where
  "example_module =
     (case createIOCPContext srw_ref LISTEN DEFAULT_BUF_SIZ (IOCPModule_default srw_ref False) of
        Inl _ \<Rightarrow> IOCPModule_default srw_ref False
      | Inr (p, s) \<Rightarrow> s)"

definition example_message :: "Packet \<times> string" where
  "example_message = (example_packet\<lparr>ContentLength := 7\<rparr>, ''payload'')"

definition idle_os :: os where
  "idle_os = \<lparr>WSAStartup = (\<lambda>_. Some (2, 2)), WSASocket = (\<lambda>_. True), os_bind = (\<lambda>_. True), os_listen = (\<lambda>_. True),
     os_connect = (\<lambda>_. True), WSAIoctl = (\<lambda>_. True), CreateIoCompletionPort = (\<lambda>_. True), AcceptEx = (\<lambda>_. True),
     WSARecv = (\<lambda>_. True), WSASend = (\<lambda>_. True), CreateThreadpoolWork = (\<lambda>_. True), QueryPerformanceCounter = (\<lambda>n. Some (int n)),
     GetAcceptExSockAddrs = (\<lambda>_. (0, 0))\<rparr>"

lemma example_module_ok:
  "io_ok srw_ref example_module \<and> next_obj example_module = 3 \<and> calls example_module = [] \<and> pRecvCallback example_module = 0 \<and>
   ics example_module 2 = Some ((fresh_ic 8192 1)\<lparr>contextIndex := 0\<rparr>) \<and> scs example_module LISTEN \<noteq> None \<and>
   ics example_module = [2 \<mapsto> (fresh_ic 8192 1)\<lparr>contextIndex := 0\<rparr>] \<and> io_lock example_module = SRWLock_init srw_ref \<and>
   scs example_module LISTEN = Some ((SocketContext_new srw_ref)\<lparr>sc_count := 1, IOCPContextMap := [(1, 2)]\<rparr>) \<and> port_queue example_module = []"
proof -
  let ?s = "IOCPModule_default srw_ref False"
  have ok: "io_ok srw_ref ?s" unfolding IOCPModule_default_def by (rule srw_ref.IOCPModule_start_ok)
  have sc: "scs ?s LISTEN = Some (SocketContext_new srw_ref)" "next_obj ?s = 2" "hp_next (hp ?s) = 1"
    "calls ?s = []" "pRecvCallback ?s = 0" "ics ?s = Map.empty" "io_lock ?s = SRWLock_init srw_ref" "port_queue ?s = []"
    by (simp_all add: IOCPModule_default_def IOCPModule_start_def LISTEN_def empty_heap_def)
  from srw_ref.createIOCPContext_ok [OF ok sc(1), of DEFAULT_BUF_SIZ] obtain h where
    "createIOCPContext srw_ref LISTEN DEFAULT_BUF_SIZ ?s = Inr (2, created LISTEN DEFAULT_BUF_SIZ (SocketContext_new srw_ref) h ?s)"
    "io_ok srw_ref (created LISTEN DEFAULT_BUF_SIZ (SocketContext_new srw_ref) h ?s)"
    using sc(2) by (auto simp: DEFAULT_BUF_SIZ_def)
  then show ?thesis
    using sc by (simp add: example_module_def created_def Let_def SocketContext_new_def DEFAULT_BUF_SIZ_def)
qed

lemma example_message_ok:
  "pkt_ok example_message \<and> length (fst (createHeader (fst example_message))) = 113 \<and> length (pkt_text example_message) = 120"
proof -
  have "packet_ok (example_packet\<lparr>ContentLength := 7\<rparr>)" "length (fst (createHeader (example_packet\<lparr>ContentLength := 7\<rparr>))) = 113"
    by code_simp+
  then show ?thesis by (simp add: pkt_ok_def pkt_text_def example_message_def)
qed

text \<open>
  C10. A receive that brings a sequence of whole packets, and behind them bytes that start with no
  header, is cut at the packet borders: the callback runs once for each packet, the other bytes are
  dropped and the next receive is posted. What the callback is given each time is the whole chunk,
  not its packet.
\<close>

theorem recv_whole_packets:
  assumes "io_ok api s" and "ics s p = Some ic" and "\<not> prevFlag ic" and "list_all pkt_ok ms" and "junk t"
    and "d = concat (map pkt_text ms) @ t" and "length d \<le> wsabuf_len ic"
  shows "\<exists>s'. recv_chunk os pSC p d s = Inr (WSARecv os (tick s), s') \<and> io_ok api s' \<and> scs s' = scs s \<and>
     ics s' = (ics s)(p \<mapsto> ic\<lparr>ic_operation := SIG_RECV\<rparr>) \<and>
     calls s' = calls s @ replicate (length ms) (RecvCall (pRecvCallback s) pSC (Some d) (int (length d)))"
  using doRecv_packets [OF assms] by blast

lemma recv_whole_packets_witness:
  "\<exists>s'. recv_chunk idle_os LISTEN 2 (pkt_text example_message @ pkt_text example_message @ ''more'') example_module = Inr (True, s') \<and>
     calls s' = [RecvCall 0 LISTEN (Some (pkt_text example_message @ pkt_text example_message @ ''more'')) 244,
       RecvCall 0 LISTEN (Some (pkt_text example_message @ pkt_text example_message @ ''more'')) 244]"
  using recv_whole_packets [of srw_ref example_module 2 "(fresh_ic 8192 1)\<lparr>contextIndex := 0\<rparr>" "[example_message, example_message]"
      "''more''" "pkt_text example_message @ pkt_text example_message @ ''more''" idle_os LISTEN]
    example_module_ok example_message_ok junk_short [of "''more''"] by (auto simp: fresh_ic_def idle_os_def)



text \<open>
  C23. The splicing loop of \<^verbatim>\<open>doRecv\<close> ends for every content of the buffer, also a forged one, without
  reading behind the received bytes; every round that found a header moves it by at least 63 bytes,
  so the callback runs at most once for 63 bytes received.
\<close>

theorem splice_terminates:
  assumes "dataLength \<le> int (length buf)" and "0 \<le> dataLength"
  shows "\<exists>count pack k. splice buf dataLength 0 pack0 0 = Inr (count, pack, k) \<and> 0 \<le> count \<and> int (63 * k) \<le> dataLength"
  using splice_result [of 0 dataLength buf pack0 0] assms by auto

lemma splice_terminates_witness:
  "\<exists>count pack k. splice (pkt_text example_message) 120 0 Packet_default 0 = Inr (count, pack, k) \<and> 63 * k \<le> 120"
  using splice_terminates [of 120 "pkt_text example_message" Packet_default] example_message_ok by auto

end
