(* ===== verification/IOCP_Invariant.thy ===== *)
theory IOCP_Invariant
  imports IOCP_Receive
begin

text \<open>
  The invariant of \<^verbatim>\<open>svr::IOCPModule\<close>: whatever the operating system answers and whichever
  completions the workers take, every operation that returns leaves the stores well-formed (no
  array owned twice, no map entry to a deleted operation). Operations that fault are the subject
  of the properties of single operations; here a fault ends the run.
\<close>

section \<open>Reading\<close>

lemma returns_peek: "(\<And>d. returns Q (f d)) \<Longrightarrow> returns Q (bindR (peek p off h) f)"
  by (rule returns_bind [OF returns_any])

section \<open>Changes the invariant does not see\<close>

named_theorems keeps

lemma io_ok_fields [simp]:
  "io_ok api (s\<lparr>tick := a\<rparr>) = io_ok api s" "io_ok api (s\<lparr>next_sock := a\<rparr>) = io_ok api s"
  "io_ok api (s\<lparr>open_socks := b\<rparr>) = io_ok api s" "io_ok api (s\<lparr>pending := c\<rparr>) = io_ok api s"
  "io_ok api (s\<lparr>port_queue := d\<rparr>) = io_ok api s" "io_ok api (s\<lparr>calls := e\<rparr>) = io_ok api s"
  "io_ok api (s\<lparr>hIOCP := f\<rparr>) = io_ok api s" "io_ok api (s\<lparr>socketContextMap := g\<rparr>) = io_ok api s"
  "io_ok api (s\<lparr>io_lock := l\<rparr>) = io_ok api s" "io_ok api (s\<lparr>io_status := st\<rparr>) = io_ok api s"
  "io_ok api (s\<lparr>IOCPThreadPool := tp\<rparr>) = io_ok api s"
  "io_ok api (s\<lparr>connectNum := i\<rparr>) = io_ok api s" "io_ok api (s\<lparr>normallyClosedNum := i\<rparr>) = io_ok api s"
  "io_ok api (s\<lparr>errorNum := i\<rparr>) = io_ok api s" "io_ok api (s\<lparr>callbackInvokedNum := i\<rparr>) = io_ok api s"
  "io_ok api (s\<lparr>pRecvCallback := a\<rparr>) = io_ok api s" "io_ok api (s\<lparr>pSendCallback := a\<rparr>) = io_ok api s"
  by (rule io_ok_cong; simp)+

lemma io_ok_closesocket [simp]: "io_ok api (closesocket k s) = io_ok api s"
  by (simp add: closesocket_def split: option.split)

lemma io_ok_set_io_lock [simp]: "io_ok api (set_io_lock l s) = io_ok api s"
  by (simp add: set_io_lock_def)

lemma io_ok_count_callbacks [simp]: "io_ok api (count_callbacks n s) = io_ok api s"
  by (simp add: count_callbacks_def)

lemma io_ok_repeat_callback [simp]: "io_ok api (repeat_callback n pSC d len s) = io_ok api s"
  by (simp add: repeat_callback_eq)

lemma io_ok_run_callbacks [simp]:
  "io_ok api (run_recv_callback pSC d len s) = io_ok api s" "io_ok api (run_send_callback pSC d len s) = io_ok api s"
  by (simp_all add: run_recv_callback_def run_send_callback_def)

lemma stores_closesocket [simp]:
  "ics (closesocket k s) = ics s" "scs (closesocket k s) = scs s" "hp (closesocket k s) = hp s"
  by (simp_all add: closesocket_def split: option.split)

lemma stores_put [simp]:
  "ics (put_ic p ic s) = (ics s)(p \<mapsto> ic)" "scs (put_ic p ic s) = scs s" "hp (put_ic p ic s) = hp s"
  "ics (put_sc q sc s) = ics s" "scs (put_sc q sc s) = (scs s)(q \<mapsto> sc)" "hp (put_sc q sc s) = hp s"
  by (simp_all add: put_ic_def put_sc_def)

lemma put_ic_hp: "put_ic p ic (s\<lparr>hp := h\<rparr>) = (put_ic p ic s)\<lparr>hp := h\<rparr>"
  by (cases s) (simp add: put_ic_def)

lemma io_ok_put_sc:
  assumes "io_ok api s" and "scs s p = Some sc" and "socketLock sc' = socketLock sc"
    and "IOCPContextMap sc' = IOCPContextMap sc" and "sc_count sc' = sc_count sc"
  shows "io_ok api (put_sc p sc' s)"
proof -
  have ok: "ics_ok s" "scs_ok api s" using assms(1) by (simp_all add: io_ok_def)
  define s' where "s' = put_sc p sc' s"
  have s': "scs s' = (scs s)(p \<mapsto> sc')" "ics s' = ics s" "next_obj s' = next_obj s"
    by (simp_all add: s'_def put_sc_def)
  have eq: "\<exists>x0. scs s q = Some x0 \<and> IOCPContextMap x = IOCPContextMap x0 \<and> sc_ok api s' x = sc_ok api s x0"
    if "scs s' q = Some x" for q x
    using that assms(2-5) by (auto simp: s' sc_ok_def split: if_splits)
  have "scs_ok api s'"
    unfolding scs_ok_def
  proof (intro conjI allI impI)
    fix q x assume "scs s' q = Some x"
    with eq [OF this] scs_okD [OF ok(2)] show "q \<noteq> 0" "q < next_obj s'" "sc_ok api s' x"
      by (auto simp: s'(3))
  next
    fix a b x y k k' r
    assume a: "scs s' a = Some x" "scs s' b = Some y" "map_of (IOCPContextMap x) k = Some r" "map_of (IOCPContextMap y) k' = Some r"
    then have "a = b \<and> k = k'" using ok(2) eq [OF a(1)] eq [OF a(2)] unfolding scs_ok_def by metis
    then show "a = b" "k = k'" by simp_all
  qed
  moreover have "ics_ok s'" using ok(1) by (simp add: s'_def put_sc_def ics_ok_scs)
  ultimately show ?thesis by (simp add: io_ok_def s'_def)
qed

lemma returns_get_ic: "returns (\<lambda>ic. p \<noteq> 0 \<and> ics s p = Some ic) (get_ic p s)"
  by (simp add: get_ic_def split: option.split)

lemma returns_get_sc: "returns (\<lambda>sc. p \<noteq> 0 \<and> scs s p = Some sc) (get_sc p s)"
  by (simp add: get_sc_def split: option.split)

lemma returns_exclusive:
  assumes "\<And>l. returns (\<lambda>(r, s'). io_ok api s') (body (set_io_lock l s))"
  shows "returns (\<lambda>(r, s'). io_ok api s') (exclusive api io_lock set_io_lock body s)"
  unfolding exclusive_def by (rule returns_bind [OF returns_any], rule returns_bind [OF assms]) auto

lemma returns_shared:
  assumes "\<And>l. returns (\<lambda>(r, s'). io_ok api s') (body (set_io_lock l s))"
  shows "returns (\<lambda>(r, s'). io_ok api s') (shared api io_lock set_io_lock body s)"
  unfolding shared_def by (rule returns_bind [OF returns_any], rule returns_bind [OF assms]) auto

section \<open>Heap changes\<close>

lemma write_cells_shape:
  assumes "write_cells p off cs h = Inr h'" and "heap_ok h"
  shows "heap_ok h' \<and> (\<forall>a. map_option length (blocks h' a) = map_option length (blocks h a))"
proof -
  from assms(1) obtain b where b: "blocks h p = Some b" "off + length cs \<le> length b"
    "h' = h\<lparr>blocks := (blocks h)(p \<mapsto> take off b @ cs @ drop (off + length cs) b)\<rparr>"
    by (auto simp: write_cells_def split: if_splits option.splits)
  with heap_ok_update [OF assms(2) b(1)] show ?thesis by auto
qed

lemma memcpy_shape:
  "memcpy p a q b n h = Inr h' \<Longrightarrow> heap_ok h \<Longrightarrow>
     heap_ok h' \<and> (\<forall>a. map_option length (blocks h' a) = map_option length (blocks h a))"
  by (auto simp: memcpy_def bindR_eq_Inr dest: write_cells_shape)

lemma io_ok_hp:
  assumes "io_ok api s" and "heap_ok h \<and> (\<forall>a. map_option length (blocks h a) = map_option length (blocks (hp s) a))"
  shows "io_ok api (s\<lparr>hp := h\<rparr>)"
proof -
  have "\<exists>b'. blocks h a = Some b' \<and> length b' = length b" if "blocks (hp s) a = Some b" for a b
    using spec [OF conjunct2 [OF assms(2)], of a] that by auto
  then have "ics_ok (s\<lparr>hp := h\<rparr>)" using assms by (intro ics_ok_hp) (auto simp: io_ok_def)
  then show ?thesis using assms(1) by (simp add: io_ok_def scs_ok_hp)
qed

lemma io_ok_heap: "io_ok api s \<Longrightarrow> heap_ok (hp s)"
  by (simp add: io_ok_def ics_ok_def)

lemma ResetBuffer_keeps [keeps]: "io_ok api s \<Longrightarrow> returns (\<lambda>s'. io_ok api s' \<and> ics s' = ics s \<and> scs s' = scs s) (ResetBuffer p s)"
  unfolding ResetBuffer_def zero_memory_def
  by (rule returns_bind [OF returns_any], rule returns_bind [OF returns_any])
    (auto intro!: io_ok_hp dest: write_cells_shape [OF _ io_ok_heap])

text \<open>Keeping the first piece of a packet in an array of its own.\<close>

lemma keep_piece_ok:
  assumes "io_ok api s" and "ics s p = Some ic" and "new_array n (hp s) = (prev, h0)"
    and "zero_memory prev n h0 = Inr h1" and "memcpy prev 0 q off k h1 = Inr h2"
    and "wsabuf_len jc = wsabuf_len ic" "wsabuf_buf jc = wsabuf_buf ic" "prevFlag jc" "prevData jc = prev"
    and "contextIndex jc = contextIndex ic"
  shows "io_ok api ((put_ic p jc s)\<lparr>hp := h2\<rparr>)"
proof -
  have hok: "heap_ok (hp s)" by (rule io_ok_heap [OF assms(1)])
  have h0: "heap_ok h0" "blocks (hp s) prev = None" "blocks h0 = (blocks (hp s))(prev \<mapsto> replicate n None)"
    using new_array_ok [OF hok assms(3)] new_array_fresh [OF hok assms(3)] new_array_blocks [OF assms(3)] by auto
  have h1: "heap_ok h1" "\<forall>a. map_option length (blocks h1 a) = map_option length (blocks h0 a)"
    using write_cells_shape [OF assms(4) [unfolded zero_memory_def] h0(1)] by auto
  have h2: "heap_ok h2" "\<forall>a. map_option length (blocks h2 a) = map_option length (blocks h0 a)"
    using memcpy_shape [OF assms(5) h1(1)] h1(2) by auto
  have live: "\<exists>b'. blocks h2 a = Some b' \<and> length b' = length b" if "blocks (hp s) a = Some b" for a b
    using spec [OF h2(2), of a] that h0(2,3) by (auto split: if_splits)
  have "blocks h2 prev \<noteq> None" using spec [OF h2(2), of prev] h0(3) by auto
  then have "ics_ok ((put_ic p jc s)\<lparr>hp := h2\<rparr>)"
    using assms(1) by (intro ics_ok_set_prev [OF _ assms(2) h2(1) live h0(2) _ assms(6-9)]) (auto simp: io_ok_def)
  moreover have "scs_ok api ((put_ic p jc s)\<lparr>hp := h2\<rparr>)"
    using assms(1) by (intro scs_ok_put_ic_hp [OF _ assms(2,10)]) (simp add: io_ok_def)
  ultimately show ?thesis by (simp add: io_ok_def)
qed

lemma keep_rest_keeps [keeps]: "io_ok api s \<Longrightarrow> returns (io_ok api) (keep_rest p count len pack s)"
  unfolding keep_rest_def Let_def
  by (rule returns_bind [OF returns_get_ic])
    (auto split: prod.split intro!: returns_bind [OF returns_any], (rule keep_piece_ok, assumption+, simp_all)+)

lemma keep_partial_keeps [keeps]:
  "io_ok api s \<Longrightarrow> returns (\<lambda>s'. io_ok api s' \<and> scs s' = scs s) (keep_partial p packet buf len s)"
  unfolding keep_partial_def Let_def
  by (rule returns_bind [OF returns_get_ic])
    (auto split: prod.split intro!: returns_bind [OF returns_any], (rule keep_piece_ok, assumption+, simp_all)+)

lemma drop_prev_keeps [keeps]:
  assumes "io_ok api s" and "ics s p = Some ic" and "prevFlag ic"
  shows "returns (io_ok api) (drop_prev p s)"
  using drop_prev_ok [OF assms] by auto

section \<open>Operations\<close>

lemma IOCP_put_keeps:
  "io_ok api s \<Longrightarrow> ics s p = Some ic \<Longrightarrow> wsabuf_len jc = wsabuf_len ic \<Longrightarrow> wsabuf_buf jc = wsabuf_buf ic \<Longrightarrow>
     prevFlag jc = prevFlag ic \<Longrightarrow> prevData jc = prevData ic \<Longrightarrow> contextIndex jc = contextIndex ic \<Longrightarrow>
     io_ok api (put_ic p jc s)"
  by (rule io_ok_put_ic) (simp_all add: same_buffers_def)

lemma new_socket_keeps:
  "new_socket os s = (k, s') \<Longrightarrow> io_ok api s' = io_ok api s \<and> ics s' = ics s \<and> scs s' = scs s"
  by (auto simp: new_socket_def ask_def split: if_splits)

lemma ask_keeps: "ask f s = (a, s') \<Longrightarrow> io_ok api s' = io_ok api s \<and> ics s' = ics s \<and> scs s' = scs s \<and> hp s' = hp s"
  by (auto simp: ask_def)

lemma postAccept_keeps [keeps]:
  assumes "io_ok api s"
  shows "returns (\<lambda>(r, s'). io_ok api s') (postAccept os p s)"
proof (cases "p = 0")
  case False
  then show ?thesis
    unfolding postAccept_def Let_def if_not_P [OF False]
    by (intro returns_bind [OF returns_get_ic])
      (auto split: prod.split dest!: new_socket_keeps [where api = api] ask_keeps [where api = api]
        simp: assms intro!: IOCP_put_keeps)
qed (simp add: postAccept_def assms)

lemma postRecv_keeps [keeps]: "io_ok api s \<Longrightarrow> returns (\<lambda>(r, s'). io_ok api s') (postRecv os p s)"
  unfolding postRecv_def Let_def
  by (rule returns_bind [OF ResetBuffer_keeps], assumption, rule returns_bind [OF returns_get_ic])
    (auto split: prod.split dest!: ask_keeps [where api = api] intro!: IOCP_put_keeps)

lemma postSend_keeps [keeps]:
  assumes "io_ok api s"
  shows "returns (\<lambda>(r, s'). io_ok api s') (postSend os p s)"
proof -
  have "io_ok api (put_ic p (ic\<lparr>ic_operation := SIG_SEND\<rparr>) s')" if "ics s p = Some ic" "ask (WSASend os) s = (b, s')" for ic b s'
    using ask_keeps [OF that(2), of api] that(1) assms by (intro IOCP_put_keeps) auto
  then show ?thesis
    unfolding postSend_def Let_def by (intro returns_bind [OF returns_get_ic]) (auto split: prod.split)
qed

lemma SocketContext_create_keeps:
  assumes "SocketContext_create api s = (p, s')" and "io_ok api s"
  shows "io_ok api s' \<and> scs s' p = Some (SocketContext_new api) \<and> ics s' = ics s \<and> hp s' = hp s"
proof -
  have s': "s' = (put_sc (next_obj s) (SocketContext_new api) s)\<lparr>next_obj := Suc (next_obj s)\<rparr>" "p = next_obj s"
    using assms(1) by (auto simp: SocketContext_create_def)
  have ok: "ics_ok s" "scs_ok api s" using assms(2) by (simp_all add: io_ok_def)
  have fresh: "scs s p = None" using scs_okD(2) [OF ok(2), of p] s'(2) by (cases "scs s p") auto
  have new: "sc_ok api s' (SocketContext_new api)"
    by (simp add: sc_ok_def SocketContext_new_def idle_def SRWLock_init_def smap_ok_def)
  have scs: "scs s' = (scs s)(p \<mapsto> SocketContext_new api)" "next_obj s' = Suc (next_obj s)" "ics s' = ics s" "hp s' = hp s"
    by (simp_all add: s' put_sc_def)
  have old: "q \<noteq> p \<and> scs s q = Some x" if "scs s' q = Some x" "map_of (IOCPContextMap x) k = Some r" for q x k r
    using that by (auto simp: scs SocketContext_new_def split: if_splits)
  have "scs_ok api s'"
    unfolding scs_ok_def
  proof (intro conjI allI impI)
    fix q x assume q: "scs s' q = Some x"
    then show "q \<noteq> 0" "q < next_obj s'"
      using scs_okD(1,2) [OF ok(2), of q x] s'(2) ics_ok_next [OF ok(1)] by (auto simp: scs split: if_splits)
    show "sc_ok api s' x"
      using q new scs_okD(4) [OF ok(2), of q x] by (auto simp: scs sc_ok_def split: if_splits)
  next
    fix a b x y k k' r
    assume "scs s' a = Some x" "scs s' b = Some y" "map_of (IOCPContextMap x) k = Some r" "map_of (IOCPContextMap y) k' = Some r"
    then have "a = b \<and> k = k'" using ok(2) old unfolding scs_ok_def by metis
    then show "a = b" "k = k'" by simp_all
  qed
  moreover have "ics_ok s'" using ok(1) less_SucI [of _ "next_obj s"] unfolding ics_ok_def scs by blast
  ultimately show ?thesis by (simp add: io_ok_def scs)
qed

lemma timer_start_keeps [keeps]:
  "io_ok api s \<Longrightarrow> returns (\<lambda>s'. io_ok api s' \<and> ics s' = ics s) (timer_start os p s)"
  unfolding timer_start_def
  by (rule returns_bind [OF returns_get_sc])
    (auto split: prod.split option.split dest!: ask_keeps [where api = api] intro!: io_ok_put_sc)

lemma release_socket_keeps [keeps]: "io_ok api s \<Longrightarrow> returns (io_ok api) (release_socket p s)"
  unfolding release_socket_def
  by (rule returns_bind [OF returns_get_sc]) (auto intro!: io_ok_put_sc)

context srw_laws
begin

lemma createIOCPContext_keeps [keeps]:
  assumes "io_ok api s"
  shows "returns (\<lambda>(q, s'). io_ok api s' \<and> (\<exists>ic. ics s' q = Some ic) \<and> scs s' p \<noteq> None) (createIOCPContext api p n s)"
proof (cases "0 < n \<and> (\<exists>sc. scs s p = Some sc)")
  case True
  then obtain sc where sc: "scs s p = Some sc" "0 < n" by blast
  from createIOCPContext_ok [OF assms sc] obtain h where
    "createIOCPContext api p n s = Inr (next_obj s, created p n sc h s)" "io_ok api (created p n sc h s)" by blast
  then show ?thesis by (simp add: created_def Let_def)
next
  case False
  then consider "n \<le> 0" | "0 < n" "scs s p = None" by force
  then show ?thesis
  proof cases
    case 1
    then show ?thesis by (simp add: createIOCPContext_def IOCPContext_create_def)
  next
    case 2
    have "scs s' p = None" if "IOCPContext_create n s = Inr (q, s')" for q s'
      using that 2 by (auto simp: IOCPContext_create_def bindR_eq_Inr put_ic_def Let_def split: prod.splits if_splits)
    then show ?thesis
      unfolding createIOCPContext_def
      by (intro returns_bind [OF returns_any]) (auto simp: with_socketLock_def get_sc_def)
  qed
qed

lemma removeIOCPContext_keeps [keeps]:
  assumes "io_ok api s"
  shows "returns (\<lambda>(r, s'). io_ok api s') (removeIOCPContext api p k s)"
proof (cases "p = 0 \<or> scs s p = None")
  case True
  then show ?thesis by (auto simp: removeIOCPContext_def with_socketLock_def get_sc_def)
next
  case False
  then obtain sc where sc: "scs s p = Some sc" by auto
  show ?thesis
  proof (cases "map_of (IOCPContextMap sc) k")
    case None
    with removeIOCPContext_absent [OF assms sc] assms show ?thesis by simp
  next
    case (Some q)
    have "scs_ok api s" using assms by (simp add: io_ok_def)
    from scs_okD(4) [OF this sc] Some obtain ic where "ics s q = Some ic" unfolding sc_ok_def by blast
    from removeIOCPContext_present [OF assms sc Some this] show ?thesis by auto
  qed
qed

lemma SocketContext_delete_keeps [keeps]:
  assumes "io_ok api s"
  shows "returns (io_ok api) (SocketContext_delete p s)"
proof (cases "p = 0 \<or> scs s p = None")
  case True
  then show ?thesis by (auto simp: SocketContext_delete_def get_sc_def)
next
  case False
  then obtain sc where sc: "scs s p = Some sc" by auto
  from SocketContext_delete_ok [OF assms sc] show ?thesis by auto
qed

lemma create_and_mark_keeps:
  assumes "io_ok api s" and "\<And>ic. wsabuf_len (f ic) = wsabuf_len ic \<and> wsabuf_buf (f ic) = wsabuf_buf ic \<and>
      prevFlag (f ic) = prevFlag ic \<and> prevData (f ic) = prevData ic \<and> contextIndex (f ic) = contextIndex ic"
    and "\<And>q ic s'. io_ok api s' \<Longrightarrow> returns Q (g q ic s')"
  shows "returns Q (bindR (createIOCPContext api p n s) (\<lambda>(q, s). bindR (get_ic q s) (\<lambda>ic. g q ic (put_ic q (f ic) s))))"
proof (rule returns_bind [OF createIOCPContext_keeps [OF assms(1), of p n]])
  fix x assume "case x of (q, s') \<Rightarrow> io_ok api s' \<and> (\<exists>ic. ics s' q = Some ic) \<and> scs s' p \<noteq> None"
  then obtain q s' where x: "x = (q, s')" "io_ok api s'" by (cases x) auto
  have "returns Q (g q ic (put_ic q (f ic) s'))" if "ics s' q = Some ic" for ic
    using x(2) that assms(2) by (intro assms(3) IOCP_put_keeps) auto
  then show "returns Q (case x of (q, s) \<Rightarrow> bindR (get_ic q s) (\<lambda>ic. g q ic (put_ic q (f ic) s)))"
    using x(1) by (auto intro: returns_bind [OF returns_get_ic])
qed

lemma postCloseConnection_keeps [keeps]:
  assumes "io_ok api s"
  shows "returns (\<lambda>(r, s'). io_ok api s') (postCloseConnection api p s)"
proof (cases "p = 0")
  case False
  have mark: "returns (\<lambda>(r, s'). io_ok api s') (bindR (createIOCPContext api p 4096 s) (\<lambda>(q, s).
        bindR (get_ic q s) (\<lambda>ic. Inr ((), (put_ic q (ic\<lparr>ic_operation := SIG_CLOSE_CONNECTION\<rparr>) s)
          \<lparr>port_queue := port_queue (put_ic q (ic\<lparr>ic_operation := SIG_CLOSE_CONNECTION\<rparr>) s) @ [(1, p, q)]\<rparr>))))"
    if "io_ok api s" for s
    by (rule create_and_mark_keeps) (use that in auto)
  show ?thesis
    unfolding postCloseConnection_def Let_def if_not_P [OF False]
  proof (rule returns_exclusive, split if_split, intro conjI impI)
    fix l
    have "io_ok api (set_io_lock l s)" using assms by simp
    then show "returns (\<lambda>(r, s'). io_ok api s') (bindR (get_sc p (set_io_lock l s)) (\<lambda>sc.
        if \<not> closeFlag sc
        then bindR (createIOCPContext api p 4096 (put_sc p (sc\<lparr>closeFlag := True\<rparr>) (set_io_lock l s))) (\<lambda>(q, s).
          bindR (get_ic q s) (\<lambda>ic. Inr ((), (put_ic q (ic\<lparr>ic_operation := SIG_CLOSE_CONNECTION\<rparr>) s)
            \<lparr>port_queue := port_queue (put_ic q (ic\<lparr>ic_operation := SIG_CLOSE_CONNECTION\<rparr>) s) @ [(1, p, q)]\<rparr>)))
        else Inr ((), set_io_lock l s)))"
      by (intro returns_bind [OF returns_get_sc]) (auto intro!: mark io_ok_put_sc)
  qed (simp add: assms)
qed (simp add: postCloseConnection_def assms)

lemma doCloseConnection_keeps [keeps]:
  "io_ok api s \<Longrightarrow> returns (\<lambda>(r, s'). io_ok api s') (doCloseConnection api p s)"
  unfolding doCloseConnection_def
  by (rule returns_exclusive) (auto intro!: returns_bind [OF SocketContext_delete_keeps])

lemma close_after_keeps [keeps]:
  "returns (\<lambda>(r, s'). io_ok api s') m \<Longrightarrow> returns (io_ok api) (close_after api p m)"
  unfolding close_after_def
  by (rule returns_bind, assumption) (auto intro!: returns_bind [OF postCloseConnection_keeps])

lemma doSend_keeps [keeps]:
  assumes "io_ok api s"
  shows "returns (\<lambda>(r, s'). io_ok api s') (doSend api os p q n s)"
proof -
  have rem: "returns (\<lambda>(r, s'). io_ok api s') (bindR (removeIOCPContext api p k s) (\<lambda>(_, s). Inr (b, s)))"
    if "io_ok api s" for k b s
    by (rule returns_bind [OF removeIOCPContext_keeps [OF that]]) auto
  have "io_ok api (put_ic q (ic\<lparr>bytesToRecv := bytesToRecv ic - n\<rparr>) s)" if "ics s q = Some ic" for ic
    using assms that by (intro IOCP_put_keeps) auto
  then show ?thesis
    unfolding doSend_def
    by (intro returns_bind [OF returns_get_ic])
      (auto intro!: returns_peek rem returns_bind [OF postSend_keeps] simp: assms)
qed

lemma adopt_connection_keeps [keeps]:
  assumes "io_ok api s"
  shows "returns (\<lambda>(r, s'). io_ok api s') (adopt_connection api os p s)"
proof -
  have body: "returns (\<lambda>(r, s'). io_ok api s') (bindR (postRecv os q s) (\<lambda>(posted, s).
      bindR (if posted then Inr (True, s) else removeIOCPContext api p k s) (\<lambda>(_, s). Inr ((), f s))))"
    if "io_ok api s" "\<And>s. io_ok api (f s) = io_ok api s" for q k f s
    using that(1)
    by (intro returns_bind [OF postRecv_keeps])
      (auto intro!: returns_bind [OF removeIOCPContext_keeps] simp: that(2))
  have tail: "returns (\<lambda>(r, s'). io_ok api s') (bindR (createIOCPContext api p n s) (\<lambda>(q, s).
       bindR (get_ic q s) (\<lambda>ic.
       bindR (exclusive api io_lock set_io_lock (\<lambda>s.
         bindR (postRecv os q s) (\<lambda>(posted, s).
         bindR (if posted then Inr (True, s) else removeIOCPContext api p (contextIndex ic) s) (\<lambda>(_, s).
           Inr ((), s\<lparr>socketContextMap := snd (smap_insert p (sc_socket sc) (socketContextMap s))\<rparr>))))
         (put_ic q (ic\<lparr>ic_socket := sc_socket sc, ic_addr := sc_addr sc, ic_operation := SIG_RECV\<rparr>) s)) (\<lambda>(_, s).
       Inr (True, s)))))" if "io_ok api s" for n sc s
    by (rule create_and_mark_keeps [OF that])
      (auto intro!: returns_bind [OF returns_exclusive] body)
  show ?thesis
    unfolding adopt_connection_def Let_def using assms
    by (intro returns_bind [OF returns_get_sc])
      (auto split: prod.split dest!: ask_keeps [where api = api] intro!: tail)
qed

lemma createConnectContext_keeps [keeps]:
  assumes "io_ok api s"
  shows "returns (\<lambda>(r, s'). io_ok api s') (createConnectContext api os peer s)"
proof -
  have del: "returns (\<lambda>(r, s'). io_ok api s') (bindR (SocketContext_delete p s) (\<lambda>s. Inr (0, s)))"
    if "io_ok api s" for p s and z :: addr
    by (rule returns_bind [OF SocketContext_delete_keeps [OF that]]) simp
  have tim: "returns (\<lambda>(r, s'). io_ok api s') (bindR (timer_start os p s) (\<lambda>s. Inr (p, s)))" if "io_ok api s" for p s
    by (rule returns_bind [OF timer_start_keeps [OF that]]) simp
  show ?thesis
    unfolding createConnectContext_def Let_def using assms
    by (auto split: prod.split dest!: SocketContext_create_keeps new_socket_keeps [where api = api] ask_keeps [where api = api]
        intro!: returns_bind [OF returns_get_sc] del tim io_ok_put_sc)
qed

lemma append_prev_keeps:
  "io_ok api s \<Longrightarrow> append_prev ic n (hp s) = Inr h \<Longrightarrow> io_ok api (s\<lparr>hp := h\<rparr>)"
  by (intro io_ok_hp) (auto simp: append_prev_def Let_def io_ok_heap split: if_splits dest: memcpy_shape)

lemma stores_callbacks [simp]:
  "ics (repeat_callback n p d len s) = ics s" "ics (count_callbacks n s) = ics s"
  "ics (run_recv_callback p dd len s) = ics s"
  by (simp_all add: repeat_callback_eq count_callbacks_def run_recv_callback_def)

lemma splice_rest_keeps:
  assumes "\<And>m. io_ok api (f m s)"
  shows "returns (io_ok api) (bindR (splice buf n c pk k) (\<lambda>(count, pack, m).
     if count > n then keep_rest q count n pack (repeat_callback m p d n (f m s)) else Inr (repeat_callback m p d n (f m s))))"
  by (rule returns_bind [OF returns_any]) (auto intro!: keep_rest_keeps simp: assms)

lemma doRecv_keeps [keeps]:
  assumes "io_ok api s"
  shows "returns (\<lambda>(r, s'). io_ok api s') (doRecv os p q n s)"
proof -
  have drop: "returns (io_ok api) (drop_prev q s')" if "io_ok api s'" "ics s' = ics s" "ics s q = Some ic" "prevFlag ic" for s' ic
    using that by (intro drop_prev_keeps) auto
  have short: "io_ok api ((put_ic q (ic\<lparr>bytesToRecv := k\<rparr>) s)\<lparr>hp := h\<rparr>)"
    if "ics s q = Some ic" "append_prev ic m (hp s) = Inr h" for ic m k h
  proof -
    have "io_ok api (put_ic q (ic\<lparr>bytesToRecv := k\<rparr>) (s\<lparr>hp := h\<rparr>))"
      by (rule IOCP_put_keeps [OF append_prev_keeps [OF assms that(2)]]) (use that(1) in auto)
    then show ?thesis by (simp add: put_ic_hp)
  qed
  show ?thesis
    unfolding doRecv_def Let_def
  proof (rule returns_bind [OF returns_get_ic], rule returns_peek, rule returns_bind [of "io_ok api"])
    fix ic and buf :: string assume ic: "q \<noteq> 0 \<and> ics s q = Some ic"
    let ?data = "take (nat n) buf"
    show "returns (io_ok api)
      (if prevFlag ic then
          if bytesToRecv ic = n then drop_prev q (repeat_callback 1 p ?data n (count_callbacks 1 s))
          else if n < bytesToRecv ic then
            bindR (append_prev ic n (hp s)) (\<lambda>h.
              Inr ((put_ic q (ic\<lparr>bytesToRecv := bytesToRecv ic - n\<rparr>) s)\<lparr>hp := h\<rparr>))
          else if n \<le> bufferSize s then
            bindR (append_prev ic (bytesToRecv ic) (hp s)) (\<lambda>h.
            bindR (drop_prev q (repeat_callback 1 p ?data n (count_callbacks 1 (s\<lparr>hp := h\<rparr>)))) (\<lambda>s.
            bindR (splice buf n (bytesToRecv ic) Packet_default 0) (\<lambda>(count, pack, k).
              if count > n then keep_rest q count n pack (repeat_callback k p ?data n (count_callbacks k s))
              else Inr (repeat_callback k p ?data n (count_callbacks k s)))))
          else drop_prev q s
        else
          bindR (splice buf n 0 Packet_default 0) (\<lambda>(count, pack, k).
            if count > n then keep_rest q count n pack (repeat_callback k p ?data n s)
            else Inr (repeat_callback k p ?data n s)))"
    proof (cases "prevFlag ic")
      case False
      with splice_rest_keeps [of "\<lambda>m s. s"] assms show ?thesis by simp
    next
      case True
      consider "bytesToRecv ic = n" | "n < bytesToRecv ic" | "n > bytesToRecv ic" "n \<le> bufferSize s" | "n > bytesToRecv ic" "n > bufferSize s"
        by linarith
      then show ?thesis
      proof cases
        case 1
        with True ic assms show ?thesis by (auto intro!: drop [where ic = ic])
      next
        case 2
        with True ic show ?thesis by (auto intro!: returns_bind [OF returns_any] short)
      next
        case 3
        have "returns (io_ok api) (bindR (drop_prev q (repeat_callback 1 p ?data n (count_callbacks 1 (s\<lparr>hp := h\<rparr>)))) (\<lambda>s.
            bindR (splice buf n (bytesToRecv ic) Packet_default 0) (\<lambda>(count, pack, k).
              if count > n then keep_rest q count n pack (repeat_callback k p ?data n (count_callbacks k s))
              else Inr (repeat_callback k p ?data n (count_callbacks k s)))))"
          if "append_prev ic (bytesToRecv ic) (hp s) = Inr h" for h
        proof (rule returns_bind [OF drop [where ic = ic]])
          show "io_ok api (repeat_callback 1 p ?data n (count_callbacks 1 (s\<lparr>hp := h\<rparr>)))"
            using append_prev_keeps [OF assms that] by simp
        qed (use ic True in \<open>auto intro!: splice_rest_keeps\<close>)
        with 3 True show ?thesis by (auto intro!: returns_bind [OF returns_any])
      next
        case 4
        with True ic assms show ?thesis by (auto intro!: drop [where ic = ic])
      qed
    qed
  qed (rule postRecv_keeps)
qed

lemma remove_after_keeps:
  "io_ok api s \<Longrightarrow> returns (\<lambda>(r, s'). io_ok api s') (bindR (removeIOCPContext api p k s) (\<lambda>(_, s). Inr (b, s)))"
  by (rule returns_bind [OF removeIOCPContext_keeps]) auto

lemma remove_after_keeps':
  "io_ok api s \<Longrightarrow> returns (io_ok api) (bindR (removeIOCPContext api p k s) (\<lambda>(_, s). Inr s))"
  by (rule returns_bind [OF removeIOCPContext_keeps]) auto

lemma close_after_keeps':
  "io_ok api s \<Longrightarrow> returns (io_ok api) (bindR (postCloseConnection api p s) (\<lambda>(_, s). Inr s))"
  by (rule returns_bind [OF postCloseConnection_keeps]) auto

lemma sendData_keeps [keeps]:
  assumes "io_ok api s"
  shows "returns (\<lambda>(r, s'). io_ok api s') (sendData api os p data len s)"
proof -
  have post: "returns (\<lambda>(r, s'). io_ok api s') (bindR (postSend os q s) (\<lambda>(posted, s).
      if posted then Inr (True, s) else bindR (removeIOCPContext api p k s) (\<lambda>(_, s). Inr (False, s))))"
    if "io_ok api s" for q k s
    by (rule returns_bind [OF postSend_keeps [OF that]]) (auto intro!: remove_after_keeps)
  have fill: "io_ok api ((put_ic q jc s)\<lparr>hp := h\<rparr>)"
    if "io_ok api s" "ics s q = Some ic" "write_cells (wsabuf_buf ic) 0 cs (hp s) = Inr h" "same_buffers ic jc"
      "contextIndex jc = contextIndex ic" for q ic jc cs h s
  proof -
    have "io_ok api (s\<lparr>hp := h\<rparr>)" using that(1,3) by (intro io_ok_hp write_cells_shape) (auto simp: io_ok_heap)
    from io_ok_put_ic [OF this, of q ic jc] that show ?thesis by (simp add: put_ic_hp)
  qed
  have send: "returns (\<lambda>(r, s'). io_ok api s') (bindR (createIOCPContext api p len s) (\<lambda>(q, s).
              bindR (get_sc p s) (\<lambda>sc.
              bindR (get_ic q s) (\<lambda>ic.
              if int (length d) < len then Inl OutOfBounds
              else
                bindR (write_cells (wsabuf_buf ic) 0 (map Some (take (nat len) d)) (hp s)) (\<lambda>h.
                bindR (postSend os q ((put_ic q (ic\<lparr>ic_socket := sc_socket sc, ic_addr := sc_addr sc,
                           ic_operation := SIG_SEND, bytesToRecv := len\<rparr>) s)\<lparr>hp := h\<rparr>)) (\<lambda>(posted, s).
                if posted then Inr (True, s)
                else bindR (removeIOCPContext api p (contextIndex ic) s) (\<lambda>(_, s). Inr (False, s))))))))"
    if "io_ok api s" for d s
    by (rule returns_bind [OF createIOCPContext_keeps [OF that]])
      (auto intro!: returns_bind [OF returns_get_sc] returns_bind [OF returns_get_ic] returns_write post fill
        simp: same_buffers_def)
  have "returns (\<lambda>(r, s'). io_ok api s') (shared api io_lock set_io_lock (\<lambda>s. Inr (map_of (socketContextMap s) p = None, s)) s)"
    by (rule returns_shared) (simp add: assms)
  then show ?thesis
    unfolding sendData_def Let_def using assms
    by (auto split: option.split intro!: send returns_bind [of "\<lambda>(r, s'). io_ok api s'"] adopt_connection_keeps)
qed

lemma repost_accept_keeps [keeps]:
  "io_ok api s \<Longrightarrow> returns (io_ok api) (repost_accept api os q s)"
  unfolding repost_accept_def Let_def
  by (rule returns_bind [OF returns_get_ic], rule returns_bind [OF postAccept_keeps])
    (auto intro!: remove_after_keeps')

lemma work_error_keeps [keeps]:
  "io_ok api s \<Longrightarrow> returns (io_ok api) (work_error api os n p q b s)"
  unfolding work_error_def Let_def
  by (auto intro!: close_after_keeps' returns_bind [OF returns_get_ic] repost_accept_keeps)

lemma doAccept_keeps [keeps]:
  assumes "io_ok api s"
  shows "returns (\<lambda>(r, s'). io_ok api s') (doAccept api os p q n s)"
proof -
  have undo: "returns (\<lambda>(r, s'). io_ok api s') (bindR (release_socket psc s) (\<lambda>s.
      bindR (SocketContext_delete psc s) (postAccept os q)))" if "io_ok api s" for psc s
    by (rule returns_bind [OF release_socket_keeps [OF that]])
      (auto intro!: returns_bind [OF SocketContext_delete_keeps] postAccept_keeps)
  have finish: "returns (\<lambda>(r, s'). io_ok api s') (bindR (ResetBuffer q s) (postAccept os q))" if "io_ok api s" for s
    by (rule returns_bind [OF ResetBuffer_keeps [OF that]]) (auto intro!: postAccept_keeps)
  have register: "returns (\<lambda>(r, s'). io_ok api s') (exclusive api io_lock set_io_lock (\<lambda>s. Inr ((), s\<lparr>socketContextMap := f s\<rparr>)) s)"
    if "io_ok api s" for f s
    by (rule returns_exclusive) (simp add: that)
  have read: "returns (\<lambda>(r, s'). io_ok api s')
      (bindR (peek buf 0 h) (\<lambda>data. bindR (matchHeader (Some data) n Packet_default) (\<lambda>(matched, packet).
       bindR (if matched \<and> \<not> (matched \<and> getPacketLength packet = n) then keep_partial c packet buf n s else Inr s) (\<lambda>s.
       bindR (postRecv os c s) (\<lambda>(posted, s).
       if \<not> posted then bindR (release_socket psc s) (\<lambda>s. bindR (SocketContext_delete psc s) (postAccept os q))
       else
         bindR (exclusive api io_lock set_io_lock (\<lambda>s.
           Inr ((), s\<lparr>socketContextMap := snd (smap_insert psc k (socketContextMap s))\<rparr>)) s) (\<lambda>(_, s).
         bindR (ResetBuffer q (if matched \<and> getPacketLength packet = n
                  then run_recv_callback p (Some (take (nat n) data)) n
                         (s\<lparr>callbackInvokedNum := callbackInvokedNum s + 1\<rparr>)
                  else s)) (postAccept os q)))))))" if "io_ok api s" for buf h c k psc s
  proof (rule returns_peek, rule returns_bind [OF returns_any], clarify, rule returns_bind [of "io_ok api"])
    fix matched packet
    show "returns (io_ok api)
      (if matched \<and> \<not> (matched \<and> getPacketLength packet = n) then keep_partial c packet buf n s else Inr s)"
      using that returns_mono [OF keep_partial_keeps [OF that]] by auto
  qed (auto intro!: returns_bind [OF postRecv_keeps] undo finish returns_bind [OF register])
  have body: "returns (\<lambda>(r, s'). io_ok api s') (bindR (createIOCPContext api psc DEFAULT_BUF_SIZ s) (\<lambda>(c, s).
      bindR (get_ic c s) (\<lambda>cx. g c (put_ic c (cx\<lparr>ic_socket := k, ic_addr := a, ic_operation := SIG_RECV\<rparr>) s))))"
    if "io_ok api s" "\<And>c s. io_ok api s \<Longrightarrow> returns (\<lambda>(r, s'). io_ok api s') (g c s)"
    for psc k a g s
    by (rule create_and_mark_keeps [OF that(1)]) (use that(2) in auto)
  show ?thesis
    unfolding doAccept_def Let_def
    by (rule returns_bind [OF returns_get_ic],
        auto split: prod.split dest!: SocketContext_create_keeps ask_keeps [where api = api] simp: assms
          intro!: returns_bind [OF returns_get_sc] returns_bind [OF timer_start_keeps] io_ok_put_sc,
        rule body)
      (auto split: prod.split dest!: ask_keeps [where api = api] intro!: undo read [simplified])
qed

lemma work_completion_keeps [keeps]:
  assumes "io_ok api s"
  shows "returns (\<lambda>(r, s'). io_ok api s') (work_completion api os n p q s)"
proof -
  have acc: "returns (\<lambda>(r, s'). io_ok api s') (bindR (doAccept api os p q n s) (\<lambda>(ok, s).
      if ok then Inr (False, s\<lparr>connectNum := connectNum s + 1\<rparr>)
      else bindR (removeIOCPContext api LISTEN k s) (\<lambda>(_, s). Inr (False, s))))" if "io_ok api s" for k s
    by (rule returns_bind [OF doAccept_keeps [OF that]]) (auto intro!: remove_after_keeps)
  have cl: "returns (\<lambda>(r, s'). io_ok api s') (bindR (close_after api p m) (\<lambda>s. Inr (False, s)))"
    if "returns (\<lambda>(r, s'). io_ok api s') m" for m
    by (rule returns_bind [OF close_after_keeps [OF that]]) simp
  have dc: "returns (\<lambda>(r, s'). io_ok api s') (bindR (doCloseConnection api p s) (\<lambda>(_, s).
      Inr (False, s\<lparr>normallyClosedNum := normallyClosedNum s + 1\<rparr>)))" if "io_ok api s" for s
    by (rule returns_bind [OF doCloseConnection_keeps [OF that]]) auto
  have ex: "returns (\<lambda>(r, s'). io_ok api s') (bindR (SocketContext_delete p s) (\<lambda>s. Inr (True, s)))" if "io_ok api s" for s
    by (rule returns_bind [OF SocketContext_delete_keeps [OF that]]) simp
  have pc: "returns (\<lambda>(r, s'). io_ok api s') (bindR (postCloseConnection api p s) (\<lambda>(_, s). Inr (False, s)))" if "io_ok api s" for s
    by (rule returns_bind [OF postCloseConnection_keeps [OF that]]) auto
  have re: "returns (\<lambda>(r, s'). io_ok api s') (bindR (repost_accept api os q s) (\<lambda>s. Inr (False, s)))" if "io_ok api s" for s
    by (rule returns_bind [OF repost_accept_keeps [OF that]]) auto
  show ?thesis
    unfolding work_completion_def
    by (rule returns_bind [OF timer_start_keeps [OF assms]], rule returns_bind [OF returns_get_ic])
      (auto split: IOCPOperationSignal.split intro!: acc cl dc ex pc re doRecv_keeps doSend_keeps returns_bind [OF returns_get_sc])
qed

lemma IOCPWorkThread_keeps [keeps]:
  assumes "io_ok api s"
  shows "returns (\<lambda>(w, s'). io_ok api s') (IOCPWorkThread api os dq w s)"
  unfolding IOCPWorkThread_def Let_def
  by (auto split: dequeue.split simp: assms intro!: returns_bind [OF work_error_keeps] returns_bind [OF work_completion_keeps])

lemma standby_socket_keeps [keeps]:
  assumes "io_ok api s"
  shows "returns (io_ok api) (standby_socket api os s)"
  unfolding standby_socket_def
  by (rule create_and_mark_keeps [OF assms])
    (auto intro!: returns_bind [OF postAccept_keeps] remove_after_keeps')

lemma start_workers_keeps [keeps]:
  assumes "io_ok api s"
  shows "returns (io_ok api) (start_workers os s)"
  unfolding start_workers_def ask_def prod.case
  by (rule returns_bind [OF returns_any]) (use assms in simp)

lemma initIOCP_keeps [keeps]:
  assumes "io_ok api s"
  shows "returns (\<lambda>(r, s'). io_ok api s') (initIOCP api os s)"
proof -
  have all: "returns (io_ok api) (foldR (\<lambda>_. standby_socket api os) xs s)" if "io_ok api s" for xs :: "nat list" and s
    by (rule returns_foldR) (auto intro: standby_socket_keeps that)
  have ex: "returns (\<lambda>(r, s'). io_ok api s') (bindR (start_workers os s) (\<lambda>s. bindR (exclusive api io_lock set_io_lock (\<lambda>s.
          bindR (foldR (\<lambda>_. standby_socket api os) [0..<maxStandbySocket s] s) (\<lambda>s. Inr ((), s))) s) (\<lambda>(_, s).
        Inr (True, s\<lparr>io_status := STATUS_RUNNING\<rparr>))))" if "io_ok api s" for s
    by (rule returns_bind [OF start_workers_keeps [OF that]], rule returns_bind [OF returns_exclusive])
      (auto intro!: returns_bind [OF all])
  have tail: "returns (\<lambda>(r, s'). io_ok api s')
     (case ask (CreateIoCompletionPort os) s of (port, s) \<Rightarrow>
      if \<not> port then Inr (False, s\<lparr>hIOCP := port\<rparr>)
      else case ask (CreateIoCompletionPort os) (s\<lparr>hIOCP := port\<rparr>) of (bound, s) \<Rightarrow>
      if \<not> bound then Inr (False, s)
      else case ask (os_bind os) s of (b, s) \<Rightarrow>
      if \<not> b then Inr (False, s)
      else case ask (os_listen os) s of (l, s) \<Rightarrow>
      if \<not> l then Inr (False, s)
      else case GetFunctionAddress os s of (f, s) \<Rightarrow>
      if \<not> f then Inr (False, s)
      else bindR (start_workers os s) (\<lambda>s. bindR (exclusive api io_lock set_io_lock (\<lambda>s.
          bindR (foldR (\<lambda>_. standby_socket api os) [0..<maxStandbySocket s] s) (\<lambda>s. Inr ((), s))) s) (\<lambda>(_, s).
        Inr (True, s\<lparr>io_status := STATUS_RUNNING\<rparr>))))" if "io_ok api s" for s
    using that by (simp add: ask_def GetFunctionAddress_def ex)
  obtain b s1 where lib: "LoadSocketLib os (s\<lparr>connectNum := 0, normallyClosedNum := 0, errorNum := 0, callbackInvokedNum := 0\<rparr>) = (b, s1)"
    by (metis prod.exhaust)
  obtain k s2 where sock: "new_socket os s1 = (k, s2)" by (metis prod.exhaust)
  have "io_ok api s2" using lib assms new_socket_keeps [OF sock, of api] by (auto simp: LoadSocketLib_def ask_def)
  then have put: "io_ok api (put_sc LISTEN (sc\<lparr>sc_socket := k, sc_addr := a\<rparr>) s2)" if "scs s2 LISTEN = Some sc" for sc a
    using that by (intro io_ok_put_sc) auto
  show ?thesis
    unfolding initIOCP_def Let_def lib sock prod.case
    by (rule returns_bind [OF returns_get_sc], split if_split, intro conjI impI)
      (unfold returns_simps(1) prod.case, rule put, blast, rule tail, rule put, blast)
qed

lemma post_exit_keeps [keeps]:
  assumes "io_ok api s"
  shows "returns (io_ok api) (post_exit api s)"
proof -
  have "returns (io_ok api) (bindR (createIOCPContext api p DEFAULT_BUF_SIZ s) (\<lambda>(q, s). bindR (get_ic q s) (\<lambda>ic.
      Inr ((put_ic q (ic\<lparr>ic_operation := SIG_EXIT\<rparr>) s)
        \<lparr>port_queue := port_queue (put_ic q (ic\<lparr>ic_operation := SIG_EXIT\<rparr>) s) @ [(1, p, q)]\<rparr>))))"
    if "io_ok api s" for p s
    by (rule create_and_mark_keeps [OF that]) auto
  then show ?thesis
    unfolding post_exit_def Let_def using assms by (auto split: prod.split dest!: SocketContext_create_keeps)
qed

text \<open>Deleting the operations of the listening connection, as \<^verbatim>\<open>stopIOCP\<close> does it.\<close>

lemma delete_accepts_ok:
  "ics_ok s \<Longrightarrow> distinct (map snd es) \<Longrightarrow> (\<forall>e \<in> set es. ics s (snd e) \<noteq> None) \<Longrightarrow>
     \<exists>s'. foldR (\<lambda>e s. bindR (get_ic (snd e) s) (\<lambda>ic. IOCPContext_delete (snd e) (closesocket (ic_socket ic) s))) es s = Inr s' \<and>
       ics_ok s' \<and> ics s' = ics s |` (- (snd ` set es)) \<and> scs s' = scs s \<and> next_obj s' = next_obj s \<and>
       port_queue s' = port_queue s \<and> io_lock s' = io_lock s"
proof (induction es arbitrary: s)
  case Nil
  then show ?case by (auto simp: fun_eq_iff restrict_map_def)
next
  case (Cons e es)
  then obtain ic where ic: "ics s (snd e) = Some ic" by auto
  let ?s = "closesocket (ic_socket ic) s"
  have nx: "next_obj ?s = next_obj s" "port_queue ?s = port_queue s" "io_lock ?s = io_lock s"
    by (simp_all add: closesocket_def split: option.split)
  have "ics_ok ?s" using Cons.prems(1) by (simp add: ics_ok_def nx)
  then obtain h1 where h1: "IOCPContext_delete (snd e) ?s = Inr (?s\<lparr>hp := h1, ics := (ics ?s)(snd e := None)\<rparr>)"
    "ics_ok (?s\<lparr>hp := h1, ics := (ics ?s)(snd e := None)\<rparr>)"
    using IOCPContext_delete_ok [of ?s "snd e" ic] ic by auto
  let ?t = "?s\<lparr>hp := h1, ics := (ics ?s)(snd e := None)\<rparr>"
  have "\<forall>e' \<in> set es. ics ?t (snd e') \<noteq> None" "distinct (map snd es)"
    using Cons.prems(2,3) by (auto simp: image_iff)
  from Cons.IH [OF h1(2) this(2) this(1)] obtain s' where s':
    "foldR (\<lambda>e s. bindR (get_ic (snd e) s) (\<lambda>ic. IOCPContext_delete (snd e) (closesocket (ic_socket ic) s))) es ?t = Inr s'"
    "ics_ok s'" "ics s' = ics ?t |` (- (snd ` set es))" "scs s' = scs ?t" "next_obj s' = next_obj ?t"
    "port_queue s' = port_queue ?t" "io_lock s' = io_lock ?t"
    by blast
  moreover have "ics ?t |` (- (snd ` set es)) = ics s |` (- (snd ` set (e # es)))"
    by (auto simp: fun_eq_iff restrict_map_def)
  ultimately show ?case using h1(1) nx ics_okD(3) [OF Cons.prems(1) ic] by auto
qed

lemma listed_operations:
  assumes "io_ok api s" and "scs s p = Some sc"
  shows "distinct (map snd (IOCPContextMap sc)) \<and> (\<forall>e \<in> set (IOCPContextMap sc). ics s (snd e) \<noteq> None)"
proof -
  have ok: "scs_ok api s" using assms(1) by (simp add: io_ok_def)
  note sc = scs_okD [OF ok assms(2)]
  have smap: "smap_ok (IOCPContextMap sc)" using sc(4) by (simp add: sc_ok_def)
  have mem: "map_of (IOCPContextMap sc) k = Some q" if "(k, q) \<in> set (IOCPContextMap sc)" for k q
    using that smap_ok_distinct [OF smap] by simp
  have "i = j" if "map_of (IOCPContextMap sc) i = Some r" "map_of (IOCPContextMap sc) j = Some r" for i j r
    using ok that assms(2) unfolding scs_ok_def by blast
  then have "inj_on snd (set (IOCPContextMap sc))" using mem by (intro inj_onI) (metis prod.collapse)
  moreover have "distinct (IOCPContextMap sc)" using smap_ok_distinct [OF smap] by (simp add: distinct_map)
  moreover have "\<forall>e \<in> set (IOCPContextMap sc). ics s (snd e) \<noteq> None"
    using sc(4) mem by (fastforce simp: sc_ok_def)
  ultimately show ?thesis by (simp add: distinct_map)
qed

lemma scs_ok_cleared:
  assumes "io_ok api s" and "scs s p = Some sc"
    and "scs t = (scs s)(p \<mapsto> sc\<lparr>IOCPContextMap := []\<rparr>)" and "next_obj t = next_obj s"
    and "ics t = ics s |` (- (snd ` set (IOCPContextMap sc)))"
  shows "scs_ok api t"
proof -
  obtain s' where s': "io_ok api s'" "scs s' = (scs s)(p := None)" "ics s' = ics t"
    using SocketContext_delete_ok [OF assms(1,2)] assms(4,5) by auto
  have ok: "scs_ok api s" "scs_ok api s'" using assms(1) s'(1) by (simp_all add: io_ok_def)
  have new: "sc_ok api t (sc\<lparr>IOCPContextMap := []\<rparr>)"
    using scs_okD(4) [OF ok(1) assms(2)] by (simp add: sc_ok_def smap_ok_def)
  have old: "scs s' q = Some x" if "scs t q = Some x" "q \<noteq> p" for q x using that by (simp add: s'(2) assms(3))
  have "sc_ok api t x" if "scs t q = Some x" "q \<noteq> p" for q x
    using scs_okD(4) [OF ok(2) old [OF that]] by (simp add: sc_ok_def s'(3))
  moreover have "a = b \<and> k = k'" if "scs t a = Some x" "scs t b = Some y" "map_of (IOCPContextMap x) k = Some r"
    "map_of (IOCPContextMap y) k' = Some r" for a b x y k k' r
  proof -
    have "a \<noteq> p" "b \<noteq> p" using that assms(3) by auto
    then have "scs s' a = Some x" "scs s' b = Some y" using that(1,2) old by blast+
    with that(3,4) show ?thesis using ok(2) unfolding scs_ok_def by blast
  qed
  moreover have "q \<noteq> 0 \<and> q < next_obj t" if "scs t q = Some x" for q x
    using that scs_okD(1,2) [OF ok(1)] assms(2-4) by (auto split: if_splits)
  moreover have "sc_ok api t x" if "scs t p = Some x" for x using that new assms(3) by simp
  ultimately show ?thesis unfolding scs_ok_def by blast
qed

lemma stopIOCP_keeps [keeps]:
  assumes "io_ok api s"
  shows "returns (\<lambda>(r, s'). io_ok api s') (stopIOCP api s)"
proof -
  have exits: "returns (io_ok api) (foldR (\<lambda>_. post_exit api) xs s)" if "io_ok api s" for xs :: "nat list" and s
    by (rule returns_foldR) (auto intro: post_exit_keeps that)
  have clear: "returns (\<lambda>(r, s'). io_ok api s') (bindR (get_sc LISTEN s) (\<lambda>sc.
       bindR (foldR (\<lambda>e s. bindR (get_ic (snd e) s) (\<lambda>ic. IOCPContext_delete (snd e) (closesocket (ic_socket ic) s)))
         (IOCPContextMap sc) (s\<lparr>hIOCP := False\<rparr>)) (\<lambda>s.
       bindR (get_sc LISTEN s) (\<lambda>sc. Inr (True, put_sc LISTEN (sc\<lparr>IOCPContextMap := []\<rparr>) s)))))"
    if ok: "io_ok api s" for s
  proof (rule returns_bind [OF returns_get_sc], clarify)
    fix sc assume sc: "scs s LISTEN = Some sc"
    have okp: "ics_ok s" "scs_ok api s" using ok by (simp_all add: io_ok_def)
    have scok: "sc_ok api s sc" by (rule scs_okD(4) [OF okp(2) sc])
    have es: "distinct (map snd (IOCPContextMap sc))" "\<forall>e \<in> set (IOCPContextMap sc). ics s (snd e) \<noteq> None"
      using listed_operations [OF ok sc] by auto
    have "ics_ok (s\<lparr>hIOCP := False\<rparr>)" using okp(1) by (simp add: ics_ok_def)
    from delete_accepts_ok [OF this es(1)] es(2) obtain s1 where s1:
      "foldR (\<lambda>e s. bindR (get_ic (snd e) s) (\<lambda>ic. IOCPContext_delete (snd e) (closesocket (ic_socket ic) s)))
         (IOCPContextMap sc) (s\<lparr>hIOCP := False\<rparr>) = Inr s1"
      "ics_ok s1" "ics s1 = ics s |` (- (snd ` set (IOCPContextMap sc)))" "scs s1 = scs s" "next_obj s1 = next_obj s"
      by auto
    let ?t = "put_sc LISTEN (sc\<lparr>IOCPContextMap := []\<rparr>) s1"
    have "scs_ok api ?t" by (rule scs_ok_cleared [OF ok sc]) (simp_all add: s1 put_sc_def)
    moreover have "ics_ok ?t" using s1(2) by (simp add: put_sc_def ics_ok_scs)
    ultimately have "io_ok api ?t" by (simp add: io_ok_def)
    then show "returns (\<lambda>(r, s'). io_ok api s')
       (bindR (foldR (\<lambda>e s. bindR (get_ic (snd e) s) (\<lambda>ic. IOCPContext_delete (snd e) (closesocket (ic_socket ic) s)))
         (IOCPContextMap sc) (s\<lparr>hIOCP := False\<rparr>)) (\<lambda>s.
       bindR (get_sc LISTEN s) (\<lambda>sc. Inr (True, put_sc LISTEN (sc\<lparr>IOCPContextMap := []\<rparr>) s))))"
      using s1(1,4) sc by (simp add: get_sc_def LISTEN_def)
  qed
  show ?thesis
    unfolding stopIOCP_def Let_def
    by (rule returns_exclusive, rule returns_bind [OF returns_get_sc], rule returns_bind [OF exits])
      (auto intro!: clear simp: assms)
qed

end

section \<open>Runs\<close>

text \<open>
  The steps of the module: operations of its clients and turns of its worker threads, one after
  another, with the answers \<open>os\<close> of the system, any completion in the hands of a worker and any
  data arriving in the buffer of an operation.
\<close>

inductive io_step :: "'l srw_api \<Rightarrow> os \<Rightarrow> 'l IOCPModule \<Rightarrow> 'l IOCPModule \<Rightarrow> bool" for api os where
  init: "initIOCP api os s = Inr (b, s') \<Longrightarrow> io_step api os s s'"
| stop: "stopIOCP api s = Inr (b, s') \<Longrightarrow> io_step api os s s'"
| connect: "createConnectContext api os peer s = Inr (p, s') \<Longrightarrow> io_step api os s s'"
| send: "sendData api os p data len s = Inr (b, s') \<Longrightarrow> io_step api os s s'"
| close: "postCloseConnection api p s = Inr (u, s') \<Longrightarrow> io_step api os s s'"
| work: "IOCPWorkThread api os dq w s = Inr (w', s') \<Longrightarrow> io_step api os s s'"
| data: "deliver p d s = Inr s' \<Longrightarrow> io_step api os s s'"
| recv_callback: "io_step api os s (snd (setRecvCallback cb s))"
| send_callback: "io_step api os s (snd (setSendCallback cb s))"

inductive io_reach :: "'l srw_api \<Rightarrow> os \<Rightarrow> 'l IOCPModule \<Rightarrow> 'l IOCPModule \<Rightarrow> bool" for api os s0 where
  start: "io_reach api os s0 s0"
| step: "io_reach api os s0 s \<Longrightarrow> io_step api os s s' \<Longrightarrow> io_reach api os s0 s'"

lemma deliver_keeps: "io_ok api s \<Longrightarrow> returns (io_ok api) (deliver p d s)"
  unfolding deliver_def
  by (rule returns_bind [OF returns_get_ic])
    (auto intro!: returns_write io_ok_hp dest: write_cells_shape [OF _ io_ok_heap])

lemma io_step_keeps:
  assumes "srw_laws api" and "io_step api os s s'" and "io_ok api s"
  shows "io_ok api s'"
  using assms(2,3)
proof cases
  case init
  then show ?thesis using returnsD [OF srw_laws.initIOCP_keeps [OF assms(1,3)]] by fastforce
next
  case stop
  then show ?thesis using returnsD [OF srw_laws.stopIOCP_keeps [OF assms(1,3)]] by fastforce
next
  case connect
  then show ?thesis using returnsD [OF srw_laws.createConnectContext_keeps [OF assms(1,3)]] by fastforce
next
  case send
  then show ?thesis using returnsD [OF srw_laws.sendData_keeps [OF assms(1,3)]] by fastforce
next
  case close
  then show ?thesis using returnsD [OF srw_laws.postCloseConnection_keeps [OF assms(1,3)]] by fastforce
next
  case work
  then show ?thesis using returnsD [OF srw_laws.IOCPWorkThread_keeps [OF assms(1,3)]] by fastforce
next
  case data
  then show ?thesis using returnsD [OF deliver_keeps [OF assms(3)]] by fastforce
qed (auto simp: setRecvCallback_def setSendCallback_def)

section \<open>Properties\<close>



end
