(* ===== verification/IOCP_Lifecycle.thy ===== *)
theory IOCP_Lifecycle
  imports IOCP_Invariant
begin

text \<open>
  How connections of \<^verbatim>\<open>svr::IOCPModule\<close> end and begin: closing a connection happens once, an
  operation that is still under way when its connection is deleted is used after it was freed, and
  an accepted connection whose first data is longer than its packet overruns an array.
\<close>

section \<open>Accepting\<close>

text \<open>
  What \<^verbatim>\<open>doAccept\<close> still has to do once the new connection is bound to the completion port: \<open>psc\<close> is
  the new connection, \<open>pContext\<close> its first operation.
\<close>

definition accept_rest ::
  "'l srw_api \<Rightarrow> os \<Rightarrow> addr \<Rightarrow> addr \<Rightarrow> addr \<Rightarrow> addr \<Rightarrow> IOCPContext \<Rightarrow> int \<Rightarrow> 'l IOCPModule \<Rightarrow> (bool \<times> 'l IOCPModule) res" where
  "accept_rest api os pSC pIC psc pContext ic dataLength s =
       bindR (peek (wsabuf_buf ic) 0 (hp s)) (\<lambda>data.
       bindR (matchHeader (Some data) dataLength Packet_default) (\<lambda>(matched, packet).
       let processFlag = (matched \<and> getPacketLength packet = dataLength) in
       bindR (if matched \<and> \<not> processFlag then keep_partial pContext packet (wsabuf_buf ic) dataLength s
              else Inr s) (\<lambda>s.
       bindR (postRecv os pContext s) (\<lambda>(posted, s).
       if \<not> posted then
         bindR (release_socket psc s) (\<lambda>s.
         bindR (SocketContext_delete psc s) (postAccept os pIC))
       else
         bindR (exclusive api io_lock set_io_lock (\<lambda>s.
           Inr ((), s\<lparr>socketContextMap := snd (smap_insert psc (ic_socket ic) (socketContextMap s))\<rparr>)) s) (\<lambda>(_, s).
         let s = (if processFlag
                  then run_recv_callback pSC (Some (take (nat dataLength) data)) dataLength
                         (s\<lparr>callbackInvokedNum := callbackInvokedNum s + 1\<rparr>)
                  else s) in
         bindR (ResetBuffer pIC s) (postAccept os pIC))))))"

text \<open>The connection \<^verbatim>\<open>doAccept\<close> makes: the accepted socket and one receive operation under the key 1.\<close>

definition accepted_sc :: "'l srw_api \<Rightarrow> SOCKET \<Rightarrow> SOCKADDR_IN \<Rightarrow> int \<Rightarrow> addr \<Rightarrow> 'l SocketContext" where
  "accepted_sc api k a t q =
     (SocketContext_new api)\<lparr>sc_socket := k, sc_addr := a, sc_timer := t, sc_count := 1, IOCPContextMap := [(1, q)]\<rparr>"

definition accepted_ic :: "SOCKET \<Rightarrow> SOCKADDR_IN \<Rightarrow> addr \<Rightarrow> IOCPContext" where
  "accepted_ic k a buf =
     (fresh_ic (nat DEFAULT_BUF_SIZ) buf)\<lparr>contextIndex := 0, ic_socket := k, ic_addr := a, ic_operation := SIG_RECV\<rparr>"

text \<open>What a request to close a connection changes when it is the first one.\<close>

definition closing :: "'l IOCPModule \<Rightarrow> 'l IOCPModule \<Rightarrow> addr \<Rightarrow> 'l SocketContext \<Rightarrow> bool" where
  "closing s s' p sc' \<longleftrightarrow>
     scs s' = (scs s)(p \<mapsto> sc') \<and> (\<exists>ic. ics s' = (ics s)(next_obj s \<mapsto> ic) \<and> ic_operation ic = SIG_CLOSE_CONNECTION) \<and>
     (\<exists>k. map_of (IOCPContextMap sc') k = Some (next_obj s)) \<and>
     pending s' = pending s \<and> next_obj s' = Suc (next_obj s) \<and> calls s' = calls s \<and> io_counts s' = io_counts s"

section \<open>Under the module's lock\<close>

lemma set_smap_put: "map_of m k = None \<Longrightarrow> set (smap_put k v m) = insert (k, v) (set m)"
  by (induction k v m rule: smap_put.induct) (auto split: if_splits)

context srw_laws
begin

lemma exclusive_run:
  assumes "idle api (io_lock s)"
    and "\<And>l. \<exists>s'. body (set_io_lock l s) = Inr (r, s') \<and> io_lock s' = l \<and> P s'"
    and "\<And>l s'. P s' \<Longrightarrow> P (set_io_lock l s')"
  shows "\<exists>s'. exclusive api io_lock set_io_lock body s = Inr (r, s') \<and> io_lock s' = io_lock s \<and> P s'"
proof -
  obtain k where k: "AcquireExclusive api (io_lock s) = Inr k" "ReleaseExclusive api k = io_lock s"
    using AcquireExclusive_idle [OF assms(1)] by blast
  obtain s' where s': "body (set_io_lock k s) = Inr (r, s')" "io_lock s' = k" "P s'" using assms(2) by blast
  then show ?thesis
    using k assms(3) [OF s'(3)] by (intro exI [of _ "set_io_lock (io_lock s) s'"]) (simp add: exclusive_def set_io_lock_def)
qed

lemma exclusive_unchanged:
  assumes "idle api (io_lock s)" and "\<And>l. body (set_io_lock l s) = Inr (r, set_io_lock l s)"
  shows "exclusive api io_lock set_io_lock body s = Inr (r, s)"
  by (rule exclusive_eq) (use assms in \<open>simp_all add: set_io_lock_def\<close>)

text \<open>What the first request to close a connection does.\<close>

lemma postClose_first:
  assumes "io_ok api s" and "idle api (io_lock s)" and "scs s p = Some sc" and "map_of (socketContextMap s) p \<noteq> None"
    and "\<not> closeFlag sc"
  shows "\<exists>s' sc'. postCloseConnection api p s = Inr ((), s') \<and> io_lock s' = io_lock s \<and>
     (io_ok api s' \<and> port_queue s' = port_queue s @ [(1, p, next_obj s)] \<and> scs s' p = Some sc' \<and> closeFlag sc' \<and>
      snd ` set (IOCPContextMap sc') = insert (next_obj s) (snd ` set (IOCPContextMap sc)) \<and>
      socketContextMap s' = socketContextMap s \<and> ics s' (next_obj s) \<noteq> None) \<and> closing s s' p sc'"
proof -
  have ok: "scs_ok api s" using assms(1) by (simp add: io_ok_def)
  note sc = scs_okD [OF ok assms(3)]
  have smap: "smap_ok (IOCPContextMap sc)" "map_of (IOCPContextMap sc) (sc_count sc + 1) = None"
  proof -
    show "smap_ok (IOCPContextMap sc)" using sc(4) by (simp add: sc_ok_def)
    have "k \<le> sc_count sc" if "map_of (IOCPContextMap sc) k = Some q" for k q
      using sc(4) that unfolding sc_ok_def by blast
    from this [of "sc_count sc + 1"] show "map_of (IOCPContextMap sc) (sc_count sc + 1) = None" by fastforce
  qed
  let ?sc = "sc\<lparr>closeFlag := True\<rparr>"
  let ?sc' = "?sc\<lparr>sc_count := sc_count sc + 1, IOCPContextMap := smap_put (sc_count sc + 1) (next_obj s) (IOCPContextMap sc)\<rparr>"
  have mem: "snd ` set (smap_put (sc_count sc + 1) (next_obj s) (IOCPContextMap sc)) =
      insert (next_obj s) (snd ` set (IOCPContextMap sc))"
    using set_smap_put [OF smap(2)] by simp
  define body where "body = (\<lambda>s. if map_of (socketContextMap s) p = None then Inr ((), s)
        else
          bindR (get_sc p s) (\<lambda>sc.
            if \<not> closeFlag sc then
              bindR (createIOCPContext api p 4096 (put_sc p (sc\<lparr>closeFlag := True\<rparr>) s)) (\<lambda>(p', s).
              bindR (get_ic p' s) (\<lambda>ic.
                Inr ((), (put_ic p' (ic\<lparr>ic_operation := SIG_CLOSE_CONNECTION\<rparr>) s)
                  \<lparr>port_queue := port_queue (put_ic p' (ic\<lparr>ic_operation := SIG_CLOSE_CONNECTION\<rparr>) s) @ [(1, p, p')]\<rparr>)))
            else Inr ((), s)))"
  have "\<exists>s'. body (set_io_lock l s) = Inr ((), s') \<and> io_lock s' = l \<and>
     (io_ok api s' \<and> port_queue s' = port_queue s @ [(1, p, next_obj s)] \<and> scs s' p = Some ?sc' \<and>
      socketContextMap s' = socketContextMap s \<and> ics s' (next_obj s) \<noteq> None \<and> closing s s' p ?sc')" for l
  proof -
    let ?t = "put_sc p ?sc (set_io_lock l s)"
    have t: "io_ok api ?t" "scs ?t p = Some ?sc" "next_obj ?t = next_obj s"
      using assms(1,3) by (auto intro!: io_ok_put_sc simp: set_io_lock_def) (simp add: put_sc_def)
    from createIOCPContext_ok [OF t(1,2), of 4096] obtain h where h:
      "createIOCPContext api p 4096 ?t = Inr (next_obj s, created p 4096 ?sc h ?t)" "io_ok api (created p 4096 ?sc h ?t)"
      using t(3) by auto
    let ?u = "created p 4096 ?sc h ?t"
    let ?ic = "(fresh_ic 4096 (hp_next (hp ?t)))\<lparr>contextIndex := sc_count sc\<rparr>"
    have u: "ics ?u (next_obj s) = Some ?ic" "scs ?u p = Some ?sc'" "socketContextMap ?u = socketContextMap s"
      "port_queue ?u = port_queue s" "io_lock ?u = l"
      by (simp_all add: created_def Let_def put_sc_def set_io_lock_def)
    have cl: "\<exists>k. map_of (IOCPContextMap ?sc') k = Some (next_obj s)" using smap(1) by (intro exI [of _ "sc_count sc + 1"]) (simp add: smap.find_put)
    let ?v = "(put_ic (next_obj s) (?ic\<lparr>ic_operation := SIG_CLOSE_CONNECTION\<rparr>) ?u)\<lparr>port_queue := port_queue s @ [(1, p, next_obj s)]\<rparr>"
    have "ics_ok ?u" using h(2) by (simp add: io_ok_def)
    then have "get_ic (next_obj s) ?u = Inr ?ic" using u(1) by (rule ics_okD(3))
    moreover have "get_sc p (set_io_lock l s) = Inr sc" "map_of (socketContextMap (set_io_lock l s)) p \<noteq> None"
      "port_queue (put_ic q ic t) = port_queue t" for q ic and t :: "'l IOCPModule"
      using sc(1) assms(3,4) by (simp_all add: set_io_lock_def get_sc_def put_ic_def)
    ultimately have "body (set_io_lock l s) = Inr ((), ?v)"
      unfolding body_def using assms(5) h(1) u(4) by auto
    moreover have "io_ok api ?v" using h(2) u(1) by (auto intro!: IOCP_put_keeps)
    moreover have "closing s ?v p ?sc'"
      using cl by (auto simp: closing_def created_def Let_def put_sc_def put_ic_def set_io_lock_def io_counts_def)
    ultimately show ?thesis using u(2,3,5) by (intro exI [of _ ?v]) (simp add: put_ic_def)
  qed
  from exclusive_run [OF assms(2) this] have "\<exists>s'. exclusive api io_lock set_io_lock body s = Inr ((), s') \<and> io_lock s' = io_lock s \<and>
     (io_ok api s' \<and> port_queue s' = port_queue s @ [(1, p, next_obj s)] \<and> scs s' p = Some ?sc' \<and>
      socketContextMap s' = socketContextMap s \<and> ics s' (next_obj s) \<noteq> None \<and> closing s s' p ?sc')"
    by (simp add: set_io_lock_def closing_def io_counts_def)
  moreover have "postCloseConnection api p s = exclusive api io_lock set_io_lock body s"
    using sc(1) unfolding postCloseConnection_def Let_def body_def by simp
  ultimately obtain s' where s': "postCloseConnection api p s = Inr ((), s')" "io_lock s' = io_lock s" "io_ok api s'"
    "port_queue s' = port_queue s @ [(1, p, next_obj s)]" "scs s' p = Some ?sc'" "socketContextMap s' = socketContextMap s"
    "ics s' (next_obj s) \<noteq> None" "closing s s' p ?sc'" by auto
  show ?thesis
    by (rule exI [of _ s'], rule exI [of _ ?sc']) (use s' mem in simp)
qed

text \<open>Requests that find nothing to close, and the close itself.\<close>

lemma postClose_again:
  assumes "idle api (io_lock s)" and "map_of (socketContextMap s) p = None \<or> (\<exists>sc. scs s p = Some sc \<and> closeFlag sc)"
  shows "postCloseConnection api p s = Inr ((), s)"
proof (cases "p = 0")
  case False
  show ?thesis
    unfolding postCloseConnection_def if_not_P [OF False]
    by (rule exclusive_unchanged [OF assms(1)]) (use assms(2) False in \<open>auto simp: get_sc_def set_io_lock_def\<close>)
qed (simp add: postCloseConnection_def)

lemma doClose_first:
  assumes "io_ok api s" and "idle api (io_lock s)" and "scs s p = Some sc" and "map_of (socketContextMap s) p \<noteq> None"
  shows "\<exists>s'. doCloseConnection api p s = Inr ((), s') \<and> io_lock s' = io_lock s \<and>
     (io_ok api s' \<and> scs s' = (scs s)(p := None) \<and> ics s' = ics s |` (- (snd ` set (IOCPContextMap sc))) \<and>
      map_of (socketContextMap s') p = None \<and> socketContextMap s' = smap_erase p (socketContextMap s) \<and>
      pending s' = pending s \<and> port_queue s' = port_queue s \<and> next_obj s' = next_obj s \<and> calls s' = calls s \<and> io_counts s' = io_counts s)"
  unfolding doCloseConnection_def
proof (rule exclusive_run [OF assms(2)])
  fix l
  have "io_ok api (set_io_lock l s)" "scs (set_io_lock l s) p = Some sc" using assms(1,3) by (simp_all add: set_io_lock_def)
  from SocketContext_delete_ok [OF this] obtain s' where s': "SocketContext_delete p (set_io_lock l s) = Inr s'" "io_ok api s'"
    "scs s' = (scs s)(p := None)" "ics s' = ics s |` (- (snd ` set (IOCPContextMap sc)))" "io_lock s' = l"
    "socketContextMap s' = socketContextMap s" "pending s' = pending s" "port_queue s' = port_queue s"
    "next_obj s' = next_obj s" "calls s' = calls s" "io_counts s' = io_counts s"
    by (auto simp: set_io_lock_def io_counts_def)
  then show "\<exists>s'. (if map_of (socketContextMap (set_io_lock l s)) p \<noteq> None
        then bindR (SocketContext_delete p (set_io_lock l s)) (\<lambda>s. Inr ((), s\<lparr>socketContextMap := smap_erase p (socketContextMap s)\<rparr>))
        else Inr ((), set_io_lock l s)) = Inr ((), s') \<and> io_lock s' = l \<and>
     (io_ok api s' \<and> scs s' = (scs s)(p := None) \<and> ics s' = ics s |` (- (snd ` set (IOCPContextMap sc))) \<and>
      map_of (socketContextMap s') p = None \<and> socketContextMap s' = smap_erase p (socketContextMap s) \<and>
      pending s' = pending s \<and> port_queue s' = port_queue s \<and> next_obj s' = next_obj s \<and> calls s' = calls s \<and> io_counts s' = io_counts s)"
    using assms(4) by (auto simp: map_of_smap_erase set_io_lock_def io_counts_def)
qed (auto simp: set_io_lock_def io_counts_def)

lemma doClose_again:
  assumes "idle api (io_lock s)" and "map_of (socketContextMap s) p = None"
  shows "doCloseConnection api p s = Inr ((), s)"
  unfolding doCloseConnection_def
  by (rule exclusive_unchanged [OF assms(1)]) (use assms(2) in \<open>simp add: set_io_lock_def\<close>)

text \<open>If the system plays along, \<^verbatim>\<open>doAccept\<close> makes a connection with one receive operation.\<close>

lemma doAccept_connected:
  assumes "io_ok api s" and "ics s p = Some ic"
    and "\<And>n. QueryPerformanceCounter os n \<noteq> None" and "\<And>n. CreateIoCompletionPort os n"
  shows "\<exists>psc q a t s'. doAccept api os pSC p len s = accept_rest api os pSC p psc q ic len s' \<and> io_ok api s' \<and>
     psc = next_obj s \<and> q = Suc (next_obj s) \<and>
     ics s' = (ics s)(q \<mapsto> accepted_ic (ic_socket ic) a (hp_next (hp s))) \<and>
     scs s' = (scs s)(psc \<mapsto> accepted_sc api (ic_socket ic) a t q) \<and>
     blocks (hp s') = (blocks (hp s))(hp_next (hp s) \<mapsto> replicate (nat DEFAULT_BUF_SIZ) (Some (CHR 0x00))) \<and>
     calls s' = calls s \<and> socketContextMap s' = socketContextMap s \<and> io_lock s' = io_lock s \<and>
     pRecvCallback s' = pRecvCallback s \<and> pending s' = pending s \<and> port_queue s' = port_queue s \<and>
     next_obj s' = Suc (Suc (next_obj s)) \<and> io_counts s' = io_counts s"
proof -
  have ok: "ics_ok s" "scs_ok api s" using assms(1) by (simp_all add: io_ok_def)
  let ?psc = "next_obj s" and ?q = "Suc (next_obj s)"
  obtain t where t: "QueryPerformanceCounter os (Suc (tick s)) = Some t" using assms(3) by blast
  define a where "a = GetAcceptExSockAddrs os (tick s)"
  let ?s1 = "s\<lparr>tick := Suc (tick s)\<rparr>"
  obtain psc s2 where s2: "SocketContext_create api ?s1 = (psc, s2)" by (metis prod.exhaust)
  have s2': "psc = ?psc" "s2 = (put_sc ?psc (SocketContext_new api) ?s1)\<lparr>next_obj := ?q\<rparr>"
    using s2 by (auto simp: SocketContext_create_def)
  have k2: "io_ok api s2" "scs s2 ?psc = Some (SocketContext_new api)"
    using SocketContext_create_keeps [OF s2] assms(1) s2'(1) by simp_all
  define sc where "sc = (SocketContext_new api)\<lparr>sc_socket := ic_socket ic, sc_addr := a, sc_timer := t\<rparr>"
  define s4 where "s4 = (put_sc ?psc sc s2)\<lparr>tick := Suc (Suc (tick s))\<rparr>"
  have k4: "io_ok api s4" "scs s4 ?psc = Some sc" unfolding s4_def using k2 by (auto intro!: io_ok_put_sc simp: sc_def)
  have nz: "?psc \<noteq> 0" using ics_ok_next [OF ok(1)] by simp
  have t4: "timer_start os ?psc (put_sc ?psc ((SocketContext_new api)\<lparr>sc_socket := ic_socket ic, sc_addr := a\<rparr>) s2) = Inr s4"
    using t nz unfolding s4_def sc_def s2'(2) by (simp add: timer_start_def get_sc_def ask_def put_sc_def)
  have n4: "next_obj s4 = ?q" "hp s4 = hp s" "ics s4 = ics s" "scs s4 = (scs s)(?psc \<mapsto> sc)"
    by (simp_all add: s4_def s2'(2) put_sc_def)
  from createIOCPContext_ok [OF k4, of DEFAULT_BUF_SIZ] n4 obtain h where h:
    "createIOCPContext api ?psc DEFAULT_BUF_SIZ s4 = Inr (?q, created ?psc DEFAULT_BUF_SIZ sc h s4)"
    "io_ok api (created ?psc DEFAULT_BUF_SIZ sc h s4)"
    "blocks h = (blocks (hp s))(hp_next (hp s) \<mapsto> replicate (nat DEFAULT_BUF_SIZ) (Some (CHR 0x00)))"
    by (auto simp: DEFAULT_BUF_SIZ_def)
  let ?u = "created ?psc DEFAULT_BUF_SIZ sc h s4"
  let ?c = "(fresh_ic (nat DEFAULT_BUF_SIZ) (hp_next (hp s)))\<lparr>contextIndex := 0\<rparr>"
  have cu: "ics ?u ?q = Some ?c" by (simp add: created_def Let_def n4 sc_def SocketContext_new_def)
  have gu: "get_ic ?q ?u = Inr ?c" using ics_okD(3) [OF _ cu] h(2) by (simp add: io_ok_def)
  define s6 where "s6 = (put_ic ?q (accepted_ic (ic_socket ic) a (hp_next (hp s))) ?u)\<lparr>tick := Suc (Suc (Suc (tick s)))\<rparr>"
  have same: "?c\<lparr>ic_socket := ic_socket ic, ic_addr := a, ic_operation := SIG_RECV\<rparr> = accepted_ic (ic_socket ic) a (hp_next (hp s))"
    by (simp add: accepted_ic_def)
  have k6: "io_ok api s6" unfolding s6_def using h(2) cu by (auto intro!: IOCP_put_keeps simp: accepted_ic_def)
  have tu: "tick ?u = Suc (Suc (tick s))" by (simp add: created_def Let_def s4_def)
  have psc: "get_sc ?psc s2 = Inr (SocketContext_new api)" using k2(2) nz by (simp add: get_sc_def)
  have asks: "ask (GetAcceptExSockAddrs os) s = (a, ?s1)"
    "ask (CreateIoCompletionPort os) (put_ic ?q (accepted_ic (ic_socket ic) a (hp_next (hp s))) ?u) = (True, s6)"
    using assms(4) tu by (simp_all add: ask_def a_def s6_def put_ic_def)
  have "doAccept api os pSC p len s = accept_rest api os pSC p ?psc ?q ic len s6"
    unfolding doAccept_def accept_rest_def
    using ics_okD(3) [OF ok(1) assms(2)] asks s2 s2'(1) t4 h(1) gu psc by (simp add: same)
  moreover have "ics s6 = (ics s)(?q \<mapsto> accepted_ic (ic_socket ic) a (hp_next (hp s)))"
    "scs s6 = (scs s)(?psc \<mapsto> accepted_sc api (ic_socket ic) a t ?q)"
    by (simp_all add: s6_def created_def Let_def n4 put_ic_def accepted_sc_def sc_def SocketContext_new_def)
  moreover have "blocks (hp s6) = (blocks (hp s))(hp_next (hp s) \<mapsto> replicate (nat DEFAULT_BUF_SIZ) (Some (CHR 0x00)))"
    "calls s6 = calls s" "socketContextMap s6 = socketContextMap s" "io_lock s6 = io_lock s"
    "pRecvCallback s6 = pRecvCallback s" "pending s6 = pending s" "port_queue s6 = port_queue s"
    "next_obj s6 = Suc (Suc (next_obj s))" "io_counts s6 = io_counts s"
    using h(3) by (simp_all add: s6_def created_def Let_def put_ic_def s4_def s2'(2) put_sc_def io_counts_def)
  ultimately show ?thesis using k6 by blast
qed

end

section \<open>Properties\<close>

text \<open>
  C15. Closing a connection happens once: the first request puts one close packet into the port, a
  second one does nothing; the worker that takes the packet deletes the connection with all its
  operations; requests and close packets that come after that do nothing (no double free).
\<close>

theorem close_connection_once:
  assumes "srw_laws api" and "io_ok api s" and "idle api (io_lock s)" and "scs s p = Some sc"
    and "map_of (socketContextMap s) p \<noteq> None" and "\<not> closeFlag sc"
  shows "\<exists>q s1 s2. postCloseConnection api p s = Inr ((), s1) \<and> port_queue s1 = port_queue s @ [(1, p, q)] \<and>
     ics s1 q \<noteq> None \<and> postCloseConnection api p s1 = Inr ((), s1) \<and>
     doCloseConnection api p s1 = Inr ((), s2) \<and> io_ok api s2 \<and> scs s2 = (scs s1)(p := None) \<and> ics s2 q = None \<and>
     (\<forall>r \<in> snd ` set (IOCPContextMap sc). ics s2 r = None) \<and>
     doCloseConnection api p s2 = Inr ((), s2) \<and> postCloseConnection api p s2 = Inr ((), s2)"
proof -
  note L = srw_laws.postClose_first [OF assms(1)] srw_laws.postClose_again [OF assms(1)]
    srw_laws.doClose_first [OF assms(1)] srw_laws.doClose_again [OF assms(1)]
  obtain s1 sc1 where s1: "postCloseConnection api p s = Inr ((), s1)" "io_lock s1 = io_lock s" "io_ok api s1"
    "port_queue s1 = port_queue s @ [(1, p, next_obj s)]" "scs s1 p = Some sc1" "closeFlag sc1"
    "snd ` set (IOCPContextMap sc1) = insert (next_obj s) (snd ` set (IOCPContextMap sc))"
    "socketContextMap s1 = socketContextMap s" "ics s1 (next_obj s) \<noteq> None"
    using L(1) [OF assms(2-6)] by blast
  have i1: "idle api (io_lock s1)" "map_of (socketContextMap s1) p \<noteq> None" using s1(2,8) assms(3,5) by simp_all
  obtain s2 where s2: "doCloseConnection api p s1 = Inr ((), s2)" "io_lock s2 = io_lock s1" "io_ok api s2"
    "scs s2 = (scs s1)(p := None)" "ics s2 = ics s1 |` (- (snd ` set (IOCPContextMap sc1)))" "map_of (socketContextMap s2) p = None"
    using L(3) [OF s1(3) i1(1) s1(5) i1(2)] by blast
  have i2: "idle api (io_lock s2)" using s2(2) i1(1) by simp
  have gone: "ics s2 r = None" if "r \<in> insert (next_obj s) (snd ` set (IOCPContextMap sc))" for r
    using that unfolding s2(5) s1(7) by simp
  show ?thesis
  proof (rule exI [of _ "next_obj s"], rule exI [of _ s1], rule exI [of _ s2], intro conjI ballI)
    show "postCloseConnection api p s1 = Inr ((), s1)" using L(2) [OF i1(1)] s1(5,6) by blast
    show "doCloseConnection api p s2 = Inr ((), s2)" by (rule L(4) [OF i2 s2(6)])
    show "postCloseConnection api p s2 = Inr ((), s2)" using L(2) [OF i2] s2(6) by blast
  qed (use s1 s2 gone in auto)
qed

lemma close_connection_once_witness:
  "\<exists>q s1. postCloseConnection srw_ref LISTEN (example_module\<lparr>socketContextMap := [(LISTEN, None)]\<rparr>) = Inr ((), s1) \<and>
     port_queue s1 = port_queue example_module @ [(1, LISTEN, q)] \<and> postCloseConnection srw_ref LISTEN s1 = Inr ((), s1)"
proof -
  have "idle srw_ref (io_lock example_module)" using example_module_ok by (simp add: idle_def SRWLock_init_def)
  then show ?thesis
    using close_connection_once [OF srw_ref.srw_laws_axioms, of "example_module\<lparr>socketContextMap := [(LISTEN, None)]\<rparr>" LISTEN
      "(SocketContext_new srw_ref)\<lparr>sc_count := 1, IOCPContextMap := [(1, 2)]\<rparr>"] example_module_ok
    by (auto simp: SocketContext_new_def)
qed

text \<open>
  C21. Deleting a connection does not wait for its operations that are still under way: when the
  system then completes or cancels one of them, the worker reads the freed operation (if it failed)
  or the freed connection (if it succeeded).
\<close>

theorem late_completion_uses_freed:
  assumes "srw_laws api" and "io_ok api s" and "idle api (io_lock s)" and "scs s p = Some sc"
    and "map_of (socketContextMap s) p \<noteq> None" and "q \<in> snd ` set (IOCPContextMap sc)"
  shows "\<exists>s'. doCloseConnection api p s = Inr ((), s') \<and>
     IOCPWorkThread api os (Dequeued flag n p q) work_thread_start s' = Inl UseAfterFree"
proof -
  obtain s' where s': "doCloseConnection api p s = Inr ((), s')" "scs s' = (scs s)(p := None)"
    "ics s' = ics s |` (- (snd ` set (IOCPContextMap sc)))"
    using srw_laws.doClose_first [OF assms(1-5)] by blast
  have "p \<noteq> 0" using assms(2,4) scs_okD(1) by (auto simp: io_ok_def)
  moreover have "q \<noteq> 0"
    using srw_laws.listed_operations [OF assms(1,2,4)] assms(2,6) ics_okD(1) unfolding io_ok_def by fastforce
  ultimately show ?thesis
    using s' assms(6)
    by (auto simp: IOCPWorkThread_def work_error_def work_completion_def timer_start_def get_sc_def get_ic_def work_thread_start_def)
qed

lemma late_completion_uses_freed_witness:
  "\<exists>s'. doCloseConnection srw_ref LISTEN (example_module\<lparr>socketContextMap := [(LISTEN, None)]\<rparr>) = Inr ((), s') \<and>
     IOCPWorkThread srw_ref idle_os (Dequeued False 0 LISTEN 2) work_thread_start s' = Inl UseAfterFree"
proof -
  have "idle srw_ref (io_lock example_module)" using example_module_ok by (simp add: idle_def SRWLock_init_def)
  then show ?thesis
    using late_completion_uses_freed [OF srw_ref.srw_laws_axioms, of "example_module\<lparr>socketContextMap := [(LISTEN, None)]\<rparr>" LISTEN
      "(SocketContext_new srw_ref)\<lparr>sc_count := 1, IOCPContextMap := [(1, 2)]\<rparr>" 2 idle_os False 0] example_module_ok
    by (auto simp: SocketContext_new_def)
qed

text \<open>A connection is accepted with its first data.\<close>

definition accept_chunk :: "'l srw_api \<Rightarrow> os \<Rightarrow> addr \<Rightarrow> addr \<Rightarrow> string \<Rightarrow> 'l IOCPModule \<Rightarrow> (bool \<times> 'l IOCPModule) res" where
  "accept_chunk api os pSC p d s = bindR (deliver p d s) (doAccept api os pSC p (int (length d)))"

lemma keep_partial_overrun:
  assumes "heap_ok (hp s)" and "get_ic c s = Inr ic" and "blocks (hp s) buf = Some b" and "n \<le> length b" and "getPacketLength pack < int n" and "0 < n"
  shows "keep_partial c pack buf (int n) s = Inl OutOfBounds"
proof -
  define k where "k = nat (getPacketLength pack)"
  obtain prev h0 where a: "new_array k (hp s) = (prev, h0)" by (metis prod.exhaust)
  have prev: "prev \<noteq> 0" "blocks (hp s) prev = None" "blocks h0 = (blocks (hp s))(prev \<mapsto> replicate k None)"
    using new_array_fresh [OF assms(1) a] new_array_blocks [OF a] by auto
  have buf: "buf \<noteq> 0" "buf \<noteq> prev" using heap_ok_live [OF assms(1,3)] assms(3) prev(2) by auto
  have "blocks h0 prev = Some (replicate k None)" using prev(3) by simp
  then have z: "zero_memory prev k h0 = Inr (h0\<lparr>blocks := (blocks h0)(prev \<mapsto> replicate k (Some (CHR 0x00)))\<rparr>)"
    by (rule zero_memory_ok) (use prev(1) in simp_all)
  have "k < n" using assms(5,6) by (simp add: k_def nat_less_iff)
  then have "memcpy prev 0 buf 0 n (h0\<lparr>blocks := (blocks h0)(prev \<mapsto> replicate k (Some (CHR 0x00)))\<rparr>) = Inl OutOfBounds"
    using buf prev assms(3,4) by (simp add: memcpy_def read_cells_def write_cells_def)
  with a z assms(2) show ?thesis by (simp add: keep_partial_def Let_def k_def)
qed

text \<open>
  C22. The first data of a new connection may be longer than its first packet (the client already
  sent more): the accept then copies all of it into an array of the length of the packet and writes
  behind its end. The system's answers are those of a normal accept.
\<close>

theorem accept_overruns_packet:
  assumes "srw_laws api" and "io_ok api s" and "ics s p = Some ic" and "pkt_ok m" and "extra \<noteq> []"
    and "length (pkt_text m @ extra) \<le> wsabuf_len ic"
    and "\<And>n. QueryPerformanceCounter os n \<noteq> None" and "\<And>n. CreateIoCompletionPort os n"
  shows "accept_chunk api os pSC p (pkt_text m @ extra) s = Inl OutOfBounds"
proof -
  let ?d = "pkt_text m @ extra"
  obtain h rest where h: "deliver p ?d s = Inr (s\<lparr>hp := h\<rparr>)" "io_ok api (s\<lparr>hp := h\<rparr>)"
    "blocks h = (blocks (hp s))(wsabuf_buf ic \<mapsto> map Some ?d @ rest)"
    using deliver_ok [OF assms(2,3,6)] by blast
  let ?s = "s\<lparr>hp := h\<rparr>"
  have ic: "ics ?s p = Some ic" using assms(3) by simp
  from srw_laws.doAccept_connected [OF assms(1) h(2) ic assms(7,8), where pSC = pSC and len = "int (length ?d)"]
  obtain psc q a s' where s': "doAccept api os pSC p (int (length ?d)) ?s = accept_rest api os pSC p psc q ic (int (length ?d)) s'"
    "io_ok api s'" "ics s' q = Some (accepted_ic (ic_socket ic) a (hp_next h))"
    "blocks (hp s') = (blocks h)(hp_next h \<mapsto> replicate (nat DEFAULT_BUF_SIZ) (Some (CHR 0x00)))" by auto
  have "wsabuf_buf ic \<noteq> hp_next h" using heap_ok_next [of h] io_ok_heap [OF h(2)] h(3) by auto
  then have buf: "blocks (hp s') (wsabuf_buf ic) = Some (map Some ?d @ rest)" using s'(4) h(3) by simp
  have pk: "peek (wsabuf_buf ic) 0 (hp s') = Inr (?d @ map cell_char rest)"
    using ics_okD(5) [of s p ic] assms(2,3) buf by (intro peek_delivered) (simp_all add: io_ok_def)
  have mh: "matchHeader (Some (?d @ map cell_char rest)) (int (length ?d)) Packet_default = Inr (True, pkt_head m)"
    by (rule match_at_packet [OF assms(4), where t = "snd m @ extra @ map cell_char rest"]) (simp_all add: pkt_text_def)
  have len: "getPacketLength (pkt_head m) = int (length (pkt_text m))" by (rule pkt_head_length [OF assms(4)])
  have "get_ic q s' = Inr (accepted_ic (ic_socket ic) a (hp_next h))"
    using s'(2,3) ics_okD(3) by (auto simp: io_ok_def)
  then have "keep_partial q (pkt_head m) (wsabuf_buf ic) (int (length ?d)) s' = Inl OutOfBounds"
    by (rule keep_partial_overrun [OF io_ok_heap [OF s'(2)]]) (use buf len assms(5) in auto)
  then show ?thesis
    using h(1) s'(1) pk mh len assms(5) by (simp add: accept_chunk_def accept_rest_def)
qed

lemma accept_overruns_packet_witness:
  "accept_chunk srw_ref idle_os LISTEN 2 (pkt_text example_message @ ''more'') example_module = Inl OutOfBounds"
  by (rule accept_overruns_packet [OF srw_ref.srw_laws_axioms, of _ _ "(fresh_ic 8192 1)\<lparr>contextIndex := 0\<rparr>"])
    (use example_module_ok example_message_ok in \<open>auto simp: idle_os_def fresh_ic_def\<close>)

end
