(* ===== verification/IOCP_Traffic.thy ===== *)
theory IOCP_Traffic
  imports IOCP_Lifecycle
begin

text \<open>
  Traffic on a connection of \<^verbatim>\<open>svr::IOCPModule\<close> over several operations: a connection that is accepted
  with its first data, a send with its completion, a packet from one module to another, and a send
  that races with the end of its connection.
\<close>

text \<open>A system that lets every call of an accept succeed.\<close>

definition os_accepts :: "os \<Rightarrow> bool" where
  "os_accepts os \<longleftrightarrow> (\<forall>n. QueryPerformanceCounter os n \<noteq> None \<and> CreateIoCompletionPort os n \<and> WSARecv os n \<and> WSASocket os n \<and> AcceptEx os n)"

lemma postAccept_ok:
  assumes "io_ok api s" and "ics s p = Some ic" and "os_accepts os"
  shows "\<exists>s'. postAccept os p s = Inr (True, s') \<and> io_ok api s' \<and> io_frame s s' \<and> pending s' = p # pending s \<and>
     ics s' = (ics s)(p \<mapsto> ic\<lparr>ic_operation := SIG_ACCEPT, ic_socket := Some (next_sock s)\<rparr>)"
proof -
  have "get_ic p s = Inr ic" "p \<noteq> 0" using assms(1,2) ics_okD by (auto simp: io_ok_def)
  moreover obtain b s' where "postAccept os p s = Inr (b, s')" "io_frame s s'" "b" "pending s' = p # pending s"
    "ics s' = (ics s)(p \<mapsto> ic\<lparr>ic_operation := SIG_ACCEPT, ic_socket := Some (next_sock s)\<rparr>)"
    using assms(3) calculation
    by (simp add: postAccept_def new_socket_def ask_def os_accepts_def Let_def io_frame_def put_ic_def io_counts_def)
  moreover have "io_ok api s'" using returnsD [OF postAccept_keeps [OF assms(1)] calculation(3)] by simp
  ultimately show ?thesis by auto
qed

text \<open>Entering a connection into the module's map.\<close>

context srw_laws
begin

lemma accept_rest_data:
  assumes "io_ok api s" and "idle api (io_lock s)" and "ics s p = Some ic" and "ics s q = Some c" and "p \<noteq> q"
    and "os_accepts os" and "first_data b d" and "blocks (hp s) (wsabuf_buf ic) = Some (map Some d @ rest)"
  shows "\<exists>s' k. accept_rest api os pSC p psc q ic (int (length d)) s = Inr (True, s') \<and> io_ok api s' \<and>
     ics s' = (ics s)(q \<mapsto> c\<lparr>ic_operation := SIG_RECV\<rparr>, p \<mapsto> ic\<lparr>ic_operation := SIG_ACCEPT, ic_socket := k\<rparr>) \<and>
     scs s' = scs s \<and> io_lock s' = io_lock s \<and> pending s' = p # q # pending s \<and>
     socketContextMap s' = snd (smap_insert psc (ic_socket ic) (socketContextMap s)) \<and> pRecvCallback s' = pRecvCallback s \<and>
     calls s' = calls s @ (if b then [RecvCall (pRecvCallback s) pSC (Some d) (int (length d))] else []) \<and>
     port_queue s' = port_queue s \<and> next_obj s' = next_obj s \<and> io_counts s' = io_counts s"
proof -
  let ?n = "int (length d)"
  have ok: "ics_ok s" using assms(1) by (simp add: io_ok_def)
  have pk: "peek (wsabuf_buf ic) 0 (hp s) = Inr (d @ map cell_char rest)"
    using ics_okD(5) [OF ok assms(3)] assms(8) by (rule peek_delivered)
  obtain pk where mh: "matchHeader (Some (d @ map cell_char rest)) ?n Packet_default = Inr (b, pk)" "b \<longrightarrow> getPacketLength pk = ?n"
    using match_first_data [OF assms(7)] by blast
  obtain s1 where s1: "postRecv os q s = Inr (True, s1)" "io_ok api s1" "io_frame s s1"
    "ics s1 = (ics s)(q \<mapsto> c\<lparr>ic_operation := SIG_RECV\<rparr>)" "pending s1 = q # pending s"
    using postRecv_ok [OF assms(1,4), of os] assms(6) by (auto simp: os_accepts_def)
  let ?map = "snd (smap_insert psc (ic_socket ic) (socketContextMap s1))"
  have ex: "exclusive api io_lock set_io_lock (\<lambda>s.
           Inr ((), s\<lparr>socketContextMap := snd (smap_insert psc (ic_socket ic) (socketContextMap s))\<rparr>)) s1 =
     Inr ((), s1\<lparr>socketContextMap := ?map\<rparr>)"
    by (rule exclusive_eq) (use assms(2) s1(3) in \<open>simp_all add: set_io_lock_def io_frame_def\<close>)
  define s2 where "s2 = (if b then run_recv_callback pSC (Some d) ?n
    (s1\<lparr>socketContextMap := ?map, callbackInvokedNum := callbackInvokedNum s1 + 1\<rparr>) else s1\<lparr>socketContextMap := ?map\<rparr>)"
  have s2: "io_ok api s2" "ics s2 = ics s1" "scs s2 = scs s1" "io_lock s2 = io_lock s1" "pending s2 = pending s1"
    "socketContextMap s2 = ?map" "pRecvCallback s2 = pRecvCallback s1"
    "calls s2 = calls s1 @ (if b then [RecvCall (pRecvCallback s1) pSC (Some d) ?n] else [])"
    "port_queue s2 = port_queue s1" "next_obj s2 = next_obj s1" "io_counts s2 = io_counts s1"
    using s1(2) by (simp_all add: s2_def) (simp_all add: run_recv_callback_def io_counts_def)
  have icp: "ics s2 p = Some ic" using s2(2) s1(4) assms(3,5) by simp
  obtain h where h: "ResetBuffer p s2 = Inr (s2\<lparr>hp := h\<rparr>)" "io_ok api (s2\<lparr>hp := h\<rparr>)"
    using ResetBuffer_ok [OF s2(1) icp] by blast
  obtain s3 where s3: "postAccept os p (s2\<lparr>hp := h\<rparr>) = Inr (True, s3)" "io_ok api s3" "io_frame (s2\<lparr>hp := h\<rparr>) s3"
    "pending s3 = p # pending s2" "ics s3 = (ics s2)(p \<mapsto> ic\<lparr>ic_operation := SIG_ACCEPT, ic_socket := Some (next_sock s2)\<rparr>)"
    using postAccept_ok [OF h(2) _ assms(6), of p ic] icp by auto
  have "accept_rest api os pSC p psc q ic ?n s = Inr (True, s3)"
    using pk mh s1(1) ex h(1) s3(1) by (cases b) (simp_all add: accept_rest_def s2_def)
  then show ?thesis
    using s1(3-5) s2(2-11) s3(2-5) by (intro exI [of _ s3] exI [of _ "Some (next_sock s2)"]) (simp add: io_frame_def io_counts_def)
qed
end

section \<open>A stream of packets\<close>

definition chunk_text :: "(Packet \<times> string) list \<Rightarrow> string" where
  "chunk_text ms = concat (map pkt_text ms)"

text \<open>A connection that is accepted with its first data.\<close>

lemma accept_chunk_ok:
  assumes "srw_laws api" and "io_ok api s" and "idle api (io_lock s)" and "ics s p = Some ic" and "os_accepts os"
    and "first_data b d" and "length d \<le> wsabuf_len ic" and "psc = next_obj s" and "q = Suc (next_obj s)"
  shows "\<exists>s1 sc c k. accept_chunk api os pSC p d s = Inr (True, s1) \<and> io_ok api s1 \<and> io_lock s1 = io_lock s \<and>
     scs s psc = None \<and> ics s q = None \<and> pending s1 = p # q # pending s \<and>
     scs s1 = (scs s)(psc \<mapsto> sc) \<and> sc_socket sc = ic_socket ic \<and> IOCPContextMap sc = [(1, q)] \<and> \<not> closeFlag sc \<and>
     ics s1 = (ics s)(q \<mapsto> c, p \<mapsto> ic\<lparr>ic_operation := SIG_ACCEPT, ic_socket := k\<rparr>) \<and>
     ic_socket c = ic_socket ic \<and> ic_operation c = SIG_RECV \<and> \<not> prevFlag c \<and> wsabuf_len c = nat DEFAULT_BUF_SIZ \<and>
     socketContextMap s1 = snd (smap_insert psc (ic_socket ic) (socketContextMap s)) \<and>
     port_queue s1 = port_queue s \<and> next_obj s1 = Suc (Suc (next_obj s)) \<and> io_counts s1 = io_counts s \<and> pRecvCallback s1 = pRecvCallback s \<and>
     calls s1 = calls s @ (if b then [RecvCall (pRecvCallback s) pSC (Some d) (int (length d))] else [])"
proof -
  have ok: "ics_ok s" "scs_ok api s" using assms(2) by (simp_all add: io_ok_def)
  obtain h rest where h: "deliver p d s = Inr (s\<lparr>hp := h\<rparr>)" "io_ok api (s\<lparr>hp := h\<rparr>)"
    "blocks h = (blocks (hp s))(wsabuf_buf ic \<mapsto> map Some d @ rest)"
    using deliver_ok [OF assms(2,4,7)] by blast
  let ?s = "s\<lparr>hp := h\<rparr>"
  have ic: "ics ?s p = Some ic" using assms(4) by simp
  have os: "\<And>n. QueryPerformanceCounter os n \<noteq> None" "\<And>n. CreateIoCompletionPort os n" "\<And>n. WSARecv os n"
    using assms(5) by (simp_all add: os_accepts_def)
  obtain a t s' where s': "doAccept api os pSC p (int (length d)) ?s = accept_rest api os pSC p psc q ic (int (length d)) s'"
    "io_ok api s'" "ics s' = (ics s)(q \<mapsto> accepted_ic (ic_socket ic) a (hp_next h))"
    "scs s' = (scs s)(psc \<mapsto> accepted_sc api (ic_socket ic) a t q)"
    "blocks (hp s') = (blocks h)(hp_next h \<mapsto> replicate (nat DEFAULT_BUF_SIZ) (Some (CHR 0x00)))"
    "calls s' = calls s" "io_lock s' = io_lock s" "pRecvCallback s' = pRecvCallback s" "pending s' = pending s"
    "port_queue s' = port_queue s" "next_obj s' = Suc (Suc (next_obj s))" "io_counts s' = io_counts s" "socketContextMap s' = socketContextMap s"
    using srw_laws.doAccept_connected [OF assms(1) h(2) ic os(1,2), of pSC "int (length d)"] assms(8,9) by auto
  let ?c = "accepted_ic (ic_socket ic) a (hp_next h)" and ?sc = "accepted_sc api (ic_socket ic) a t q"
  have fresh: "scs s psc = None" "ics s q = None" "p \<noteq> q"
  proof -
    show "scs s psc = None" using scs_okD(2) [OF ok(2), of psc] assms(8) by (cases "scs s psc") auto
    show "ics s q = None" using ics_okD(2) [OF ok(1), of q] assms(9) by (cases "ics s q") auto
    show "p \<noteq> q" using ics_okD(2) [OF ok(1) assms(4)] assms(9) by simp
  qed
  have "wsabuf_buf ic \<noteq> hp_next h" using heap_ok_next [of h] io_ok_heap [OF h(2)] h(3) by auto
  then have buf: "blocks (hp s') (wsabuf_buf ic) = Some (map Some d @ rest)" using s'(5) h(3) by simp
  have icp: "ics s' p = Some ic" "ics s' q = Some ?c" "idle api (io_lock s')" using s'(3,7) fresh assms(3,4) by auto
  have c: "ic_socket ?c = ic_socket ic" "ic_operation ?c = SIG_RECV" "\<not> prevFlag ?c" "wsabuf_len ?c = nat DEFAULT_BUF_SIZ"
    "?c\<lparr>ic_operation := SIG_RECV\<rparr> = ?c"
    by (simp_all add: accepted_ic_def fresh_ic_def)
  have sc: "sc_socket ?sc = ic_socket ic" "IOCPContextMap ?sc = [(1, q)]" "\<not> closeFlag ?sc"
    by (simp_all add: accepted_sc_def SocketContext_new_def)
  obtain s1 k where s1: "accept_rest api os pSC p psc q ic (int (length d)) s' = Inr (True, s1)" "io_ok api s1"
    "ics s1 = (ics s')(q \<mapsto> ?c, p \<mapsto> ic\<lparr>ic_operation := SIG_ACCEPT, ic_socket := k\<rparr>)" "scs s1 = scs s'" "io_lock s1 = io_lock s'"
    "pending s1 = p # q # pending s'" "socketContextMap s1 = snd (smap_insert psc (ic_socket ic) (socketContextMap s'))"
    "pRecvCallback s1 = pRecvCallback s'"
    "calls s1 = calls s' @ (if b then [RecvCall (pRecvCallback s') pSC (Some d) (int (length d))] else [])"
    "port_queue s1 = port_queue s'" "next_obj s1 = next_obj s'" "io_counts s1 = io_counts s'"
    using srw_laws.accept_rest_data [OF assms(1) s'(2) icp(3,1,2) fresh(3) assms(5,6) buf, of pSC psc] c(5) by auto
  have "accept_chunk api os pSC p d s = Inr (True, s1)" using h(1) s'(1) s1(1) by (simp add: accept_chunk_def)
  then show ?thesis
    using s1(2-12) s'(3-13) fresh c(1-4) sc
    by - (rule exI [of _ s1], rule exI [of _ ?sc], rule exI [of _ ?c], rule exI [of _ k], simp)
qed

section \<open>Sending on a connection\<close>

text \<open>The operation \<^verbatim>\<open>sendData\<close> makes: a full buffer, filed one above its own index.\<close>

definition send_ic :: "string \<Rightarrow> int \<Rightarrow> SOCKET \<Rightarrow> SOCKADDR_IN \<Rightarrow> addr \<Rightarrow> IOCPContext" where
  "send_ic d k sock a buf =
     (fresh_ic (length d) buf)\<lparr>contextIndex := k, ic_socket := sock, ic_addr := a, ic_operation := SIG_SEND,
        bytesToRecv := int (length d)\<rparr>"

context srw_laws
begin

lemma sendData_posts:
  assumes "io_ok api s" and "idle api (io_lock s)" and "scs s p = Some sc" and "map_of (socketContextMap s) p \<noteq> None"
    and "d \<noteq> []" and "length d \<le> 0x800100" and "\<And>n. WSASend os n"
  shows "\<exists>s1. sendData api os p (Some d) (int (length d)) s = Inr (True, s1) \<and> io_ok api s1 \<and>
     ics s1 = (ics s)(next_obj s \<mapsto> send_ic d (sc_count sc) (sc_socket sc) (sc_addr sc) (hp_next (hp s))) \<and>
     scs s1 = (scs s)(p \<mapsto> sc\<lparr>sc_count := sc_count sc + 1,
       IOCPContextMap := smap_put (sc_count sc + 1) (next_obj s) (IOCPContextMap sc)\<rparr>) \<and>
     blocks (hp s1) (hp_next (hp s)) = Some (map Some d) \<and> pending s1 = next_obj s # pending s \<and>
     calls s1 = calls s \<and> pSendCallback s1 = pSendCallback s"
proof -
  let ?q = "next_obj s" and ?n = "int (length d)" and ?buf = "hp_next (hp s)"
  have ok: "ics_ok s" "scs_ok api s" using assms(1) by (simp_all add: io_ok_def)
  have pos: "0 < ?n" "p \<noteq> 0" "?n \<le> 0x800100" using assms(5,6) scs_okD(1) [OF ok(2) assms(3)] by simp_all
  have sh: "shared api io_lock set_io_lock (\<lambda>s. Inr (map_of (socketContextMap s) p = None, s)) s = Inr (False, s)"
    by (rule shared_eq) (use assms(2,4) in \<open>simp_all add: set_io_lock_def\<close>)
  obtain h where h: "createIOCPContext api p ?n s = Inr (?q, created p ?n sc h s)" "io_ok api (created p ?n sc h s)"
    "blocks h = (blocks (hp s))(?buf \<mapsto> replicate (length d) (Some (CHR 0x00)))"
    using createIOCPContext_ok [OF assms(1,3) pos(1)] by auto
  let ?u = "created p ?n sc h s"
  let ?c = "(fresh_ic (length d) ?buf)\<lparr>contextIndex := sc_count sc\<rparr>"
  let ?sc = "sc\<lparr>sc_count := sc_count sc + 1, IOCPContextMap := smap_put (sc_count sc + 1) ?q (IOCPContextMap sc)\<rparr>"
  have u: "ics ?u ?q = Some ?c" "scs ?u p = Some ?sc" "hp ?u = h" by (simp_all add: created_def Let_def)
  have g: "get_ic ?q ?u = Inr ?c" "get_sc p ?u = Inr ?sc"
    using ics_okD(3) [OF _ u(1)] scs_okD(3) [OF _ u(2)] h(2) by (auto simp: io_ok_def)
  obtain h' b where h': "write_cells (wsabuf_buf ?c) 0 (map Some d) h = Inr h'" "io_ok api (?u\<lparr>hp := h'\<rparr>)"
    "blocks h' = (blocks h)(?buf \<mapsto> map Some d @ drop (length d) b)" "length b = length d"
    using write_buffer_ok [OF h(2) u(1), of "map Some d"] u(3) by (auto simp: fresh_ic_def)
  let ?i = "send_ic d (sc_count sc) (sc_socket sc) (sc_addr sc) ?buf"
  define v where "v = (put_ic ?q ?i ?u)\<lparr>hp := h'\<rparr>"
  have i: "?c\<lparr>ic_socket := sc_socket ?sc, ic_addr := sc_addr ?sc, ic_operation := SIG_SEND, bytesToRecv := ?n\<rparr> = ?i"
    by (simp add: send_ic_def)
  have "v = put_ic ?q ?i (?u\<lparr>hp := h'\<rparr>)" by (rule IOCPModule.equality) (simp_all add: v_def put_ic_def)
  then have v: "io_ok api v" "ics v ?q = Some ?i"
    using h'(2) u(1) by (auto intro!: IOCP_put_keeps simp: send_ic_def)
  have gv: "get_ic ?q v = Inr ?i" using ics_okD(3) [OF _ v(2)] v(1) by (simp add: io_ok_def)
  define s1 where "s1 = (put_ic ?q ?i (v\<lparr>tick := Suc (tick v)\<rparr>))\<lparr>pending := ?q # pending v\<rparr>"
  have opi: "?i\<lparr>ic_operation := SIG_SEND\<rparr> = ?i" "int (wsabuf_len ?i) = bytesToRecv ?i" by (simp_all add: send_ic_def fresh_ic_def)
  have post: "postSend os ?q v = Inr (True, s1)"
    using gv opi assms(7) by (simp add: postSend_def ask_def s1_def put_ic_def)
  have "io_ok api s1" using returnsD [OF postSend_keeps [OF v(1)] post] by simp
  moreover have "sendData api os p (Some d) ?n s = Inr (True, s1)"
    unfolding sendData_def using pos sh h(1) g h'(1) i u(3) post by (simp add: v_def)
  moreover have "ics s1 = (ics s)(?q \<mapsto> ?i)" "scs s1 = (scs s)(p \<mapsto> ?sc)" "blocks (hp s1) ?buf = Some (map Some d)"
    "pending s1 = ?q # pending s" "calls s1 = calls s" "pSendCallback s1 = pSendCallback s"
    using h'(3,4) by (simp_all add: s1_def v_def put_ic_def created_def Let_def)
  ultimately show ?thesis by blast
qed

end

section \<open>The parts of sendData\<close>

text \<open>What \<^verbatim>\<open>sendData\<close> does after it has looked the connection up and given the lock back.\<close>

definition send_rest ::
  "'l srw_api \<Rightarrow> os \<Rightarrow> addr \<Rightarrow> string \<Rightarrow> int \<Rightarrow> bool \<Rightarrow> 'l IOCPModule \<Rightarrow> (bool \<times> 'l IOCPModule) res" where
  "send_rest api os pSC d len flag s =
     bindR (if flag then adopt_connection api os pSC s else Inr (True, s)) (\<lambda>(ok, s).
     if \<not> ok then Inr (False, s)
     else
       bindR (createIOCPContext api pSC len s) (\<lambda>(p, s).
       bindR (get_sc pSC s) (\<lambda>sc.
       bindR (get_ic p s) (\<lambda>ic.
       if int (length d) < len then Inl OutOfBounds
       else
         bindR (write_cells (wsabuf_buf ic) 0 (map Some (take (nat len) d)) (hp s)) (\<lambda>h.
         let s = (put_ic p (ic\<lparr>ic_socket := sc_socket sc, ic_addr := sc_addr sc,
                    ic_operation := SIG_SEND, bytesToRecv := len\<rparr>) s)\<lparr>hp := h\<rparr> in
         bindR (postSend os p s) (\<lambda>(posted, s).
         if posted then Inr (True, s)
         else bindR (removeIOCPContext api pSC (contextIndex ic) s) (\<lambda>(_, s). Inr (False, s))))))))"

context srw_laws
begin

lemma sendData_split:
  assumes "idle api (io_lock s)" and "pSC \<noteq> 0" and "0 < len" and "len \<le> 0x800100"
  shows "sendData api os pSC (Some d) len s = send_rest api os pSC d len (map_of (socketContextMap s) pSC = None) s"
proof -
  have "shared api io_lock set_io_lock (\<lambda>s. Inr (map_of (socketContextMap s) pSC = None, s)) s =
      Inr (map_of (socketContextMap s) pSC = None, s)"
    by (rule shared_eq) (use assms(1) in \<open>simp_all add: set_io_lock_def\<close>)
  then show ?thesis using assms(2-4) by (simp add: sendData_def send_rest_def)
qed

end

section \<open>Properties\<close>

text \<open>
  C11. Sending on a connection takes its receive away. The send of a whole message goes out, and when
  it is complete the send callback gets the message; but the operation that is then deleted is the
  one filed last before the send (in an idle connection its receive), not the send, which stays.
  When the system completes that receive, the worker uses it after it was freed. A send the system
  completes in part faults before that: the rest is taken from behind the operation's buffer header.
\<close>

theorem send_deletes_receive:
  assumes "srw_laws api" and "io_ok api s" and "idle api (io_lock s)" and "scs s p = Some sc"
    and "map_of (socketContextMap s) p \<noteq> None" and "map_of (IOCPContextMap sc) (sc_count sc) = Some q"
    and "d \<noteq> []" and "length d \<le> 0x800100" and "\<And>n. WSASend os n" and "\<And>n. QueryPerformanceCounter os n \<noteq> None"
  shows "\<exists>r s1 s2. sendData api os p (Some d) (int (length d)) s = Inr (True, s1) \<and> pending s1 = r # pending s \<and>
     r \<noteq> q \<and> ics s1 r \<noteq> None \<and> ics s1 q = ics s q \<and> ics s q \<noteq> None \<and>
     doSend api os p r (int (length d)) s1 = Inr (True, s2) \<and> io_ok api s2 \<and>
     calls s2 = calls s @ [SendCall (pSendCallback s) p (Some d) (int (length d))] \<and>
     ics s2 = (ics s1)(q := None) \<and>
     IOCPWorkThread api os (Dequeued flag n p q) work_thread_start s2 = Inl UseAfterFree \<and>
     (\<forall>k. 0 < k \<and> k < int (length d) \<longrightarrow> doSend api os p r k s1 = Inl OutOfBounds)"
proof -
  let ?r = "next_obj s" and ?n = "int (length d)" and ?buf = "hp_next (hp s)"
  let ?i = "send_ic d (sc_count sc) (sc_socket sc) (sc_addr sc) ?buf"
  let ?sc = "sc\<lparr>sc_count := sc_count sc + 1, IOCPContextMap := smap_put (sc_count sc + 1) ?r (IOCPContextMap sc)\<rparr>"
  obtain s1 where s1: "sendData api os p (Some d) ?n s = Inr (True, s1)" "io_ok api s1" "ics s1 = (ics s)(?r \<mapsto> ?i)"
    "scs s1 = (scs s)(p \<mapsto> ?sc)" "blocks (hp s1) ?buf = Some (map Some d)" "pending s1 = ?r # pending s"
    "calls s1 = calls s" "pSendCallback s1 = pSendCallback s"
    using srw_laws.sendData_posts [OF assms(1-5,7-9)] by blast
  have ok: "ics_ok s" "scs_ok api s" "ics_ok s1" using assms(2) s1(2) by (simp_all add: io_ok_def)
  obtain c where c: "ics s q = Some c"
    using srw_laws.listed_operations [OF assms(1,2,4)] map_of_SomeD [OF assms(6)] by force
  have q: "q \<noteq> ?r" "q \<noteq> 0" "p \<noteq> 0" using ics_okD(1,2) [OF ok(1) c] scs_okD(1) [OF ok(2) assms(4)] by auto
  have g: "get_ic ?r s1 = Inr ?i" by (rule ics_okD(3) [OF ok(3)]) (simp add: s1(3))
  have i: "bytesToRecv ?i = ?n" "wsabuf_buf ?i = ?buf" "contextIndex ?i = sc_count sc" "wsabuf_len ?i = length d"
    by (simp_all add: send_ic_def fresh_ic_def)
  have "?buf \<noteq> 0" using ics_okD(5) [OF ok(3), of ?r] s1(3) i(2) by auto
  then have pk: "peek ?buf 0 (hp s1) = Inr d" using s1(5) peek_delivered [of ?buf "hp s1" d "[]"] by simp
  let ?t = "run_send_callback p (Some d) ?n (count_callbacks 1 s1)"
  have t: "io_ok api ?t" "scs ?t p = Some ?sc" "ics ?t = ics s1"
    using s1(2,4) by (simp_all add: run_send_callback_def count_callbacks_def)
  have m: "map_of (IOCPContextMap ?sc) (sc_count sc) = Some q" "ics ?t q = Some c"
    using assms(6) t(3) s1(3) q(1) c scs_okD(4) [OF ok(2) assms(4)] by (simp_all add: sc_ok_def map_of_smap_put)
  obtain h where h: "removeIOCPContext api p (sc_count sc) ?t = Inr (True, ?t\<lparr>hp := h, ics := (ics ?t)(q := None),
       scs := (scs ?t)(p \<mapsto> ?sc\<lparr>IOCPContextMap := smap_erase (sc_count sc) (IOCPContextMap ?sc)\<rparr>)\<rparr>)"
    "io_ok api (?t\<lparr>hp := h, ics := (ics ?t)(q := None),
       scs := (scs ?t)(p \<mapsto> ?sc\<lparr>IOCPContextMap := smap_erase (sc_count sc) (IOCPContextMap ?sc)\<rparr>)\<rparr>)"
    using srw_laws.removeIOCPContext_present [OF assms(1) t(1,2) m] by blast
  define s2 where "s2 = ?t\<lparr>hp := h, ics := (ics ?t)(q := None),
       scs := (scs ?t)(p \<mapsto> ?sc\<lparr>IOCPContextMap := smap_erase (sc_count sc) (IOCPContextMap ?sc)\<rparr>)\<rparr>"
  have s2: "ics s2 = (ics s1)(q := None)" "scs s2 p \<noteq> None"
    "calls s2 = calls s @ [SendCall (pSendCallback s) p (Some d) ?n]"
    using s1(7,8) by (simp_all add: s2_def run_send_callback_def count_callbacks_def)
  have full: "doSend api os p ?r ?n s1 = Inr (True, s2)"
    using g pk h(1) i by (simp add: doSend_def s2_def)
  have part: "doSend api os p ?r k s1 = Inl OutOfBounds" if "0 < k" "k < ?n" for k
    using g that i by (simp add: doSend_def postSend_def get_ic_def put_ic_def split: if_splits option.splits)
  obtain t' where t': "QueryPerformanceCounter os (tick s2) = Some t'" using assms(10) by blast
  obtain sc2 where sc2: "scs s2 p = Some sc2" using s2(2) by blast
  have work: "IOCPWorkThread api os (Dequeued flag n p q) work_thread_start s2 = Inl UseAfterFree"
    using q(2,3) s2(1) sc2 t'
    by (simp add: IOCPWorkThread_def work_error_def work_completion_def timer_start_def get_sc_def get_ic_def work_thread_start_def
        ask_def put_sc_def)
  show ?thesis
    by (rule exI [of _ ?r], rule exI [of _ s1], rule exI [of _ s2]) (use s1 s2 full part work c q h(2) s2_def in auto)
qed


lemma send_deletes_receive_witness:
  "\<exists>r s1 s2. sendData srw_ref idle_os LISTEN (Some ''hello'') 5 (example_module\<lparr>socketContextMap := [(LISTEN, None)]\<rparr>) = Inr (True, s1) \<and>
     doSend srw_ref idle_os LISTEN r 5 s1 = Inr (True, s2) \<and> ics s2 2 = None \<and> ics s2 r \<noteq> None \<and>
     IOCPWorkThread srw_ref idle_os (Dequeued True 1 LISTEN 2) work_thread_start s2 = Inl UseAfterFree"
proof -
  let ?s = "example_module\<lparr>socketContextMap := [(LISTEN, None)]\<rparr>"
  have e: "io_ok srw_ref ?s" "idle srw_ref (io_lock ?s)" "map_of (socketContextMap ?s) LISTEN \<noteq> None"
    "scs ?s LISTEN = Some ((SocketContext_new srw_ref)\<lparr>sc_count := 1, IOCPContextMap := [(1, 2)]\<rparr>)"
    using example_module_ok by (auto simp: idle_def SRWLock_init_def)
  have o: "WSASend idle_os n" "QueryPerformanceCounter idle_os n \<noteq> None" for n by (simp_all add: idle_os_def)
  from send_deletes_receive [OF srw_ref.srw_laws_axioms e(1,2,4,3) _ _ _ o, of 2 "''hello''" True 1]
  obtain r s1 s2 where "sendData srw_ref idle_os LISTEN (Some ''hello'') 5 ?s = Inr (True, s1)"
    "doSend srw_ref idle_os LISTEN r 5 s1 = Inr (True, s2)" "ics s2 = (ics s1)(2 := None)" "r \<noteq> 2" "ics s1 r \<noteq> None"
    "IOCPWorkThread srw_ref idle_os (Dequeued True 1 LISTEN 2) work_thread_start s2 = Inl UseAfterFree"
    by auto
  then have "sendData srw_ref idle_os LISTEN (Some ''hello'') 5 ?s = Inr (True, s1) \<and>
     doSend srw_ref idle_os LISTEN r 5 s1 = Inr (True, s2) \<and> ics s2 2 = None \<and> ics s2 r \<noteq> None \<and>
     IOCPWorkThread srw_ref idle_os (Dequeued True 1 LISTEN 2) work_thread_start s2 = Inl UseAfterFree" by simp
  then show ?thesis by blast
qed

text \<open>
  C18. A packet travels: a packet of \<^verbatim>\<open>createHeader\<close> that one module sends is in the buffer of the
  posted send as it is; when these bytes arrive at a receive of another module, its callback is called
  once with them, and \<^verbatim>\<open>matchHeader\<close> gives back the packet with its content behind the header.
\<close>

theorem packet_travels:
  assumes "srw_laws api" and "io_ok api s" and "idle api (io_lock s)" and "scs s p = Some sc"
    and "map_of (socketContextMap s) p \<noteq> None" and "\<And>n. WSASend os n"
    and "pkt_ok m" and "length (pkt_text m) \<le> 0x800100"
    and "io_ok api s'" and "ics s' q = Some c" and "\<not> prevFlag c" and "length (pkt_text m) \<le> wsabuf_len c"
  shows "\<exists>r s1 s2. sendData api os p (Some (pkt_text m)) (int (length (pkt_text m))) s = Inr (True, s1) \<and>
     pending s1 = r # pending s \<and> peek (wsabuf_buf (the (ics s1 r))) 0 (hp s1) = Inr (pkt_text m) \<and>
     recv_chunk os' p' q (pkt_text m) s' = Inr (WSARecv os' (tick s'), s2) \<and> io_ok api s2 \<and>
     calls s2 = calls s' @ [RecvCall (pRecvCallback s') p' (Some (pkt_text m)) (int (length (pkt_text m)))] \<and>
     matchHeader (Some (pkt_text m)) (int (length (pkt_text m))) Packet_default = Inr (True, snd (createHeader (fst m))) \<and>
     drop (nat (headLength (snd (createHeader (fst m))))) (pkt_text m) = snd m"
proof -
  let ?d = "pkt_text m" and ?r = "next_obj s"
  have "63 \<le> length (fst (createHeader (fst m)))" using pkt_header_length [OF assms(7)] by simp
  then have ne: "?d \<noteq> []" by (auto simp: pkt_text_def)
  obtain s1 where s1: "sendData api os p (Some ?d) (int (length ?d)) s = Inr (True, s1)" "io_ok api s1"
    "ics s1 ?r = Some (send_ic ?d (sc_count sc) (sc_socket sc) (sc_addr sc) (hp_next (hp s)))"
    "blocks (hp s1) (hp_next (hp s)) = Some (map Some ?d)" "pending s1 = ?r # pending s"
    using srw_laws.sendData_posts [OF assms(1-5) ne assms(8,6)] by auto
  have buf: "wsabuf_buf (the (ics s1 ?r)) = hp_next (hp s)" using s1(3) by (simp add: send_ic_def fresh_ic_def)
  have "hp_next (hp s) \<noteq> 0" using ics_okD(5) [OF _ s1(3)] s1(2) by (simp add: io_ok_def send_ic_def fresh_ic_def)
  then have pk: "peek (wsabuf_buf (the (ics s1 ?r))) 0 (hp s1) = Inr ?d"
    unfolding buf using s1(4) peek_delivered [of "hp_next (hp s)" "hp s1" ?d "[]"] by simp
  obtain s2 where s2: "recv_chunk os' p' q ?d s' = Inr (WSARecv os' (tick s'), s2)" "io_ok api s2"
    "calls s2 = calls s' @ [RecvCall (pRecvCallback s') p' (Some ?d) (int (length ?d))]"
    using doRecv_packets [OF assms(9-11), of "[m]" "[]" ?d os' p'] assms(7,12) junk_short [of "[]"] by auto
  have "matchHeader (Some ?d) (int (length ?d)) Packet_default = Inr (True, pkt_head m)"
    by (rule match_at_packet [OF assms(7), where t = "snd m"]) (simp_all add: pkt_text_def)
  moreover have "drop (nat (headLength (snd (createHeader (fst m))))) ?d = snd m"
    by (simp add: pkt_text_def createHeader_text)
  ultimately show ?thesis
    by - (rule exI [of _ ?r], rule exI [of _ s1], rule exI [of _ s2], use s1 pk s2 in \<open>simp add: pkt_head_def\<close>)
qed

text \<open>
  C19. Sending races with closing: between the look-up of the connection and its use another worker
  may take the lock and delete it; the sender then uses freed memory, although it would have found
  the connection gone had it looked later.
\<close>

theorem send_races_with_close:
  assumes "srw_laws api" and "io_ok api s" and "idle api (io_lock s)" and "scs s p = Some sc"
    and "map_of (socketContextMap s) p \<noteq> None" and "0 < len" and "len \<le> 0x800100"
  shows "sendData api os p (Some d) len s = send_rest api os p d len False s \<and>
     (\<exists>s1. doCloseConnection api p s = Inr ((), s1) \<and> io_ok api s1 \<and> map_of (socketContextMap s1) p = None \<and>
        send_rest api os p d len False s1 = Inl UseAfterFree)"
proof -
  have p: "p \<noteq> 0" using scs_okD(1) [OF _ assms(4)] assms(2) by (auto simp: io_ok_def)
  obtain s1 where s1: "doCloseConnection api p s = Inr ((), s1)" "io_ok api s1" "scs s1 = (scs s)(p := None)"
    "map_of (socketContextMap s1) p = None"
    using srw_laws.doClose_first [OF assms(1-5)] by blast
  have ok: "ics_ok s1" "0 < next_obj s1" using s1(2) ics_ok_next by (auto simp: io_ok_def)
  obtain h where "IOCPContext_create len s1 =
       Inr (next_obj s1, (put_ic (next_obj s1) (fresh_ic (nat len) (hp_next (hp s1))) s1)\<lparr>hp := h, next_obj := Suc (next_obj s1)\<rparr>)"
    using IOCPContext_create_ok [OF ok(1) assms(6) ok(2)] by blast
  then have "createIOCPContext api p len s1 = Inl UseAfterFree"
    using p s1(3) by (simp add: createIOCPContext_def with_socketLock_def get_sc_def put_ic_def)
  then have "send_rest api os p d len False s1 = Inl UseAfterFree" by (simp add: send_rest_def)
  then show ?thesis using srw_laws.sendData_split [OF assms(1,3) p assms(6,7)] assms(5) s1 by auto
qed


lemma packet_travels_witness:
  "\<exists>s1 s2. sendData srw_ref idle_os LISTEN (Some (pkt_text example_message)) 120 (example_module\<lparr>socketContextMap := [(LISTEN, None)]\<rparr>) = Inr (True, s1) \<and>
     recv_chunk idle_os LISTEN 2 (pkt_text example_message) example_module = Inr (True, s2) \<and> length (calls s2) = 1 \<and>
     matchHeader (Some (pkt_text example_message)) 120 Packet_default = Inr (True, snd (createHeader (fst example_message)))"
proof -
  let ?s = "example_module\<lparr>socketContextMap := [(LISTEN, None)]\<rparr>"
  have e: "io_ok srw_ref ?s" "idle srw_ref (io_lock ?s)" "map_of (socketContextMap ?s) LISTEN \<noteq> None"
    "scs ?s LISTEN = Some ((SocketContext_new srw_ref)\<lparr>sc_count := 1, IOCPContextMap := [(1, 2)]\<rparr>)"
    "io_ok srw_ref example_module" "calls example_module = []" "pkt_ok example_message" "length (pkt_text example_message) = 120"
    "ics example_module 2 = Some ((fresh_ic 8192 1)\<lparr>contextIndex := 0\<rparr>)"
    using example_module_ok example_message_ok by (auto simp: idle_def SRWLock_init_def)
  have o: "WSASend idle_os n" "WSARecv idle_os n" for n by (simp_all add: idle_os_def)
  have "\<not> prevFlag ((fresh_ic 8192 1)\<lparr>contextIndex := 0\<rparr>)" "length (pkt_text example_message) \<le> wsabuf_len ((fresh_ic 8192 1)\<lparr>contextIndex := 0\<rparr>)"
    using e(8) by (simp_all add: fresh_ic_def)
  from packet_travels [OF srw_ref.srw_laws_axioms e(1,2,4,3) o(1) e(7) _ e(5,9) this, of idle_os LISTEN] e(6,8) o(2) show ?thesis by auto
qed

lemma send_races_with_close_witness:
  "\<exists>s1. doCloseConnection srw_ref LISTEN (example_module\<lparr>socketContextMap := [(LISTEN, None)]\<rparr>) = Inr ((), s1) \<and>
     send_rest srw_ref idle_os LISTEN ''hello'' 5 False s1 = Inl UseAfterFree"
proof -
  let ?s = "example_module\<lparr>socketContextMap := [(LISTEN, None)]\<rparr>"
  have e: "io_ok srw_ref ?s" "idle srw_ref (io_lock ?s)" "map_of (socketContextMap ?s) LISTEN \<noteq> None"
    "scs ?s LISTEN = Some ((SocketContext_new srw_ref)\<lparr>sc_count := 1, IOCPContextMap := [(1, 2)]\<rparr>)"
    using example_module_ok by (auto simp: idle_def SRWLock_init_def)
  from send_races_with_close [OF srw_ref.srw_laws_axioms e(1,2,4,3), of 5] show ?thesis by auto
qed

end
