(* ===== verification/IOCP_Turns.thy ===== *)
theory IOCP_Turns
  imports IOCP_Traffic
begin

text \<open>
  Turns of the worker threads of \<^verbatim>\<open>svr::IOCPModule\<close>: an overlapped operation completes with data and the
  worker that gets the completion handles it. The lemmas reduce a turn to the handler it runs, after
  the timer of the connection was set.
\<close>

section \<open>Turns of a worker\<close>

definition completed :: "addr \<Rightarrow> string \<Rightarrow> 'l IOCPModule \<Rightarrow> 'l IOCPModule res" where
  "completed p d s = deliver p d (s\<lparr>pending := removeAll p (pending s)\<rparr>)"

definition io_turn :: "'l srw_api \<Rightarrow> os \<Rightarrow> addr \<Rightarrow> addr \<Rightarrow> string \<Rightarrow> 'l IOCPModule \<Rightarrow> 'l IOCPModule res" where
  "io_turn api os pSC p d s =
     bindR (completed p d s) (\<lambda>s.
     bindR (IOCPWorkThread api os (Dequeued True (int (length d)) pSC p) work_thread_start s) (\<lambda>(w, s). Inr s))"

definition port_turn :: "'l srw_api \<Rightarrow> os \<Rightarrow> completion \<Rightarrow> 'l IOCPModule \<Rightarrow> 'l IOCPModule res" where
  "port_turn api os e s =
     bindR (IOCPWorkThread api os (Dequeued True (fst e) (fst (snd e)) (snd (snd e))) work_thread_start
       (s\<lparr>port_queue := remove1 e (port_queue s)\<rparr>)) (\<lambda>(w, s). Inr s)"

text \<open>A completion that failed; the worker counts it.\<close>

definition error_turn :: "'l srw_api \<Rightarrow> os \<Rightarrow> addr \<Rightarrow> addr \<Rightarrow> 'l IOCPModule \<Rightarrow> 'l IOCPModule res" where
  "error_turn api os pSC p s =
     bindR (IOCPWorkThread api os (Dequeued False 0 pSC p) work_thread_start (s\<lparr>pending := removeAll p (pending s)\<rparr>)) (\<lambda>(w, s). Inr s)"

definition failed_io :: "addr \<Rightarrow> 'l IOCPModule \<Rightarrow> 'l IOCPModule" where
  "failed_io p s = s\<lparr>pending := removeAll p (pending s), errorNum := errorNum s + 1\<rparr>"

text \<open>What a worker has done when it looks at the operation: the timer of the connection is set.\<close>

definition armed :: "os \<Rightarrow> addr \<Rightarrow> 'l SocketContext \<Rightarrow> addr \<Rightarrow> 'l IOCPModule \<Rightarrow> 'l IOCPModule" where
  "armed os pSC sc p s =
     (put_sc pSC (sc\<lparr>sc_timer := the (QueryPerformanceCounter os (tick s))\<rparr>) s)
       \<lparr>pending := removeAll p (pending s), tick := Suc (tick s)\<rparr>"

lemma armed_fields [simp]:
  "hp (armed os pSC sc p s) = hp s" "ics (armed os pSC sc p s) = ics s" "io_lock (armed os pSC sc p s) = io_lock s"
  "scs (armed os pSC sc p s) = (scs s)(pSC \<mapsto> sc\<lparr>sc_timer := the (QueryPerformanceCounter os (tick s))\<rparr>)"
  "pending (armed os pSC sc p s) = removeAll p (pending s)" "next_obj (armed os pSC sc p s) = next_obj s"
  "calls (armed os pSC sc p s) = calls s" "io_counts (armed os pSC sc p s) = io_counts s" "port_queue (armed os pSC sc p s) = port_queue s"
  "socketContextMap (armed os pSC sc p s) = socketContextMap s" "pRecvCallback (armed os pSC sc p s) = pRecvCallback s"
  by (simp_all add: armed_def put_sc_def io_counts_def)

lemma armed_ok: "io_ok api s \<Longrightarrow> scs s pSC = Some sc \<Longrightarrow> io_ok api (armed os pSC sc p s)"
  by (auto simp: armed_def intro!: io_ok_put_sc)

lemma completed_timer:
  assumes "scs s pSC = Some sc" and "pSC \<noteq> 0" and "os_accepts os"
  shows "bindR (completed p d s) (timer_start os pSC) = deliver p d (armed os pSC sc p s)"
proof -
  obtain t where "QueryPerformanceCounter os (tick s) = Some t" using assms(3) by (auto simp: os_accepts_def)
  then show ?thesis
    using assms(1,2)
    by (cases s) (auto simp: completed_def deliver_def armed_def get_ic_def get_sc_def timer_start_def ask_def put_sc_def bindR_def
      split: option.splits sum.splits)
qed


lemma turn_data:
  assumes "scs s pSC = Some sc" and "pSC \<noteq> 0" and "os_accepts os" and "deliver p d (armed os pSC sc p s) = Inr u"
  obtains v where "completed p d s = Inr v" and "timer_start os pSC v = Inr u"
  using completed_timer [OF assms(1-3), of p d] assms(4) that by (auto simp: bindR_eq_Inr)

lemma deliver_ics: "deliver p d s = Inr u \<Longrightarrow> ics s p = Some ic \<Longrightarrow> get_ic p u = Inr ic"
  by (auto simp: deliver_def bindR_eq_Inr get_ic_def split: if_splits)

lemma accept_turn:
  assumes "scs s LISTEN = Some sc" and "os_accepts os" and "ics s p = Some ic" and "ic_operation ic = SIG_ACCEPT" and "d \<noteq> []"
    and "accept_chunk api os LISTEN p d (armed os LISTEN sc p s) = Inr (True, s')"
  shows "io_turn api os LISTEN p d s = Inr (s'\<lparr>connectNum := connectNum s' + 1\<rparr>)"
proof -
  obtain u where u: "deliver p d (armed os LISTEN sc p s) = Inr u" "doAccept api os LISTEN p (int (length d)) u = Inr (True, s')"
    using assms(6) by (auto simp: accept_chunk_def bindR_eq_Inr)
  have g: "get_ic p u = Inr ic" by (rule deliver_ics [OF u(1)]) (use assms(3) in simp)
  obtain v where "completed p d s = Inr v" "timer_start os LISTEN v = Inr u"
    by (rule turn_data [OF assms(1) _ assms(2) u(1)]) (simp add: LISTEN_def)
  then show ?thesis using assms(4,5) g u(2) by (simp add: io_turn_def IOCPWorkThread_def work_thread_start_def work_completion_def)
qed

lemma recv_turn:
  assumes "scs s psc = Some sc" and "psc \<noteq> 0" and "os_accepts os" and "ics s q = Some c" and "ic_operation c = SIG_RECV" and "d \<noteq> []"
    and "recv_chunk os psc q d (armed os psc sc q s) = Inr (True, s')"
  shows "io_turn api os psc q d s = Inr s'"
proof -
  obtain u where u: "deliver q d (armed os psc sc q s) = Inr u" "doRecv os psc q (int (length d)) u = Inr (True, s')"
    using assms(7) by (auto simp: recv_chunk_def bindR_eq_Inr)
  have g: "get_ic q u = Inr c" by (rule deliver_ics [OF u(1)]) (use assms(4) in simp)
  obtain v where "completed q d s = Inr v" "timer_start os psc v = Inr u"
    by (rule turn_data [OF assms(1-3) u(1)])
  then show ?thesis using assms(5,6) g u(2)
    by (simp add: io_turn_def IOCPWorkThread_def work_thread_start_def work_completion_def close_after_def)
qed

text \<open>Without data there is nothing to deliver.\<close>

lemma turn_no_data:
  assumes "scs s psc = Some sc" and "psc \<noteq> 0" and "os_accepts os" and "ics_ok s" and "ics s q = Some c"
  shows "\<exists>v. completed q [] s = Inr v \<and> timer_start os psc v = Inr (armed os psc sc q s) \<and> get_ic q (armed os psc sc q s) = Inr c"
proof -
  let ?u = "armed os psc sc q s"
  obtain b where "blocks (hp s) (wsabuf_buf c) = Some b" "wsabuf_buf c \<noteq> 0" using ics_okD(4,5) [OF assms(4,5)] by blast
  moreover have g: "get_ic q ?u = Inr c" using ics_okD(1) [OF assms(4,5)] assms(5) by (simp add: get_ic_def)
  moreover have "?u\<lparr>hp := hp s\<rparr> = ?u" by (rule IOCPModule.equality) simp_all
  ultimately have u: "deliver q [] ?u = Inr ?u" by (simp add: deliver_def write_cells_def map_upd_triv)
  obtain v where "completed q [] s = Inr v" "timer_start os psc v = Inr ?u" by (rule turn_data [OF assms(1-3) u])
  with g show ?thesis by blast
qed

lemma leave_turn:
  assumes "scs s psc = Some sc" and "psc \<noteq> 0" and "os_accepts os" and "ics_ok s" and "ics s q = Some c" and "ic_operation c \<noteq> SIG_ACCEPT"
    and "\<not> closeFlag sc" and "postCloseConnection api psc (armed os psc sc q s) = Inr ((), s')"
  shows "io_turn api os psc q [] s = Inr s'"
proof -
  obtain v where "completed q [] s = Inr v" "timer_start os psc v = Inr (armed os psc sc q s)" "get_ic q (armed os psc sc q s) = Inr c"
    using turn_no_data [OF assms(1-5)] by blast
  moreover have "get_sc psc (armed os psc sc q s) = Inr (sc\<lparr>sc_timer := the (QueryPerformanceCounter os (tick s))\<rparr>)"
    using assms(2) by (simp add: get_sc_def)
  ultimately show ?thesis using assms(6-8)
    by (simp add: io_turn_def IOCPWorkThread_def work_thread_start_def work_completion_def)
qed

lemma hangup_turn:
  assumes "scs s LISTEN = Some sc" and "os_accepts os" and "ics_ok s" and "ics s p = Some ic" and "ic_operation ic = SIG_ACCEPT"
    and "repost_accept api os p (armed os LISTEN sc p s) = Inr s'"
  shows "io_turn api os LISTEN p [] s = Inr s'"
proof -
  obtain v where "completed p [] s = Inr v" "timer_start os LISTEN v = Inr (armed os LISTEN sc p s)" "get_ic p (armed os LISTEN sc p s) = Inr ic"
    using turn_no_data [OF assms(1) _ assms(2-4)] by (auto simp: LISTEN_def)
  then show ?thesis using assms(5,6)
    by (simp add: io_turn_def IOCPWorkThread_def work_thread_start_def work_completion_def)
qed

text \<open>Failed completions.\<close>

lemma failed_io_fields [simp]:
  "hp (failed_io p s) = hp s" "ics (failed_io p s) = ics s" "io_lock (failed_io p s) = io_lock s" "scs (failed_io p s) = scs s"
  "pending (failed_io p s) = removeAll p (pending s)" "next_obj (failed_io p s) = next_obj s" "calls (failed_io p s) = calls s"
  "io_counts (failed_io p s) = (connectNum s, normallyClosedNum s, errorNum s + 1)" "port_queue (failed_io p s) = port_queue s"
  "socketContextMap (failed_io p s) = socketContextMap s" "io_ok api (failed_io p s) = io_ok api s"
  by (simp_all add: failed_io_def io_counts_def)

lemma reset_turn:
  assumes "psc \<noteq> 0" and "ics_ok s" and "ics s q = Some c" and "ic_operation c = SIG_RECV"
    and "postCloseConnection api psc (failed_io q s) = Inr ((), s')"
  shows "error_turn api os psc q s = Inr s'"
proof -
  have "get_ic q (failed_io q s) = Inr c" using ics_okD(1) [OF assms(2,3)] assms(3) by (simp add: get_ic_def)
  then show ?thesis using assms(1,4,5)
    by (simp add: error_turn_def IOCPWorkThread_def work_thread_start_def work_error_def failed_io_def)
qed

lemma refuse_turn:
  assumes "ics_ok s" and "ics s p = Some ic" and "ic_operation ic = SIG_ACCEPT" and "repost_accept api os p (failed_io p s) = Inr s'"
  shows "error_turn api os LISTEN p s = Inr s'"
proof -
  have "get_ic p (failed_io p s) = Inr ic" using ics_okD(1) [OF assms(1,2)] assms(2) by (simp add: get_ic_def)
  then show ?thesis using assms(3,4)
    by (simp add: error_turn_def IOCPWorkThread_def work_thread_start_def work_error_def failed_io_def LISTEN_def)
qed

text \<open>An accept that brought no connection is posted again.\<close>

lemma repost_accept_ok:
  assumes "io_ok api u" and "ics u p = Some ic" and "os_accepts os"
  shows "\<exists>s' k. repost_accept api os p u = Inr s' \<and> io_ok api s' \<and>
     ics s' = (ics u)(p \<mapsto> ic\<lparr>ic_operation := SIG_ACCEPT, ic_socket := k\<rparr>) \<and> pending s' = p # pending u \<and> scs s' = scs u \<and>
     calls s' = calls u \<and> socketContextMap s' = socketContextMap u \<and> port_queue s' = port_queue u \<and> io_lock s' = io_lock u \<and>
     next_obj s' = next_obj u \<and> io_counts s' = (connectNum u + 1, normallyClosedNum u + 1, errorNum u)"
proof -
  define v where "v = (closesocket (ic_socket ic) u)\<lparr>connectNum := connectNum u + 1, normallyClosedNum := normallyClosedNum u + 1\<rparr>"
  have v: "hp v = hp u" "ics v = ics u" "scs v = scs u" "next_obj v = next_obj u" "pending v = pending u" "calls v = calls u"
    "socketContextMap v = socketContextMap u" "port_queue v = port_queue u" "io_lock v = io_lock u"
    "io_counts v = (connectNum u + 1, normallyClosedNum u + 1, errorNum u)"
    by (simp_all add: v_def closesocket_def io_counts_def split: option.split)
  have "io_ok api v" "ics v p = Some ic" using assms(1,2) io_ok_cong [OF v(1-4)] v(2) by simp_all
  from postAccept_ok [OF this assms(3)] obtain s' where s': "postAccept os p v = Inr (True, s')" "io_ok api s'" "io_frame v s'"
    "pending s' = p # pending v" "ics s' = (ics v)(p \<mapsto> ic\<lparr>ic_operation := SIG_ACCEPT, ic_socket := Some (next_sock v)\<rparr>)" by blast
  have g: "get_ic p u = Inr ic" using assms(1,2) ics_okD(3) by (auto simp: io_ok_def)
  have c: "connectNum (closesocket k u) = connectNum u" "normallyClosedNum (closesocket k u) = normallyClosedNum u" for k
    by (simp_all add: closesocket_def split: option.split)
  have "repost_accept api os p u = Inr s'" using g s'(1) c by (simp add: repost_accept_def v_def)
  then show ?thesis using s' v by (intro exI [of _ s'] exI [of _ "Some (next_sock v)"]) (simp add: io_frame_def)
qed

section \<open>Close packets\<close>

text \<open>The worker that takes the close packet of a connection.\<close>

definition taken :: "os \<Rightarrow> completion \<Rightarrow> 'l SocketContext \<Rightarrow> 'l IOCPModule \<Rightarrow> 'l IOCPModule" where
  "taken os e sc s =
     (put_sc (fst (snd e)) (sc\<lparr>sc_timer := the (QueryPerformanceCounter os (tick s))\<rparr>) s)
       \<lparr>port_queue := remove1 e (port_queue s), tick := Suc (tick s)\<rparr>"

lemma taken_fields [simp]:
  "hp (taken os e sc s) = hp s" "ics (taken os e sc s) = ics s" "io_lock (taken os e sc s) = io_lock s"
  "scs (taken os e sc s) = (scs s)(fst (snd e) \<mapsto> sc\<lparr>sc_timer := the (QueryPerformanceCounter os (tick s))\<rparr>)"
  "pending (taken os e sc s) = pending s" "next_obj (taken os e sc s) = next_obj s"
  "calls (taken os e sc s) = calls s" "io_counts (taken os e sc s) = io_counts s"
  "port_queue (taken os e sc s) = remove1 e (port_queue s)"
  "socketContextMap (taken os e sc s) = socketContextMap s" "pRecvCallback (taken os e sc s) = pRecvCallback s"
  by (simp_all add: taken_def put_sc_def io_counts_def)

lemma taken_ok: "io_ok api s \<Longrightarrow> scs s (fst (snd e)) = Some sc \<Longrightarrow> io_ok api (taken os e sc s)"
  by (auto simp: taken_def intro!: io_ok_put_sc)

lemma close_turn:
  assumes "scs s psc = Some sc" and "psc \<noteq> 0" and "os_accepts os" and "ics_ok s" and "ics s r = Some c"
    and "ic_operation c = SIG_CLOSE_CONNECTION" and "0 < n" and "doCloseConnection api psc (taken os (n, psc, r) sc s) = Inr ((), s')"
  shows "port_turn api os (n, psc, r) s = Inr (s'\<lparr>normallyClosedNum := normallyClosedNum s' + 1\<rparr>)"
proof -
  let ?u = "taken os (n, psc, r) sc s"
  have g: "get_ic r ?u = Inr c" using ics_okD(1) [OF assms(4,5)] assms(5) by (simp add: get_ic_def)
  obtain t where "QueryPerformanceCounter os (tick s) = Some t" using assms(3) by (auto simp: os_accepts_def)
  then have "timer_start os psc (s\<lparr>port_queue := remove1 (n, psc, r) (port_queue s)\<rparr>) = Inr ?u"
    using assms(1,2) by (cases s) (simp add: timer_start_def get_sc_def ask_def taken_def put_sc_def)
  then show ?thesis using assms(6-8) g
    by (simp add: port_turn_def IOCPWorkThread_def work_thread_start_def work_completion_def)
qed

end
