(* ===== verification/IOCP_Service.thy ===== *)
theory IOCP_Service
  imports IOCP_Turns
begin

text \<open>
  The module as a service for any number of clients: clients connect, send whole packets and other bytes,
  and leave, in any order; the worker threads handle the completions one after the other. The runs refine
  an abstract service that knows of every client only whether it is connected.
\<close>

section \<open>The module as a service\<close>

text \<open>
  A client connects on one of the posted accepts with a packet (\<open>Arrive\<close>) or with other bytes (\<open>Knock\<close>);
  a connected client sends packets with bytes behind them (\<open>Chunk\<close>) or closes its end (\<open>Leave\<close>); a worker
  takes the close packet of a connection from the port (\<open>Sweep\<close>). The errors: the receive of a client
  fails (\<open>Reset\<close>), a posted accept completes without data (\<open>Hangup\<close>) or fails (\<open>Refuse\<close>). What comes for
  a client whose receive is not posted does not happen.
\<close>

datatype traffic =
    Arrive nat "Packet \<times> string"
  | Knock nat string
  | Chunk nat "(Packet \<times> string) list" string
  | Leave nat
  | Sweep nat
  | Reset nat
  | Hangup nat
  | Refuse nat

text \<open>Clients are numbered as they come: each has its connection and its receive operation.\<close>

type_synonym conns = "(addr \<times> addr) list"

text \<open>What a callback is told: the number of the client (none for the listening connection), the data, its length.\<close>

type_synonym notice = "nat option \<times> string option \<times> int"

definition number :: "addr \<Rightarrow> conns \<Rightarrow> nat option" where
  "number p cs = (if p = LISTEN then None else Some (length (takeWhile (\<lambda>c. fst c \<noteq> p) cs)))"

fun notice_of :: "conns \<Rightarrow> call \<Rightarrow> notice" where
  "notice_of cs (RecvCall cb p d n) = (number p cs, d, n)"
| "notice_of cs (SendCall cb p d n) = (number p cs, d, n)"

definition noticed :: "conns \<Rightarrow> 'l IOCPModule \<Rightarrow> 'l IOCPModule \<Rightarrow> notice list" where
  "noticed cs s s' = map (notice_of cs) (drop (length (calls s)) (calls s'))"

definition close_packet :: "addr \<Rightarrow> 'l IOCPModule \<Rightarrow> completion option" where
  "close_packet psc s = find (\<lambda>e. fst (snd e) = psc) (port_queue s)"

fun serve ::
  "'l srw_api \<Rightarrow> os \<Rightarrow> addr list \<Rightarrow> traffic \<Rightarrow> 'l IOCPModule \<times> conns \<Rightarrow> (notice list \<times> 'l IOCPModule \<times> conns) res" where
  "serve api os ps (Arrive k m) (s, cs) =
     bindR (io_turn api os LISTEN (ps ! k) (pkt_text m) s) (\<lambda>s'.
       Inr (noticed cs s s', s', cs @ [(next_obj s, Suc (next_obj s))]))"
| "serve api os ps (Knock k d) (s, cs) =
     bindR (io_turn api os LISTEN (ps ! k) d s) (\<lambda>s'.
       Inr (noticed cs s s', s', cs @ [(next_obj s, Suc (next_obj s))]))"
| "serve api os ps (Chunk i ms t) (s, cs) =
     (if i < length cs \<and> snd (cs ! i) \<in> set (pending s) then
        bindR (io_turn api os (fst (cs ! i)) (snd (cs ! i)) (chunk_text ms @ t) s) (\<lambda>s'. Inr (noticed cs s s', s', cs))
      else Inr ([], s, cs))"
| "serve api os ps (Leave i) (s, cs) =
     (if i < length cs \<and> snd (cs ! i) \<in> set (pending s) then
        bindR (io_turn api os (fst (cs ! i)) (snd (cs ! i)) [] s) (\<lambda>s'. Inr (noticed cs s s', s', cs))
      else Inr ([], s, cs))"
| "serve api os ps (Sweep i) (s, cs) =
     (case if i < length cs then close_packet (fst (cs ! i)) s else None of
        None \<Rightarrow> Inr ([], s, cs)
      | Some e \<Rightarrow> bindR (port_turn api os e s) (\<lambda>s'. Inr (noticed cs s s', s', cs)))"
| "serve api os ps (Reset i) (s, cs) =
     (if i < length cs \<and> snd (cs ! i) \<in> set (pending s) then
        bindR (error_turn api os (fst (cs ! i)) (snd (cs ! i)) s) (\<lambda>s'. Inr (noticed cs s s', s', cs))
      else Inr ([], s, cs))"
| "serve api os ps (Hangup k) (s, cs) =
     bindR (io_turn api os LISTEN (ps ! k) [] s) (\<lambda>s'. Inr (noticed cs s s', s', cs))"
| "serve api os ps (Refuse k) (s, cs) =
     bindR (error_turn api os LISTEN (ps ! k) s) (\<lambda>s'. Inr (noticed cs s s', s', cs))"

text \<open>What the service promises.\<close>

datatype client = Connected | Leaving | Gone

record service =
  clients :: "client list"
  opened :: int
  ended :: int
  failed :: int

definition is_client :: "client \<Rightarrow> nat \<Rightarrow> service \<Rightarrow> bool" where
  "is_client c i v \<longleftrightarrow> i < length (clients v) \<and> clients v ! i = c"

fun service_step :: "traffic \<Rightarrow> service \<Rightarrow> notice list \<times> service" where
  "service_step (Arrive k m) v =
     ([(None, Some (pkt_text m), int (length (pkt_text m)))], v\<lparr>clients := clients v @ [Connected], opened := opened v + 1\<rparr>)"
| "service_step (Knock k d) v = ([], v\<lparr>clients := clients v @ [Connected], opened := opened v + 1\<rparr>)"
| "service_step (Chunk i ms t) v =
     (if is_client Connected i v
      then (replicate (length ms) (Some i, Some (chunk_text ms @ t), int (length (chunk_text ms @ t))), v) else ([], v))"
| "service_step (Leave i) v = ([], if is_client Connected i v then v\<lparr>clients := (clients v)[i := Leaving]\<rparr> else v)"
| "service_step (Sweep i) v =
     ([], if is_client Leaving i v then v\<lparr>clients := (clients v)[i := Gone], ended := ended v + 1\<rparr> else v)"
| "service_step (Reset i) v =
     ([], if is_client Connected i v then v\<lparr>clients := (clients v)[i := Leaving], failed := failed v + 1\<rparr> else v)"
| "service_step (Hangup k) v = ([], v\<lparr>opened := opened v + 1, ended := ended v + 1\<rparr>)"
| "service_step (Refuse k) v = ([], v\<lparr>opened := opened v + 1, ended := ended v + 1, failed := failed v + 1\<rparr>)"

text \<open>Traffic that fits the buffers and brings packets whole.\<close>

fun orderly :: "nat \<Rightarrow> traffic \<Rightarrow> bool" where
  "orderly n (Arrive k m) \<longleftrightarrow> k < n \<and> pkt_ok m \<and> length (pkt_text m) \<le> nat DEFAULT_BUF_SIZ"
| "orderly n (Knock k d) \<longleftrightarrow> k < n \<and> d \<noteq> [] \<and> junk d \<and> length d \<le> nat DEFAULT_BUF_SIZ"
| "orderly n (Chunk i ms t) \<longleftrightarrow> (ms \<noteq> [] \<or> t \<noteq> []) \<and> list_all pkt_ok ms \<and> junk t \<and> length (chunk_text ms @ t) \<le> nat DEFAULT_BUF_SIZ"
| "orderly n (Leave i) \<longleftrightarrow> True"
| "orderly n (Sweep i) \<longleftrightarrow> True"
| "orderly n (Reset i) \<longleftrightarrow> True"
| "orderly n (Hangup k) \<longleftrightarrow> k < n"
| "orderly n (Refuse k) \<longleftrightarrow> k < n"

text \<open>The invariant of the service.\<close>

definition owns :: "'l IOCPModule \<Rightarrow> addr \<Rightarrow> addr \<Rightarrow> bool" where
  "owns s psc q \<longleftrightarrow> (\<exists>sc k. scs s psc = Some sc \<and> map_of (IOCPContextMap sc) k = Some q)"

definition standby_ok :: "'l IOCPModule \<Rightarrow> addr \<Rightarrow> bool" where
  "standby_ok s p \<longleftrightarrow> owns s LISTEN p \<and> p \<in> set (pending s) \<and>
     (\<exists>ic. ics s p = Some ic \<and> ic_operation ic = SIG_ACCEPT \<and> wsabuf_len ic = nat DEFAULT_BUF_SIZ)"

definition client_ok :: "'l IOCPModule \<Rightarrow> addr \<times> addr \<Rightarrow> bool" where
  "client_ok s c \<longleftrightarrow> fst c \<noteq> LISTEN \<and> fst c < next_obj s \<and> snd c < next_obj s \<and>
     (case scs s (fst c) of
        None \<Rightarrow> snd c \<notin> set (pending s) \<and> close_packet (fst c) s = None
      | Some sc \<Rightarrow> map_of (socketContextMap s) (fst c) \<noteq> None \<and>
          (if closeFlag sc
           then snd c \<notin> set (pending s) \<and>
             (\<exists>r ic. close_packet (fst c) s = Some (1, fst c, r) \<and> owns s (fst c) r \<and>
                ics s r = Some ic \<and> ic_operation ic = SIG_CLOSE_CONNECTION)
           else snd c \<in> set (pending s) \<and> close_packet (fst c) s = None \<and> owns s (fst c) (snd c) \<and>
             (\<exists>ic. ics s (snd c) = Some ic \<and> ic_operation ic = SIG_RECV \<and> \<not> prevFlag ic \<and> wsabuf_len ic = nat DEFAULT_BUF_SIZ)))"

definition serving :: "'l srw_api \<Rightarrow> addr list \<Rightarrow> 'l IOCPModule \<times> conns \<Rightarrow> bool" where
  "serving api ps = (\<lambda>(s, cs).
     io_ok api s \<and> idle api (io_lock s) \<and> (\<forall>p \<in> set ps. standby_ok s p) \<and> (\<forall>c \<in> set cs. client_ok s c) \<and>
     distinct (map fst cs) \<and> distinct (map snd cs) \<and> set ps \<inter> snd ` set cs = {} \<and>
     distinct (map (\<lambda>e. fst (snd e)) (port_queue s)) \<and> (\<forall>e \<in> set (port_queue s). fst (snd e) < next_obj s))"

definition client_of :: "'l IOCPModule \<Rightarrow> addr \<Rightarrow> client" where
  "client_of s psc = (case scs s psc of None \<Rightarrow> Gone | Some sc \<Rightarrow> if closeFlag sc then Leaving else Connected)"

definition service_of :: "'l IOCPModule \<times> conns \<Rightarrow> service" where
  "service_of = (\<lambda>(s, cs).
     \<lparr>clients = map (\<lambda>c. client_of s (fst c)) cs, opened = connectNum s, ended = normallyClosedNum s, failed = errorNum s\<rparr>)"

section \<open>Frames\<close>

lemma number_nth:
  assumes "distinct (map fst cs)" and "i < length cs" and "fst (cs ! i) \<noteq> LISTEN"
  shows "number (fst (cs ! i)) cs = Some i"
proof -
  have "takeWhile (\<lambda>c. fst c \<noteq> fst (cs ! i)) cs = take i cs"
    using assms(1,2) by (intro takeWhile_eq_take_P_nth) (auto simp: distinct_conv_nth)
  then show ?thesis using assms(2,3) by (simp add: number_def)
qed

lemma owns_unique:
  assumes "io_ok api s" and "owns s a r" and "owns s b r"
  shows "a = b"
  using assms unfolding owns_def io_ok_def scs_ok_def by blast

lemma owns_cong: "map_option IOCPContextMap (scs s' psc) = map_option IOCPContextMap (scs s psc) \<Longrightarrow> owns s' psc r = owns s psc r"
  by (cases "scs s psc"; cases "scs s' psc") (auto simp: owns_def)

lemma client_ok_frame:
  assumes "client_ok s (psc, q)" and "scs s' psc = scs s psc" and "\<And>r. owns s psc r \<Longrightarrow> ics s' r = ics s r"
    and "q \<in> set (pending s') \<longleftrightarrow> q \<in> set (pending s)" and "close_packet psc s' = close_packet psc s"
    and "map_of (socketContextMap s') psc = map_of (socketContextMap s) psc" and "next_obj s \<le> next_obj s'"
  shows "client_ok s' (psc, q)"
proof -
  have o: "owns s' psc r = owns s psc r" for r by (rule owns_cong) (simp add: assms(2))
  show ?thesis
    using assms(1) unfolding client_ok_def fst_conv snd_conv assms(2,4-6) o
    using assms(3,7) by (auto split: option.splits)
qed

lemma standby_ok_frame:
  assumes "standby_ok s p" and "map_option IOCPContextMap (scs s' LISTEN) = map_option IOCPContextMap (scs s LISTEN)"
    and "ics s' p = ics s p" and "p \<in> set (pending s')"
  shows "standby_ok s' p"
  using assms(1,3,4) owns_cong [OF assms(2)] by (simp add: standby_ok_def)

text \<open>What a turn on one client leaves of the others.\<close>

definition turn_frame :: "addr \<Rightarrow> addr \<Rightarrow> 'l IOCPModule \<Rightarrow> 'l IOCPModule \<Rightarrow> bool" where
  "turn_frame psc q s s' \<longleftrightarrow>
     (\<forall>a. a \<noteq> psc \<longrightarrow> scs s' a = scs s a \<and> close_packet a s' = close_packet a s \<and>
        map_of (socketContextMap s') a = map_of (socketContextMap s) a \<and> (\<forall>r. owns s a r \<longrightarrow> ics s' r = ics s r)) \<and>
     (\<forall>x. x \<noteq> q \<longrightarrow> (x \<in> set (pending s') \<longleftrightarrow> x \<in> set (pending s))) \<and>
     next_obj s \<le> next_obj s' \<and> io_lock s' = io_lock s \<and> distinct (map (\<lambda>e. fst (snd e)) (port_queue s')) \<and>
     (\<forall>e \<in> set (port_queue s'). fst (snd e) < next_obj s')"

lemma serving_turn:
  assumes "serving api ps (s, cs)" and "i < length cs" and "cs ! i = (psc, q)"
    and "turn_frame psc q s s'" and "io_ok api s'" and "client_ok s' (psc, q)"
  shows "serving api ps (s', cs)"
proof -
  have S: "idle api (io_lock s)" "\<forall>p \<in> set ps. standby_ok s p" "\<forall>c \<in> set cs. client_ok s c"
    "distinct (map fst cs)" "distinct (map snd cs)" "set ps \<inter> snd ` set cs = {}"
    using assms(1) by (simp_all add: serving_def)
  have c: "(psc, q) \<in> set cs" using assms(2,3) nth_mem by fastforce
  then have L: "LISTEN \<noteq> psc" "q \<notin> set ps" using S(3,6) by (force simp: client_ok_def)+
  have "client_ok s' d" if d: "d \<in> set cs" for d
  proof (cases "d = (psc, q)")
    case False
    have "fst d \<noteq> psc" "snd d \<noteq> q"
      using inj_onD [of fst "set cs" d "(psc, q)"] inj_onD [of snd "set cs" d "(psc, q)"] False d c S(4,5)
      by (auto simp: distinct_map)
    moreover have "client_ok s (fst d, snd d)" using S(3) d by simp
    ultimately have "client_ok s' (fst d, snd d)"
      by - (rule client_ok_frame [of s], use assms(4) in \<open>simp_all add: turn_frame_def\<close>)
    then show ?thesis by simp
  qed (use assms(6) in simp)
  moreover have "standby_ok s' p" if p: "p \<in> set ps" for p
  proof -
    have "p \<noteq> q" using L(2) p by blast
    moreover have p': "standby_ok s p" using S(2) p by blast
    ultimately have "ics s' p = ics s p" "p \<in> set (pending s')" "scs s' LISTEN = scs s LISTEN"
      using assms(4) L(1) by (simp_all add: turn_frame_def standby_ok_def)
    then show ?thesis by (intro standby_ok_frame [OF p']) simp_all
  qed
  ultimately show ?thesis using S assms(4,5) by (simp add: serving_def turn_frame_def)
qed

lemma service_of_turn:
  assumes "serving api ps (s, cs)" and "i < length cs" and "cs ! i = (psc, q)" and "turn_frame psc q s s'"
  shows "service_of (s', cs) =
    \<lparr>clients = (clients (service_of (s, cs)))[i := client_of s' psc],
     opened = connectNum s', ended = normallyClosedNum s', failed = errorNum s'\<rparr>"
proof -
  have "distinct (map fst cs)" using assms(1) by (simp add: serving_def)
  then have "fst (cs ! j) \<noteq> psc" if "j < length cs" "j \<noteq> i" for j
    using that assms(2,3) by (metis distinct_conv_nth fst_conv length_map nth_map)
  then have "client_of s' (fst (cs ! j)) = client_of s (fst (cs ! j))" if "j < length cs" "j \<noteq> i" for j
    using that assms(4) by (simp add: client_of_def turn_frame_def)
  then show ?thesis using assms(2,3) by (auto simp: service_of_def intro!: nth_equalityI simp: nth_list_update)
qed

lemma client_of_connected:
  assumes "client_ok s (psc, q)"
  shows "client_of s psc = Connected \<longleftrightarrow> q \<in> set (pending s)"
  using assms by (auto simp: client_ok_def client_of_def split: option.splits)

lemma client_of_leaving:
  assumes "client_ok s (psc, q)"
  shows "client_of s psc = Leaving \<longleftrightarrow> close_packet psc s \<noteq> None"
  using assms by (auto simp: client_ok_def client_of_def split: option.splits if_splits)

section \<open>One turn\<close>

lemma connected_client:
  assumes "serving api ps (s, cs)" and "i < length cs" and "cs ! i = (psc, q)" and "q \<in> set (pending s)"
  obtains sc c where "scs s psc = Some sc" and "\<not> closeFlag sc" and "ics s q = Some c" and "ic_operation c = SIG_RECV"
    and "\<not> prevFlag c" and "wsabuf_len c = nat DEFAULT_BUF_SIZ" and "owns s psc q" and "map_of (socketContextMap s) psc \<noteq> None"
    and "close_packet psc s = None" and "psc \<noteq> LISTEN" and "psc \<noteq> 0" and "client_ok s (psc, q)"
proof -
  have c: "client_ok s (psc, q)" using assms(1,2,3) nth_mem [of i cs] by (auto simp: serving_def)
  with assms(4) obtain sc where sc: "scs s psc = Some sc" "\<not> closeFlag sc" by (auto simp: client_ok_def split: option.splits if_splits)
  moreover have "psc \<noteq> 0" using assms(1) sc(1) scs_okD(1) by (auto simp: serving_def io_ok_def)
  ultimately show ?thesis using c assms(4) that by (auto simp: client_ok_def)
qed

lemma owned_live: "io_ok api s \<Longrightarrow> owns s a r \<Longrightarrow> ics s r \<noteq> None"
  using scs_okD(4) by (fastforce simp: owns_def io_ok_def sc_ok_def)

lemma turn_frame_armed:
  assumes "io_ok api s" and "scs s psc = Some sc" and "owns s psc q" and "scs s' = (scs s)(psc \<mapsto> sc')" and "ics s' = (ics s)(q \<mapsto> c)"
    and "pending s' = ps @ removeAll q (pending s)" and "set ps \<subseteq> {q}"
    and "port_queue s' = port_queue s" and "socketContextMap s' = socketContextMap s" and "next_obj s' = next_obj s" and "io_lock s' = io_lock s"
    and "distinct (map (\<lambda>e. fst (snd e)) (port_queue s))" and "\<forall>e \<in> set (port_queue s). fst (snd e) < next_obj s"
  shows "turn_frame psc q s s'"
proof -
  have "r \<noteq> q" if "owns s a r" "a \<noteq> psc" for a r using owns_unique [OF assms(1) assms(3)] that by blast
  then show ?thesis using assms by (auto simp: turn_frame_def close_packet_def)
qed

lemma chunk_served:
  assumes "srw_laws api" and "os_accepts os" and "serving api ps (s, cs)" and "i < length cs" and "cs ! i = (psc, q)"
    and "q \<in> set (pending s)" and "ms \<noteq> [] \<or> t \<noteq> []" and "list_all pkt_ok ms" and "junk t"
    and "length (chunk_text ms @ t) \<le> nat DEFAULT_BUF_SIZ"
  shows "\<exists>s'. io_turn api os psc q (chunk_text ms @ t) s = Inr s' \<and> serving api ps (s', cs) \<and> service_of (s', cs) = service_of (s, cs) \<and>
     noticed cs s s' = replicate (length ms) (Some i, Some (chunk_text ms @ t), int (length (chunk_text ms @ t)))"
proof -
  have ok: "io_ok api s" "distinct (map fst cs)" "distinct (map (\<lambda>e. fst (snd e)) (port_queue s))"
    "\<forall>e \<in> set (port_queue s). fst (snd e) < next_obj s" using assms(3) by (simp_all add: serving_def)
  from connected_client [OF assms(3-6)] obtain sc c where
    sc: "scs s psc = Some sc" "\<not> closeFlag sc" "psc \<noteq> LISTEN" "psc \<noteq> 0" "map_of (socketContextMap s) psc \<noteq> None" "close_packet psc s = None" and
    c: "ics s q = Some c" "ic_operation c = SIG_RECV" "\<not> prevFlag c" "wsabuf_len c = nat DEFAULT_BUF_SIZ" and
    own: "owns s psc q" and cl: "client_ok s (psc, q)" by metis
  let ?u = "armed os psc sc q s" and ?d = "chunk_text ms @ t"
  let ?sc = "sc\<lparr>sc_timer := the (QueryPerformanceCounter os (tick s))\<rparr>"
  have recv: "WSARecv os n" for n using assms(2) by (simp add: os_accepts_def)
  have op: "c\<lparr>ic_operation := SIG_RECV\<rparr> = c" using c(2) by simp
  obtain s' where s': "recv_chunk os psc q ?d ?u = Inr (True, s')" "io_ok api s'" "ics s' = (ics s)(q \<mapsto> c)" "scs s' = (scs s)(psc \<mapsto> ?sc)"
    "calls s' = calls s @ replicate (length ms) (RecvCall (pRecvCallback s) psc (Some ?d) (int (length ?d)))"
    "pending s' = [q] @ removeAll q (pending s)" "socketContextMap s' = socketContextMap s" "port_queue s' = port_queue s"
    "io_lock s' = io_lock s" "next_obj s' = next_obj s" "io_counts s' = io_counts s"
    using doRecv_packets [OF armed_ok [OF ok(1) sc(1)] _ c(3) assms(8,9), of os q q ?d os psc] c(1,4) assms(10) recv op
    by (auto simp: chunk_text_def)
  have ne: "?d \<noteq> []"
  proof (cases "t = []")
    case True
    then obtain m where "m \<in> set ms" "pkt_ok m" using assms(7,8) by (cases ms) auto
    then have "m \<in> set ms" "pkt_text m \<noteq> []" using pkt_text_nonempty by simp_all
    then show ?thesis by (auto simp: chunk_text_def)
  qed simp
  have run: "io_turn api os psc q ?d s = Inr s'" by (rule recv_turn [OF sc(1,4) assms(2) c(1,2) ne s'(1)])
  have fr: "turn_frame psc q s s'" by (rule turn_frame_armed [OF ok(1) sc(1) own s'(4,3,6) _ s'(8,7,10,9) ok(3,4)]) simp
  have owns': "owns s' psc q" using own owns_cong [of s' psc s] sc(1) s'(4) by simp
  have "client_ok s' (psc, q)"
    using cl sc c s' owns' by (simp add: client_ok_def close_packet_def)
  then have srv: "serving api ps (s', cs)" by (rule serving_turn [OF assms(3-5) fr s'(2)])
  have "client_of s' psc = client_of s psc" using sc s'(4) by (simp add: client_of_def)
  then have "service_of (s', cs) = service_of (s, cs)"
    using service_of_turn [OF assms(3-5) fr] s'(11) assms(4,5) by (simp add: service_of_def io_counts_def list_update_same_conv)
  moreover have "number psc cs = Some i" using number_nth [OF ok(2) assms(4)] assms(5) sc(3) by simp
  then have "noticed cs s s' = replicate (length ms) (Some i, Some ?d, int (length ?d))" using s'(5) by (simp add: noticed_def)
  ultimately show ?thesis using run srv by blast
qed

text \<open>
  A connection is given up: by a receive without data or by a receive that failed. Both post a close
  packet from a state \<open>u\<close> in which only the timer and the counters of errors may have moved.
\<close>

lemma close_posted:
  assumes "srw_laws api" and "serving api ps (s, cs)" and "i < length cs" and "cs ! i = (psc, q)" and "q \<in> set (pending s)"
    and "io_ok api u" and "scs u = (scs s)(psc \<mapsto> sc)" and "\<not> closeFlag sc" and "ics u = ics s" and "pending u = removeAll q (pending s)"
    and "socketContextMap u = socketContextMap s" and "port_queue u = port_queue s" and "io_lock u = io_lock s"
    and "next_obj u = next_obj s" and "calls u = calls s"
  shows "\<exists>s'. postCloseConnection api psc u = Inr ((), s') \<and> serving api ps (s', cs) \<and> noticed cs s s' = [] \<and>
     service_of (s', cs) = \<lparr>clients = (clients (service_of (s, cs)))[i := Leaving],
       opened = connectNum u, ended = normallyClosedNum u, failed = errorNum u\<rparr>"
proof -
  have ok: "io_ok api s" "idle api (io_lock s)" "distinct (map (\<lambda>e. fst (snd e)) (port_queue s))"
    "\<forall>e \<in> set (port_queue s). fst (snd e) < next_obj s" using assms(2) by (simp_all add: serving_def)
  from connected_client [OF assms(2-5)] have
    sc: "map_of (socketContextMap s) psc \<noteq> None" "close_packet psc s = None" and cl: "client_ok s (psc, q)" by metis+
  have u: "idle api (io_lock u)" "scs u psc = Some sc" "map_of (socketContextMap u) psc \<noteq> None"
    using ok(2) sc(1) assms(7,11,13) by simp_all
  from srw_laws.postClose_first [OF assms(1,6) u assms(8)] obtain s' sc' where s': "postCloseConnection api psc u = Inr ((), s')"
    "io_lock s' = io_lock s" "io_ok api s'" "port_queue s' = port_queue s @ [(1, psc, next_obj s)]" "closeFlag sc'"
    "socketContextMap s' = socketContextMap s" "closing u s' psc sc'" using assms(11-14) by auto
  then obtain jc k where f: "scs s' = (scs s)(psc \<mapsto> sc')" "ics s' = (ics s)(next_obj s \<mapsto> jc)" "ic_operation jc = SIG_CLOSE_CONNECTION"
    "map_of (IOCPContextMap sc') k = Some (next_obj s)" "pending s' = removeAll q (pending s)" "next_obj s' = Suc (next_obj s)"
    "calls s' = calls s" "io_counts s' = io_counts u" using assms(7,9,10,14,15) by (auto simp: closing_def)
  have io: "ics s (next_obj s) = None"
    using ics_okD(2) [of s "next_obj s"] ok(1) by (cases "ics s (next_obj s)") (auto simp: io_ok_def)
  have nq: "fst (snd e) \<noteq> psc" if "e \<in> set (port_queue s)" for e using sc(2) that by (cases e) (auto simp: close_packet_def find_None_iff)
  have cp: "close_packet a s' = (if a = psc then Some (1, psc, next_obj s) else close_packet a s)" for a
    using sc(2) by (auto simp: close_packet_def s'(4) find_append split: option.split)
  have fr: "turn_frame psc q s s'"
  proof -
    have "r \<noteq> next_obj s" if "owns s a r" for a r using owned_live [OF ok(1) that] io by metis
    moreover have "psc < next_obj s" using cl by (simp add: client_ok_def)
    ultimately show ?thesis using f s'(2,4,6) cp ok(3,4) by (auto simp: turn_frame_def less_Suc_eq dest: nq)
  qed
  have "owns s' psc (next_obj s)" using f(1,4) by (auto simp: owns_def)
  then have "client_ok s' (psc, q)"
    using cl sc(1) f s'(5,6) cp by (simp add: client_ok_def)
  then have srv: "serving api ps (s', cs)" by (rule serving_turn [OF assms(2-4) fr s'(3)])
  have "client_of s' psc = Leaving" using f(1) s'(5) by (simp add: client_of_def)
  then have "service_of (s', cs) = \<lparr>clients = (clients (service_of (s, cs)))[i := Leaving],
       opened = connectNum u, ended = normallyClosedNum u, failed = errorNum u\<rparr>"
    using service_of_turn [OF assms(2-4) fr] f(8) by (simp add: io_counts_def)
  moreover have "noticed cs s s' = []" using f(7) by (simp add: noticed_def)
  ultimately show ?thesis using s'(1) srv by blast
qed

lemma leave_served:
  assumes "srw_laws api" and "os_accepts os" and "serving api ps (s, cs)" and "i < length cs" and "cs ! i = (psc, q)"
    and "q \<in> set (pending s)"
  shows "\<exists>s'. io_turn api os psc q [] s = Inr s' \<and> serving api ps (s', cs) \<and> noticed cs s s' = [] \<and>
     service_of (s', cs) = (service_of (s, cs))\<lparr>clients := (clients (service_of (s, cs)))[i := Leaving]\<rparr>"
proof -
  have ok: "io_ok api s" "ics_ok s" using assms(3) by (simp_all add: serving_def io_ok_def)
  from connected_client [OF assms(3-6)] obtain sc c where
    sc: "scs s psc = Some sc" "\<not> closeFlag sc" "psc \<noteq> 0" and c: "ics s q = Some c" "ic_operation c = SIG_RECV" by metis
  let ?u = "armed os psc sc q s"
  have "\<not> closeFlag (sc\<lparr>sc_timer := the (QueryPerformanceCounter os (tick s))\<rparr>)" using sc(2) by simp
  from close_posted [OF assms(1,3-6) armed_ok [OF ok(1) sc(1)] armed_fields(4) this armed_fields(2,5,10,9,3,6,7)]
  obtain s' where s': "postCloseConnection api psc ?u = Inr ((), s')" "serving api ps (s', cs)" "noticed cs s s' = []"
    "service_of (s', cs) = \<lparr>clients = (clients (service_of (s, cs)))[i := Leaving],
       opened = connectNum ?u, ended = normallyClosedNum ?u, failed = errorNum ?u\<rparr>" by blast
  have "io_turn api os psc q [] s = Inr s'"
    by (rule leave_turn [OF sc(1,3) assms(2) ok(2) c(1) _ sc(2) s'(1)]) (simp add: c(2))
  moreover have "io_counts ?u = io_counts s" by simp
  ultimately show ?thesis using s'(2-4) by (simp add: service_of_def io_counts_def)
qed

lemma reset_served:
  assumes "srw_laws api" and "serving api ps (s, cs)" and "i < length cs" and "cs ! i = (psc, q)" and "q \<in> set (pending s)"
  shows "\<exists>s'. error_turn api os psc q s = Inr s' \<and> serving api ps (s', cs) \<and> noticed cs s s' = [] \<and>
     service_of (s', cs) =
       (service_of (s, cs))\<lparr>clients := (clients (service_of (s, cs)))[i := Leaving], failed := failed (service_of (s, cs)) + 1\<rparr>"
proof -
  have ok: "io_ok api s" "ics_ok s" using assms(2) by (simp_all add: serving_def io_ok_def)
  from connected_client [OF assms(2-5)] obtain sc c where
    sc: "scs s psc = Some sc" "\<not> closeFlag sc" "psc \<noteq> 0" and c: "ics s q = Some c" "ic_operation c = SIG_RECV" by metis
  let ?u = "failed_io q s"
  have u: "io_ok api ?u" "scs ?u = (scs s)(psc \<mapsto> sc)" using ok(1) sc(1) by (simp_all add: map_upd_triv)
  from close_posted [OF assms(1-5) u sc(2) failed_io_fields(2,5,10,9,3,6,7)]
  obtain s' where s': "postCloseConnection api psc ?u = Inr ((), s')" "serving api ps (s', cs)" "noticed cs s s' = []"
    "service_of (s', cs) = \<lparr>clients = (clients (service_of (s, cs)))[i := Leaving],
       opened = connectNum ?u, ended = normallyClosedNum ?u, failed = errorNum ?u\<rparr>" by blast
  have "error_turn api os psc q s = Inr s'" by (rule reset_turn [OF sc(3) ok(2) c s'(1)])
  then show ?thesis using s'(2-4) by (simp add: service_of_def failed_io_def)
qed

lemma sweep_served:
  assumes "srw_laws api" and "os_accepts os" and "serving api ps (s, cs)" and "i < length cs" and "cs ! i = (psc, q)"
    and "close_packet psc s = Some e"
  shows "\<exists>s'. port_turn api os e s = Inr s' \<and> serving api ps (s', cs) \<and> noticed cs s s' = [] \<and>
     service_of (s', cs) = (service_of (s, cs))\<lparr>clients := (clients (service_of (s, cs)))[i := Gone], ended := ended (service_of (s, cs)) + 1\<rparr>"
proof -
  have ok: "io_ok api s" "idle api (io_lock s)" "distinct (map (\<lambda>e. fst (snd e)) (port_queue s))"
    "\<forall>e \<in> set (port_queue s). fst (snd e) < next_obj s" using assms(3) by (simp_all add: serving_def)
  have cl: "client_ok s (psc, q)" using assms(3-5) nth_mem [of i cs] by (auto simp: serving_def)
  then obtain sc r c where sc: "scs s psc = Some sc" "closeFlag sc" "psc \<noteq> LISTEN" "map_of (socketContextMap s) psc \<noteq> None" and
    r: "e = (1, psc, r)" "owns s psc r" "ics s r = Some c" "ic_operation c = SIG_CLOSE_CONNECTION" and q: "q \<notin> set (pending s)"
    using assms(6) by (auto simp: client_ok_def split: option.splits if_splits)
  have nz: "psc \<noteq> 0" "ics_ok s" using scs_okD(1) [OF _ sc(1)] ok(1) by (auto simp: io_ok_def)
  let ?u = "taken os (1, psc, r) sc s" and ?sc = "sc\<lparr>sc_timer := the (QueryPerformanceCounter os (tick s))\<rparr>"
  have u: "io_ok api ?u" "idle api (io_lock ?u)" "scs ?u psc = Some ?sc" "map_of (socketContextMap ?u) psc \<noteq> None"
    using taken_ok [OF ok(1), of "(1, psc, r)" sc os] ok(2) sc(1,4) by simp_all
  from srw_laws.doClose_first [OF assms(1) u] obtain s1 where s1: "doCloseConnection api psc ?u = Inr ((), s1)" "io_ok api s1"
    "io_lock s1 = io_lock s" "scs s1 = (scs s)(psc := None)" "ics s1 = ics s |` (- (snd ` set (IOCPContextMap sc)))"
    "socketContextMap s1 = smap_erase psc (socketContextMap s)" "pending s1 = pending s" "port_queue s1 = remove1 e (port_queue s)"
    "next_obj s1 = next_obj s" "calls s1 = calls s" "io_counts s1 = io_counts s" using r(1) by auto
  define s' where "s' = s1\<lparr>normallyClosedNum := normallyClosedNum s1 + 1\<rparr>"
  have f: "io_lock s' = io_lock s" "scs s' = (scs s)(psc := None)" "ics s' = ics s |` (- (snd ` set (IOCPContextMap sc)))"
    "socketContextMap s' = smap_erase psc (socketContextMap s)" "pending s' = pending s" "port_queue s' = remove1 e (port_queue s)"
    "next_obj s' = next_obj s" "calls s' = calls s" "connectNum s' = connectNum s" "normallyClosedNum s' = normallyClosedNum s + 1"
    "errorNum s' = errorNum s"
    using s1 by (simp_all add: s'_def io_counts_def)
  have ok': "io_ok api s'" using s1(2) io_ok_cong [of s' s1] by (simp add: s'_def)
  have run: "port_turn api os e s = Inr s'"
    unfolding r(1) s'_def by (rule close_turn [OF sc(1) nz(1) assms(2) nz(2) r(3,4) _ s1(1)]) simp
  have cp: "close_packet a s' = (if a = psc then None else close_packet a s)" for a
  proof (cases "a = psc")
    case True
    then show ?thesis
      using find_remove1_only [of "\<lambda>e. fst (snd e)" psc "port_queue s" e] assms(6) ok(3) f(6) by (simp add: close_packet_def)
  next
    case False
    then show ?thesis using find_remove1_other [of "\<lambda>e. fst (snd e) = a" e] r(1) f(6) by (simp add: close_packet_def)
  qed
  have fr: "turn_frame psc q s s'"
  proof -
    have "smap_ok (IOCPContextMap sc)" using scs_okD(4) [OF _ sc(1)] ok(1) by (auto simp: io_ok_def sc_ok_def)
    then have "owns s psc r" if "r \<in> snd ` set (IOCPContextMap sc)" for r
      using that sc(1) smap_ok_distinct by (force simp: owns_def)
    then have "r \<notin> snd ` set (IOCPContextMap sc)" if "owns s a r" "a \<noteq> psc" for a r
      using owns_unique [OF ok(1) that(1)] that(2) by blast
    moreover have "distinct (map (\<lambda>e. fst (snd e)) (remove1 e (port_queue s)))"
      using ok(3) set_remove1_subset [of e "port_queue s"] by (auto simp: distinct_map intro: inj_on_subset)
    moreover have "\<forall>x \<in> set (remove1 e (port_queue s)). fst (snd x) < next_obj s" using ok(4) notin_set_remove1 by fast
    ultimately show ?thesis using f cp by (simp add: turn_frame_def map_of_smap_erase)
  qed
  have "client_ok s' (psc, q)" using cl q f cp by (simp add: client_ok_def)
  then have srv: "serving api ps (s', cs)" by (rule serving_turn [OF assms(3-5) fr ok'])
  have "client_of s' psc = Gone" using f(2) by (simp add: client_of_def)
  then have "service_of (s', cs) = (service_of (s, cs))\<lparr>clients := (clients (service_of (s, cs)))[i := Gone], ended := ended (service_of (s, cs)) + 1\<rparr>"
    using service_of_turn [OF assms(3-5) fr] f(9-11) by (simp add: service_of_def)
  moreover have "noticed cs s s' = []" using f(8) by (simp add: noticed_def)
  ultimately show ?thesis using run srv by blast
qed

lemma arrive_served:
  assumes "srw_laws api" and "os_accepts os" and "serving api ps (s, cs)" and "p \<in> set ps" and "first_data b d"
    and "length d \<le> nat DEFAULT_BUF_SIZ" and "psc = next_obj s" and "q = Suc (next_obj s)"
  shows "\<exists>s'. io_turn api os LISTEN p d s = Inr s' \<and> serving api ps (s', cs @ [(psc, q)]) \<and>
     noticed cs s s' = (if b then [(None, Some d, int (length d))] else []) \<and>
     service_of (s', cs @ [(psc, q)]) =
       (service_of (s, cs))\<lparr>clients := clients (service_of (s, cs)) @ [Connected], opened := opened (service_of (s, cs)) + 1\<rparr>"
proof -
  have ok: "io_ok api s" "idle api (io_lock s)" "distinct (map (\<lambda>e. fst (snd e)) (port_queue s))" "\<forall>e \<in> set (port_queue s). fst (snd e) < next_obj s" and
    dc: "distinct (map fst cs)" "distinct (map snd cs)" "set ps \<inter> snd ` set cs = {}" and
    sb: "\<And>p. p \<in> set ps \<Longrightarrow> standby_ok s p" and cl: "\<And>c. c \<in> set cs \<Longrightarrow> client_ok s c"
    using assms(3) by (simp_all add: serving_def)
  obtain sc k ic where sc: "scs s LISTEN = Some sc" "map_of (IOCPContextMap sc) k = Some p" and
    ic: "ics s p = Some ic" "ic_operation ic = SIG_ACCEPT" "wsabuf_len ic = nat DEFAULT_BUF_SIZ" and pp: "p \<in> set (pending s)"
    using sb [OF assms(4)] by (auto simp: standby_ok_def owns_def)
  let ?u = "armed os LISTEN sc p s" and ?sc = "sc\<lparr>sc_timer := the (QueryPerformanceCounter os (tick s))\<rparr>"
  have u: "io_ok api ?u" "idle api (io_lock ?u)" "ics ?u p = Some ic" "length d \<le> wsabuf_len ic" "psc = next_obj ?u" "q = Suc (next_obj ?u)"
    using armed_ok [OF ok(1) sc(1)] ok(2) ic assms(6-8) by simp_all
  from accept_chunk_ok [OF assms(1) u(1-3) assms(2,5) u(4-6), of LISTEN] obtain s1 nsc c k' where
    s1: "accept_chunk api os LISTEN p d ?u = Inr (True, s1)" "io_ok api s1" "io_lock s1 = io_lock s"
    "((scs s)(LISTEN \<mapsto> ?sc)) psc = None" "ics s q = None" "pending s1 = p # q # removeAll p (pending s)"
    "scs s1 = (scs s)(LISTEN \<mapsto> ?sc, psc \<mapsto> nsc)" "IOCPContextMap nsc = [(1, q)]" "\<not> closeFlag nsc"
    "ics s1 = (ics s)(q \<mapsto> c, p \<mapsto> ic\<lparr>ic_operation := SIG_ACCEPT, ic_socket := k'\<rparr>)"
    "ic_operation c = SIG_RECV" "\<not> prevFlag c" "wsabuf_len c = nat DEFAULT_BUF_SIZ"
    "socketContextMap s1 = snd (smap_insert psc (ic_socket ic) (socketContextMap s))"
    "port_queue s1 = port_queue s" "next_obj s1 = Suc (Suc (next_obj s))" "io_counts s1 = io_counts s"
    "calls s1 = calls s @ (if b then [RecvCall (pRecvCallback s) LISTEN (Some d) (int (length d))] else [])" by auto
  define s' where "s' = s1\<lparr>connectNum := connectNum s1 + 1\<rparr>"
  have f: "io_lock s' = io_lock s" "pending s' = p # q # removeAll p (pending s)"
    "scs s' = (scs s)(LISTEN \<mapsto> ?sc, psc \<mapsto> nsc)" "ics s' = (ics s)(q \<mapsto> c, p \<mapsto> ic\<lparr>ic_operation := SIG_ACCEPT, ic_socket := k'\<rparr>)"
    "socketContextMap s' = snd (smap_insert psc (ic_socket ic) (socketContextMap s))"
    "port_queue s' = port_queue s" "next_obj s' = Suc (Suc (next_obj s))" "connectNum s' = connectNum s + 1" "normallyClosedNum s' = normallyClosedNum s"
    "errorNum s' = errorNum s" "calls s' = calls s @ (if b then [RecvCall (pRecvCallback s) LISTEN (Some d) (int (length d))] else [])"
    using s1 by (simp_all add: s'_def io_counts_def)
  have ok': "io_ok api s'" using s1(2) io_ok_cong [of s' s1] by (simp add: s'_def)
  have ne: "d \<noteq> []" using assms(5) by (simp add: first_data_def)
  have run: "io_turn api os LISTEN p d s = Inr s'"
    unfolding s'_def by (rule accept_turn [OF sc(1) assms(2) ic(1,2) ne s1(1)])
  have L: "psc \<noteq> LISTEN" "p \<noteq> q" "psc \<noteq> p" using s1(4,5) ic(1) ics_okD(2) [OF _ ic(1)] ok(1) assms(7) by (auto simp: io_ok_def)
  have mp: "map_of (socketContextMap s') psc \<noteq> None" "a \<noteq> psc \<Longrightarrow> map_of (socketContextMap s') a = map_of (socketContextMap s) a" for a
    unfolding f(5) by (simp_all add: map_of_smap_insert)
  have own: "owns s' a r = owns s a r" if "a \<noteq> psc" for a r
    by (rule owns_cong) (use that f(3) sc(1) in simp)
  have live: "r \<noteq> q" if "owns s a r" for a r using owned_live [OF ok(1) that] s1(5) by metis
  have old: "client_ok s' d" if d: "d \<in> set cs" for d
  proof -
    have "client_ok s (fst d, snd d)" "fst d \<noteq> LISTEN" "fst d < next_obj s" "snd d < next_obj s" "snd d \<noteq> p"
      using cl [OF d] dc(3) assms(4) d by (auto simp: client_ok_def)
    moreover have "r \<noteq> p" if "owns s a r" "a \<noteq> LISTEN" for a r
      using owns_unique [OF ok(1) that(1), of LISTEN] that sb [OF assms(4)] by (auto simp: standby_ok_def)
    ultimately have "client_ok s' (fst d, snd d)"
      by - (rule client_ok_frame [of s], use f mp(2) live assms(7,8) in \<open>auto simp: close_packet_def\<close>)
    then show ?thesis by simp
  qed
  have new: "client_ok s' (psc, q)"
    using L f mp(1) s1(8-13) assms(7,8) ok(4) by (fastforce simp: client_ok_def close_packet_def find_None_iff owns_def)
  have std: "standby_ok s' p'" if p': "p' \<in> set ps" for p'
  proof (cases "p' = p")
    case True
    then show ?thesis using f own [of LISTEN] L(1,2) sb [OF assms(4)] ic(3) by (simp add: standby_ok_def)
  next
    case False
    have "p' \<noteq> q" using sb [OF p'] s1(5) by (auto simp: standby_ok_def)
    then show ?thesis using sb [OF p'] False f sc(1) L(1) by (intro standby_ok_frame [OF sb [OF p']]) (simp_all add: standby_ok_def)
  qed
  have fresh: "psc \<notin> fst ` set cs" "q \<notin> snd ` set cs" "q \<notin> set ps"
    using cl sb s1(5) assms(7,8) by (force simp: client_ok_def standby_ok_def)+
  have srv: "serving api ps (s', cs @ [(psc, q)])"
    using ok' f ok(2-4) old new std dc fresh by (auto simp: serving_def less_Suc_eq)
  have "client_of s' psc = Connected" using f(3) s1(9) by (simp add: client_of_def)
  moreover have "client_of s' (fst d) = client_of s (fst d)" if "d \<in> set cs" for d
    using cl [OF that] f(3) assms(7) by (auto simp: client_of_def client_ok_def)
  ultimately have "service_of (s', cs @ [(psc, q)]) =
       (service_of (s, cs))\<lparr>clients := clients (service_of (s, cs)) @ [Connected], opened := opened (service_of (s, cs)) + 1\<rparr>"
    using f(8-10) by (simp add: service_of_def)
  moreover have "noticed cs s s' = (if b then [(None, Some d, int (length d))] else [])" using f(11) by (simp add: noticed_def number_def)
  ultimately show ?thesis using run srv by blast
qed

text \<open>
  An accept that completed without data or failed is posted again, from a state \<open>u\<close> in which only the
  timer of the listening connection and the counter of errors may have moved.
\<close>

lemma accept_reposted:
  assumes "os_accepts os" and "serving api ps (s, cs)" and "p \<in> set ps" and "scs s LISTEN = Some sc"
    and "io_ok api u" and "scs u = (scs s)(LISTEN \<mapsto> sc1)" and "IOCPContextMap sc1 = IOCPContextMap sc" and "ics u = ics s"
    and "pending u = removeAll p (pending s)" and "socketContextMap u = socketContextMap s" and "port_queue u = port_queue s"
    and "io_lock u = io_lock s" and "next_obj u = next_obj s" and "calls u = calls s"
  shows "\<exists>s'. repost_accept api os p u = Inr s' \<and> serving api ps (s', cs) \<and> noticed cs s s' = [] \<and>
     service_of (s', cs) =
       (service_of (s, cs))\<lparr>opened := connectNum u + 1, ended := normallyClosedNum u + 1, failed := errorNum u\<rparr>"
proof -
  have S: "\<And>p. p \<in> set ps \<Longrightarrow> standby_ok s p" "\<And>c. c \<in> set cs \<Longrightarrow> client_ok s c" "set ps \<inter> snd ` set cs = {}" "io_ok api s"
    using assms(2) by (simp_all add: serving_def)
  obtain ic where ic: "ics s p = Some ic" "ic_operation ic = SIG_ACCEPT" "wsabuf_len ic = nat DEFAULT_BUF_SIZ"
    and own: "owns s LISTEN p" and pp: "p \<in> set (pending s)" using S(1) [OF assms(3)] by (auto simp: standby_ok_def)
  have "ics u p = Some ic" using ic(1) assms(8) by simp
  from repost_accept_ok [OF assms(5) this assms(1)] obtain s' k where s': "repost_accept api os p u = Inr s'" "io_ok api s'"
    "ics s' = (ics s)(p \<mapsto> ic\<lparr>ic_operation := SIG_ACCEPT, ic_socket := k\<rparr>)" "pending s' = p # removeAll p (pending s)"
    "scs s' = (scs s)(LISTEN \<mapsto> sc1)" "calls s' = calls s" "socketContextMap s' = socketContextMap s" "port_queue s' = port_queue s"
    "io_lock s' = io_lock s" "next_obj s' = next_obj s" "io_counts s' = (connectNum u + 1, normallyClosedNum u + 1, errorNum u)"
    unfolding assms(6,8-14) by blast
  have m: "map_option IOCPContextMap (scs s' a) = map_option IOCPContextMap (scs s a)" for a using s'(5) assms(4,7) by simp
  have pend: "x \<in> set (pending s') \<longleftrightarrow> x \<in> set (pending s)" for x using s'(4) pp by auto
  have old: "client_ok s' d" if d: "d \<in> set cs" for d
  proof -
    have "client_ok s (fst d, snd d)" "fst d \<noteq> LISTEN" using S(2) [OF d] by (auto simp: client_ok_def)
    moreover have "r \<noteq> p" if "owns s a r" "a \<noteq> LISTEN" for a r using owns_unique [OF S(4) that(1), of LISTEN] own that by blast
    ultimately have "client_ok s' (fst d, snd d)"
      by - (rule client_ok_frame [of s], use s' pend in \<open>auto simp: close_packet_def\<close>)
    then show ?thesis by simp
  qed
  have std: "standby_ok s' p'" if p': "p' \<in> set ps" for p'
  proof (cases "p' = p")
    case True
    then show ?thesis using s'(3) pp pend ic(3) own owns_cong [OF m] by (simp add: standby_ok_def)
  next
    case False
    then show ?thesis using S(1) [OF p'] s'(3) m pend by (intro standby_ok_frame [OF S(1) [OF p']]) (auto simp: standby_ok_def)
  qed
  have srv: "serving api ps (s', cs)" using assms(2) s' old std by (simp add: serving_def)
  have "client_of s' (fst d) = client_of s (fst d)" if "d \<in> set cs" for d
    using S(2) [OF that] s'(5) by (simp add: client_of_def client_ok_def)
  then have "service_of (s', cs) =
      (service_of (s, cs))\<lparr>opened := connectNum u + 1, ended := normallyClosedNum u + 1, failed := errorNum u\<rparr>"
    using s'(11) by (simp add: service_of_def io_counts_def)
  moreover have "noticed cs s s' = []" using s'(6) by (simp add: noticed_def)
  ultimately show ?thesis using s'(1) srv by blast
qed

lemma hangup_served:
  assumes "os_accepts os" and "serving api ps (s, cs)" and "p \<in> set ps"
  shows "\<exists>s'. io_turn api os LISTEN p [] s = Inr s' \<and> serving api ps (s', cs) \<and> noticed cs s s' = [] \<and>
     service_of (s', cs) = (service_of (s, cs))\<lparr>opened := opened (service_of (s, cs)) + 1, ended := ended (service_of (s, cs)) + 1\<rparr>"
proof -
  have ok: "io_ok api s" "ics_ok s" using assms(2) by (simp_all add: serving_def io_ok_def)
  obtain sc ic where sc: "scs s LISTEN = Some sc" and ic: "ics s p = Some ic" "ic_operation ic = SIG_ACCEPT"
    using assms(2,3) by (auto simp: serving_def standby_ok_def owns_def)
  let ?u = "armed os LISTEN sc p s"
  have "IOCPContextMap (sc\<lparr>sc_timer := the (QueryPerformanceCounter os (tick s))\<rparr>) = IOCPContextMap sc" by simp
  from accept_reposted [OF assms sc armed_ok [OF ok(1) sc] armed_fields(4) this armed_fields(2,5,10,9,3,6,7)]
  obtain s' where s': "repost_accept api os p ?u = Inr s'" "serving api ps (s', cs)" "noticed cs s s' = []"
    "service_of (s', cs) =
       (service_of (s, cs))\<lparr>opened := connectNum ?u + 1, ended := normallyClosedNum ?u + 1, failed := errorNum ?u\<rparr>" by blast
  have "io_turn api os LISTEN p [] s = Inr s'" by (rule hangup_turn [OF sc assms(1) ok(2) ic s'(1)])
  moreover have "io_counts ?u = io_counts s" by simp
  ultimately show ?thesis using s'(2-4) by (simp add: service_of_def io_counts_def)
qed

lemma refuse_served:
  assumes "os_accepts os" and "serving api ps (s, cs)" and "p \<in> set ps"
  shows "\<exists>s'. error_turn api os LISTEN p s = Inr s' \<and> serving api ps (s', cs) \<and> noticed cs s s' = [] \<and>
     service_of (s', cs) = (service_of (s, cs))\<lparr>opened := opened (service_of (s, cs)) + 1, ended := ended (service_of (s, cs)) + 1,
       failed := failed (service_of (s, cs)) + 1\<rparr>"
proof -
  have ok: "io_ok api s" "ics_ok s" using assms(2) by (simp_all add: serving_def io_ok_def)
  obtain sc ic where sc: "scs s LISTEN = Some sc" and ic: "ics s p = Some ic" "ic_operation ic = SIG_ACCEPT"
    using assms(2,3) by (auto simp: serving_def standby_ok_def owns_def)
  let ?u = "failed_io p s"
  have u: "io_ok api ?u" "scs ?u = (scs s)(LISTEN \<mapsto> sc)" using ok(1) sc by (simp_all add: map_upd_triv)
  from accept_reposted [OF assms sc u refl failed_io_fields(2,5,10,9,3,6,7)]
  obtain s' where s': "repost_accept api os p ?u = Inr s'" "serving api ps (s', cs)" "noticed cs s s' = []"
    "service_of (s', cs) =
       (service_of (s, cs))\<lparr>opened := connectNum ?u + 1, ended := normallyClosedNum ?u + 1, failed := errorNum ?u\<rparr>" by blast
  have "error_turn api os LISTEN p s = Inr s'" by (rule refuse_turn [OF ok(2) ic s'(1)])
  then show ?thesis using s'(2-4) by (simp add: service_of_def failed_io_def)
qed

section \<open>The service as a refinement\<close>

lemma serve_step:
  assumes "srw_laws api" and "os_accepts os" and "serving api ps c" and "orderly (length ps) x"
  shows "\<exists>r c'. serve api os ps x c = Inr (r, c') \<and> serving api ps c' \<and> service_step x (service_of c) = (r, service_of c')"
proof -
  obtain s cs where c: "c = (s, cs)" by (cases c)
  note S = assms(1,2) assms(3) [unfolded c]
  have at: "cs ! i = (fst (cs ! i), snd (cs ! i))" for i by simp
  have cl: "client_ok s (fst (cs ! i), snd (cs ! i))" if "i < length cs" for i using S(3) that by (simp add: serving_def)
  have con: "is_client Connected i (service_of (s, cs)) \<longleftrightarrow> i < length cs \<and> snd (cs ! i) \<in> set (pending s)" for i
    using client_of_connected [OF cl] by (auto simp: is_client_def service_of_def)
  have lea: "is_client Leaving i (service_of (s, cs)) \<longleftrightarrow> i < length cs \<and> close_packet (fst (cs ! i)) s \<noteq> None" for i
    using client_of_leaving [OF cl] by (auto simp: is_client_def service_of_def)
  show ?thesis
  proof (cases x)
    case (Arrive k m)
    then have k: "ps ! k \<in> set ps" "first_data True (pkt_text m)" "length (pkt_text m) \<le> nat DEFAULT_BUF_SIZ"
      using assms(4) first_data_packet by simp_all
    from arrive_served [OF S this refl refl] show ?thesis unfolding c Arrive by auto
  next
    case (Knock k d)
    then have k: "ps ! k \<in> set ps" "first_data False d" "length d \<le> nat DEFAULT_BUF_SIZ" using assms(4) by (simp_all add: first_data_def)
    from arrive_served [OF S this refl refl] show ?thesis unfolding c Knock by auto
  next
    case (Chunk i ms t)
    show ?thesis
    proof (cases "i < length cs \<and> snd (cs ! i) \<in> set (pending s)")
      case True
      then have e: "i < length cs" "snd (cs ! i) \<in> set (pending s)" by simp_all
      have "ms \<noteq> [] \<or> t \<noteq> []" "list_all pkt_ok ms" "junk t" "length (chunk_text ms @ t) \<le> nat DEFAULT_BUF_SIZ"
        using assms(4) unfolding Chunk by simp_all
      from chunk_served [OF S e(1) at e(2) this] obtain s' where s': "io_turn api os (fst (cs ! i)) (snd (cs ! i)) (chunk_text ms @ t) s = Inr s'"
        "serving api ps (s', cs)" "service_of (s', cs) = service_of (s, cs)"
        "noticed cs s s' = replicate (length ms) (Some i, Some (chunk_text ms @ t), int (length (chunk_text ms @ t)))" by blast
      have "is_client Connected i (service_of (s, cs))" using con e by simp
      then have "service_step x (service_of (s, cs)) = (noticed cs s s', service_of (s', cs))" unfolding Chunk s'(3,4) by simp
      moreover have "serve api os ps x (s, cs) = Inr (noticed cs s s', s', cs)" using e s'(1) by (simp add: Chunk)
      ultimately show ?thesis unfolding c using s'(2) by blast
    qed (use S(3) con [of i] in \<open>auto simp: c Chunk\<close>)
  next
    case (Leave i)
    show ?thesis
    proof (cases "i < length cs \<and> snd (cs ! i) \<in> set (pending s)")
      case True
      then have e: "i < length cs" "snd (cs ! i) \<in> set (pending s)" by simp_all
      from leave_served [OF S e(1) at e(2)] obtain s' where s': "io_turn api os (fst (cs ! i)) (snd (cs ! i)) [] s = Inr s'"
        "serving api ps (s', cs)" "noticed cs s s' = []"
        "service_of (s', cs) = (service_of (s, cs))\<lparr>clients := (clients (service_of (s, cs)))[i := Leaving]\<rparr>" by blast
      have "is_client Connected i (service_of (s, cs))" using con e by simp
      then have "service_step x (service_of (s, cs)) = ([], service_of (s', cs))" unfolding Leave s'(4) by simp
      moreover have "serve api os ps x (s, cs) = Inr ([], s', cs)" using e s'(1,3) by (simp add: Leave)
      ultimately show ?thesis unfolding c using s'(2) by blast
    qed (use S(3) con [of i] in \<open>auto simp: c Leave\<close>)
  next
    case (Sweep i)
    show ?thesis
    proof (cases "i < length cs \<and> close_packet (fst (cs ! i)) s \<noteq> None")
      case True
      then obtain e where "close_packet (fst (cs ! i)) s = Some e" "i < length cs" by auto
      note e = this
      from sweep_served [OF S e(2) at e(1)] obtain s' where s': "port_turn api os e s = Inr s'" "serving api ps (s', cs)" "noticed cs s s' = []"
        "service_of (s', cs) = (service_of (s, cs))\<lparr>clients := (clients (service_of (s, cs)))[i := Gone], ended := ended (service_of (s, cs)) + 1\<rparr>"
        by blast
      have "is_client Leaving i (service_of (s, cs))" unfolding lea using e by (cases e) simp
      then have "service_step x (service_of (s, cs)) = ([], service_of (s', cs))" unfolding Sweep s'(4) by simp
      moreover have "serve api os ps x (s, cs) = Inr ([], s', cs)" using e s'(1,3) by (simp add: Sweep)
      ultimately show ?thesis unfolding c using s'(2) by blast
    next
      case False
      then have "\<not> is_client Leaving i (service_of (s, cs))" using lea by simp
      then have "service_step x (service_of c) = ([], service_of c)" unfolding Sweep c by simp
      moreover have "(if i < length cs then close_packet (fst (cs ! i)) s else None) = None" using False by (auto simp del: not_None_eq)
      then have "serve api os ps x c = Inr ([], c)" unfolding Sweep c serve.simps by (simp only: option.case)
      ultimately show ?thesis using assms(3) by blast
    qed
  next
    case (Reset i)
    show ?thesis
    proof (cases "i < length cs \<and> snd (cs ! i) \<in> set (pending s)")
      case True
      then have e: "i < length cs" "snd (cs ! i) \<in> set (pending s)" by simp_all
      from reset_served [OF S(1,3) e(1) at e(2)] obtain s' where s': "error_turn api os (fst (cs ! i)) (snd (cs ! i)) s = Inr s'"
        "serving api ps (s', cs)" "noticed cs s s' = []"
        "service_of (s', cs) =
           (service_of (s, cs))\<lparr>clients := (clients (service_of (s, cs)))[i := Leaving], failed := failed (service_of (s, cs)) + 1\<rparr>" by blast
      have "is_client Connected i (service_of (s, cs))" using con e by simp
      then have "service_step x (service_of (s, cs)) = ([], service_of (s', cs))" unfolding Reset s'(4) by simp
      moreover have "serve api os ps x (s, cs) = Inr ([], s', cs)" using e s'(1,3) by (simp add: Reset)
      ultimately show ?thesis unfolding c using s'(2) by blast
    qed (use S(3) con [of i] in \<open>auto simp: c Reset\<close>)
  next
    case (Hangup k)
    then have "ps ! k \<in> set ps" using assms(4) by simp
    from hangup_served [OF S(2,3) this] show ?thesis unfolding c Hangup by auto
  next
    case (Refuse k)
    then have "ps ! k \<in> set ps" using assms(4) by simp
    from refuse_served [OF S(2,3) this] show ?thesis unfolding c Refuse by auto
  qed
qed

locale accepting_server = srw_laws api for api :: "'l srw_api" +
  fixes os :: os
  assumes os_ok: "os_accepts os"

sublocale accepting_server \<subseteq> io_service:
  refinement "serving api ps" service_of "serve api os ps" service_step "\<lambda>_. orderly (length ps)" "\<lambda>_ x. x" for ps
proof unfold_locales
  fix c :: "'l IOCPModule \<times> conns" and x
  assume "serving api ps c" "orderly (length ps) x"
  from serve_step [OF srw_laws_axioms os_ok this]
  show "\<exists>r c'. serve api os ps x c = Inr (r, c') \<and> serving api ps c' \<and> service_step x (service_of c) = (r, service_of c') \<and>
      (\<forall>y. orderly (length ps) y \<longrightarrow> orderly (length ps) y \<and> y = y)" by blast
qed

context accepting_server
begin

lemmas service_run_refines = io_service.run_refines

end

lemma serve_run:
  assumes "srw_laws api" and "os_accepts os" and "serving api ps c" and "\<forall>x \<in> set xs. orderly (length ps) x"
  shows "\<exists>rs c'. runR (serve api os ps) xs c = Inr (rs, c') \<and> serving api ps c' \<and>
     run_spec service_step xs (service_of c) = (rs, service_of c')"
proof -
  have "accepting_server api os" by (rule accepting_server.intro [OF assms(1)]) (simp add: accepting_server_axioms_def assms(2))
  from accepting_server.service_run_refines [OF this assms(3,4)] show ?thesis by auto
qed

interpretation idle_server: accepting_server srw_ref idle_os
  by unfold_locales (simp add: os_accepts_def idle_os_def)

section \<open>Properties\<close>

text \<open>
  C6. The module serves its clients: from a module with posted accepts, any sequence of clients that
  connect with a packet or other bytes, send chunks of whole packets with other bytes behind them and
  leave, of receives and accepts that fail or bring nothing, and of workers that take close packets, in
  any order, runs without a fault and keeps the module well-formed. It refines a service that knows of each
  client only whether it is connected: every packet is delivered once and under the number of its client
  (the first one under none: it names the listening connection), a client that left or was reset gets
  nothing more and is deleted once, an accept that failed is posted again and serves the next client, and
  the counters of the module count the clients that came and were deleted, and the errors.
\<close>

theorem service_refines:
  assumes "srw_laws api" and "os_accepts os" and "serving api ps c" and "\<forall>x \<in> set xs. orderly (length ps) x"
  shows "\<exists>rs c'. runR (serve api os ps) xs c = Inr (rs, c') \<and> serving api ps c' \<and>
     run_spec service_step xs (service_of c) = (rs, service_of c')"
  by (rule serve_run [OF assms])

text \<open>A module that listens with one posted accept.\<close>

definition example_listener :: "srw_state IOCPModule" where
  "example_listener = (put_ic 2 ((fresh_ic 8192 1)\<lparr>contextIndex := 0, ic_operation := SIG_ACCEPT\<rparr>) example_module)\<lparr>pending := [2]\<rparr>"

lemma example_listener_serving: "serving srw_ref [2] (example_listener, [])"
proof -
  have "io_ok srw_ref example_listener"
    unfolding example_listener_def using example_module_ok by (auto intro!: IOCP_put_keeps)
  then show ?thesis
    using example_module_ok
    by (auto simp: serving_def example_listener_def standby_ok_def owns_def put_ic_def idle_def SRWLock_init_def fresh_ic_def DEFAULT_BUF_SIZ_def)
qed

lemma service_refines_witness:
  "\<exists>s cs. runR (serve srw_ref idle_os [2])
       [Arrive 0 example_message, Knock 0 ''hello'', Chunk 0 [example_message, example_message] ''more'', Leave 0, Chunk 0 [example_message] [], Sweep 0, Refuse 0, Hangup 0, Reset 1]
       (example_listener, []) =
     Inr ([[(None, Some (pkt_text example_message), 120)], [],
           replicate 2 (Some 0, Some (pkt_text example_message @ pkt_text example_message @ ''more''), 244), [], [], [], [], [], []], s, cs) \<and>
     map (\<lambda>c. client_of s (fst c)) cs = [Gone, Leaving] \<and> normallyClosedNum s = normallyClosedNum example_listener + 3 \<and>
     errorNum s = errorNum example_listener + 2"
proof -
  let ?xs = "[Arrive 0 example_message, Knock 0 ''hello'', Chunk 0 [example_message, example_message] ''more'', Leave 0, Chunk 0 [example_message] [], Sweep 0, Refuse 0, Hangup 0, Reset 1]"
  have "os_accepts idle_os" by (simp add: os_accepts_def idle_os_def)
  moreover have "\<forall>x \<in> set ?xs. orderly (length [2 :: addr]) x"
    using example_message_ok junk_short by (simp add: DEFAULT_BUF_SIZ_def chunk_text_def)
  ultimately obtain rs s cs where r: "runR (serve srw_ref idle_os [2]) ?xs (example_listener, []) = Inr (rs, s, cs)"
    "run_spec service_step ?xs (service_of (example_listener, [])) = (rs, service_of (s, cs))"
    using service_refines [OF srw_ref.srw_laws_axioms _ example_listener_serving] by fast
  have "rs = [[(None, Some (pkt_text example_message), 120)], [],
           replicate 2 (Some 0, Some (pkt_text example_message @ pkt_text example_message @ ''more''), 244), [], [], [], [], [], []]"
    "clients (service_of (s, cs)) = [Gone, Leaving]" "ended (service_of (s, cs)) = normallyClosedNum example_listener + 3"
    "failed (service_of (s, cs)) = errorNum example_listener + 2"
    using r(2) example_message_ok by (auto simp: service_of_def is_client_def chunk_text_def numeral_2_eq_2)
  with r(1) show ?thesis by (simp add: service_of_def)
qed

end
