(* ===== verification/Log_Module.thy ===== *)
theory Log_Module
  imports Locks
begin

text \<open>
  The class \<^verbatim>\<open>svrutil::LogModule\<close>: log lines are formatted into one buffer, collected in a
  second one and written to a file when that is full. Its two buffers live on the heap, the file
  is the sequence of cells handed to the stream together with how much of it was flushed.
  \<^verbatim>\<open>vprintf\<close> formatting is a parameter \<open>vformat\<close> of the write operations, the arguments
  behind the dots being of any type.
\<close>

section \<open>State and methods\<close>

record stream =
  written :: "cell list"
  synced :: nat

record 'c LogModule =
  lg_buffer :: addr
  lg_tempBuffer :: addr
  lg_index :: nat
  lg_limit :: nat
  lg_filePath :: string
  lg_pFile :: stream
  lg_lock :: 'c

type_synonym 'c logst = "heap \<times> 'c LogModule"

definition LOG_MODULE_ERROR :: int where
  "LOG_MODULE_ERROR = 501"

definition fwrite :: "cell list \<Rightarrow> stream \<Rightarrow> stream" where
  "fwrite cs f = f\<lparr>written := written f @ cs\<rparr>"

definition fflush :: "stream \<Rightarrow> stream" where
  "fflush f = f\<lparr>synced := length (written f)\<rparr>"

definition log_cs :: "'c logst \<Rightarrow> 'c" where
  "log_cs st = lg_lock (snd st)"

definition set_log_cs :: "'c \<Rightarrow> 'c logst \<Rightarrow> 'c logst" where
  "set_log_cs l st = (fst st, (snd st)\<lparr>lg_lock := l\<rparr>)"

text \<open>
  \<open>opened\<close> is what \<^verbatim>\<open>fopen_s\<close> gives for the path and mode: nothing, or the stream with the
  contents the file has; \<open>console\<close> is the standard output.
\<close>

definition LogModule_create ::
  "'c cs_api \<Rightarrow> string \<Rightarrow> stream option \<Rightarrow> stream \<Rightarrow> int \<Rightarrow> heap \<Rightarrow> 'c logst res" where
  "LogModule_create api file opened console bufSize h =
     (if bufSize < 0 then Inl (ExitProcess LOG_MODULE_ERROR)
      else
        bindR
          (if file = ''console'' then Inr (console, 0, 0, h)
           else case opened of
               None \<Rightarrow> Inl (ExitProcess LOG_MODULE_ERROR)
             | Some f \<Rightarrow>
                 let (buf, h1) = new_array (nat bufSize) h; (tmp, h2) = new_array (nat bufSize) h1
                 in Inr (f, buf, tmp, h2))
          (\<lambda>(pFile, buf, tmp, h').
            case InitializeCriticalSectionAndSpinCount api 0x1000 of
              None \<Rightarrow> Inl (ExitProcess LOG_MODULE_ERROR)
            | Some l \<Rightarrow>
                Inr (h', \<lparr>lg_buffer = buf, lg_tempBuffer = tmp, lg_index = 0, lg_limit = nat bufSize,
                  lg_filePath = file, lg_pFile = pFile, lg_lock = l\<rparr>)))"

definition flush :: "'c cs_api \<Rightarrow> 'c logst \<Rightarrow> (unit \<times> 'c logst) res" where
  "flush api st =
     (if lg_filePath (snd st) \<noteq> ''console'' \<and> 0 < lg_index (snd st) then
        locked api log_cs set_log_cs (\<lambda>(h, g).
          bindR (read_cells (lg_buffer g) 0 (lg_index g) h) (\<lambda>cs.
            Inr ((), h, g\<lparr>lg_pFile := fflush (fwrite cs (lg_pFile g)), lg_index := 0\<rparr>))) st
      else Inr ((), st))"

text \<open>
  The common part of \<^verbatim>\<open>write\<close> and \<^verbatim>\<open>print\<close> behind the format string. \<^verbatim>\<open>vsprintf_s\<close> answers
  -1 and leaves an empty string when the text and its terminator do not fit; \<^verbatim>\<open>memcpy_s\<close>
  refuses more than there is room for.
\<close>

definition vsprintf_s :: "addr \<Rightarrow> nat \<Rightarrow> string \<Rightarrow> heap \<Rightarrow> (int \<times> heap) res" where
  "vsprintf_s p sz out h =
     (if length out < sz
      then bindR (write_cells p 0 (map Some (out @ [CHR 0x00])) h) (\<lambda>h'. Inr (int (length out), h'))
      else bindR (write_cells p 0 [Some (CHR 0x00)] h) (\<lambda>h'. Inr (-1, h')))"

definition put_buffered :: "string \<Rightarrow> 'c logst \<Rightarrow> (int \<times> 'c logst) res" where
  "put_buffered out =
     (\<lambda>(h, g).
       bindR (vsprintf_s (lg_tempBuffer g) (lg_limit g) out h) (\<lambda>(num, h).
       if num = -1 then Inr (-1, h, g)
       else if lg_index g + nat num \<ge> lg_limit g then
         bindR (read_cells (lg_buffer g) 0 (lg_index g) h) (\<lambda>cs.
         bindR (read_cells (lg_tempBuffer g) 0 (nat num) h) (\<lambda>ts.
         Inr (num, h, g\<lparr>lg_index := 0, lg_pFile := fflush (fwrite ts (fwrite cs (lg_pFile g)))\<rparr>)))
       else if nat num \<le> lg_limit g - lg_index g then
         bindR (memcpy (lg_buffer g) (lg_index g) (lg_tempBuffer g) 0 (nat num) h) (\<lambda>h'.
         Inr (num, h', g\<lparr>lg_index := lg_index g + nat num\<rparr>))
       else Inr (-1, h, g)))"

definition put_text :: "'c cs_api \<Rightarrow> string \<Rightarrow> string \<Rightarrow> 'c logst \<Rightarrow> (int \<times> 'c logst) res" where
  "put_text api format out st =
     (if lg_filePath (snd st) = ''console'' then
        Inr (int (length out), fst st, (snd st)\<lparr>lg_pFile := fwrite (map Some out) (lg_pFile (snd st))\<rparr>)
      else if length format \<ge> lg_limit (snd st) then
        bindR (flush api st) (\<lambda>(_, h, g).
          Inr (int (length out), h, g\<lparr>lg_pFile := fwrite (map Some out) (lg_pFile g)\<rparr>))
      else locked api log_cs set_log_cs (put_buffered out) st)"

text \<open>The fields of \<^verbatim>\<open>SYSTEMTIME\<close> that are printed, and the stamp in front of a line.\<close>

record SYSTEMTIME =
  wYear :: nat
  wMonth :: nat
  wDay :: nat
  wHour :: nat
  wMinute :: nat
  wSecond :: nat
  wMilliseconds :: nat

definition log_stamp :: "SYSTEMTIME \<Rightarrow> string" where
  "log_stamp t =
     ''['' @ print_padded 4 (wYear t) @ ''/'' @ print_padded 2 (wMonth t) @ ''/'' @ print_padded 2 (wDay t) @ '' '' @
     print_padded 2 (wHour t) @ '':'' @ print_padded 2 (wMinute t) @ '':'' @ print_padded 2 (wSecond t) @ '':'' @
     print_padded 3 (wMilliseconds t) @ '']: ''"

definition lg_write ::
  "'c cs_api \<Rightarrow> (string \<Rightarrow> 'v \<Rightarrow> string) \<Rightarrow> SYSTEMTIME \<Rightarrow> string \<Rightarrow> 'v \<Rightarrow> 'c logst \<Rightarrow> (int \<times> 'c logst) res" where
  "lg_write api vformat systemTime str vl =
     (let format = log_stamp systemTime @ str @ [CHR 0x0A] in put_text api format (vformat format vl))"

definition lg_print ::
  "'c cs_api \<Rightarrow> (string \<Rightarrow> 'v \<Rightarrow> string) \<Rightarrow> string \<Rightarrow> 'v \<Rightarrow> 'c logst \<Rightarrow> (int \<times> 'c logst) res" where
  "lg_print api vformat str vl =
     (let format = str @ [CHR 0x0A] in put_text api format (vformat format vl))"

text \<open>The destructor gives back the stream, closed, and the heap.\<close>

definition LogModule_destroy :: "'c cs_api \<Rightarrow> 'c logst \<Rightarrow> (stream \<times> heap) res" where
  "LogModule_destroy api st =
     bindR (flush api st) (\<lambda>(_, h, g).
       if lg_filePath g \<noteq> ''console''
       then bindR (delete_array (lg_buffer g) h) (\<lambda>h'. Inr (fflush (lg_pFile g), h'))
       else Inr (lg_pFile g, h))"

section \<open>The invariant and what has been logged\<close>

text \<open>
  A buffer of at most 2^30 bytes, so that the sum of two positions is an \<^verbatim>\<open>int\<close>.
\<close>

definition log_ok :: "'c cs_api \<Rightarrow> 'c logst \<Rightarrow> bool" where
  "log_ok api st \<longleftrightarrow>
     (case st of (h, g) \<Rightarrow>
       heap_ok h \<and> cs_free api (lg_lock g) \<and> lg_limit g \<le> 2 ^ 30 \<and>
       (if lg_filePath g = ''console'' then lg_index g = 0
        else lg_index g \<le> lg_limit g \<and> lg_buffer g \<noteq> lg_tempBuffer g \<and>
          (\<exists>b. blocks h (lg_buffer g) = Some b \<and> length b = lg_limit g) \<and>
          (\<exists>t. blocks h (lg_tempBuffer g) = Some t \<and> length t = lg_limit g)))"

definition buffered :: "'c logst \<Rightarrow> cell list" where
  "buffered st =
     (case blocks (fst st) (lg_buffer (snd st)) of None \<Rightarrow> [] | Some b \<Rightarrow> take (lg_index (snd st)) b)"

definition logged :: "'c logst \<Rightarrow> cell list" where
  "logged st = written (lg_pFile (snd st)) @ buffered st"

lemma log_ok_file:
  assumes "log_ok api (h, g)" and "lg_filePath g \<noteq> ''console''"
  obtains b t where "blocks h (lg_buffer g) = Some b" and "length b = lg_limit g"
    and "blocks h (lg_tempBuffer g) = Some t" and "length t = lg_limit g"
    and "lg_buffer g \<noteq> lg_tempBuffer g" and "lg_index g \<le> lg_limit g"
    and "lg_buffer g \<noteq> 0" and "lg_tempBuffer g \<noteq> 0" and "heap_ok h" and "cs_free api (lg_lock g)"
  using assms heap_ok_live [of h] by (fastforce simp: log_ok_def)

lemma log_ok_console:
  "log_ok api (h, g) \<Longrightarrow> lg_filePath g = ''console'' \<Longrightarrow> buffered (h, g) = []"
  by (auto simp: log_ok_def buffered_def split: option.split)

lemma log_ok_congs:
  "log_ok api (h, g\<lparr>lg_pFile := f\<rparr>) = log_ok api (h, g)"
  "buffered (h, g\<lparr>lg_pFile := f\<rparr>) = buffered (h, g)"
  by (simp_all add: log_ok_def buffered_def split: option.split)

definition accepted :: "'c LogModule \<Rightarrow> string \<Rightarrow> string \<Rightarrow> bool" where
  "accepted g format out \<longleftrightarrow>
     lg_filePath g = ''console'' \<or> lg_limit g \<le> length format \<or> length out < lg_limit g"

text \<open>The three ways text goes: straight to the stream, through the full buffer, into the buffer.\<close>

definition kept :: "'c LogModule \<Rightarrow> 'c LogModule \<Rightarrow> bool" where
  "kept g g' \<longleftrightarrow> lg_filePath g' = lg_filePath g \<and> lg_limit g' = lg_limit g \<and> lg_buffer g' = lg_buffer g \<and>
     lg_tempBuffer g' = lg_tempBuffer g \<and> lg_lock g' = lg_lock g"

lemma put_buffered_ok:
  assumes "log_ok api (h, g)" and "lg_filePath g \<noteq> ''console''" and "0 < lg_limit g"
  shows "\<exists>h' f i. (\<forall>l. put_buffered out (h, g\<lparr>lg_lock := l\<rparr>) =
         Inr (if length out < lg_limit g then int (length out) else -1,
              h', g\<lparr>lg_pFile := f, lg_index := i, lg_lock := l\<rparr>)) \<and>
       log_ok api (h', g\<lparr>lg_pFile := f, lg_index := i\<rparr>) \<and>
       logged (h', g\<lparr>lg_pFile := f, lg_index := i\<rparr>) =
         logged (h, g) @ (if length out < lg_limit g then map Some out else []) \<and>
       dom (blocks h') = dom (blocks h)"
proof -
  obtain b t where b: "blocks h (lg_buffer g) = Some b" "length b = lg_limit g"
    "blocks h (lg_tempBuffer g) = Some t" "length t = lg_limit g" "lg_buffer g \<noteq> lg_tempBuffer g"
    "lg_index g \<le> lg_limit g" "lg_buffer g \<noteq> 0" "lg_tempBuffer g \<noteq> 0" "heap_ok h"
    using log_ok_file [OF assms(1,2)] by blast
  show ?thesis
  proof (cases "length out < lg_limit g")
    case False
    define h' where "h' = h\<lparr>blocks := (blocks h)(lg_tempBuffer g \<mapsto> Some (CHR 0x00) # drop (Suc 0) t)\<rparr>"
    have h': "write_cells (lg_tempBuffer g) 0 [Some (CHR 0x00)] h = Inr h'"
      using b assms(3) by (simp add: write_cells_def h'_def)
    have "heap_ok h'" unfolding h'_def using b(9,3) by (rule heap_ok_update)
    with False b assms h' show ?thesis
      by (intro exI [of _ h'] exI [of _ "lg_pFile g"] exI [of _ "lg_index g"])
        (auto simp: put_buffered_def vsprintf_s_def log_ok_def logged_def buffered_def h'_def)
  next
    case True
    define t' where "t' = map Some (out @ [CHR 0x00]) @ drop (Suc (length out)) t"
    define h1 where "h1 = h\<lparr>blocks := (blocks h)(lg_tempBuffer g \<mapsto> t')\<rparr>"
    have t': "length t' = lg_limit g" "take (length out) t' = map Some out"
      using True b(4) by (simp_all add: t'_def)
    have h1: "write_cells (lg_tempBuffer g) 0 (map Some (out @ [CHR 0x00])) h = Inr h1"
      using b True by (simp add: write_cells_def h1_def t'_def)
    have ok1: "heap_ok h1" unfolding h1_def using b(9,3) by (rule heap_ok_update)
    have tmp: "read_cells (lg_tempBuffer g) 0 (length out) h1 = Inr (map Some out)"
      using True t' b(8) by (simp add: read_cells_def h1_def)
    show ?thesis
    proof (cases "lg_limit g \<le> lg_index g + length out")
      case flush: True
      have "read_cells (lg_buffer g) 0 (lg_index g) h1 = Inr (take (lg_index g) b)"
        using b by (simp add: read_cells_def h1_def)
      with True flush b h1 tmp ok1 assms t' show ?thesis
        by (intro exI [of _ h1] exI [of _ "fflush (fwrite (map Some out) (fwrite (take (lg_index g) b) (lg_pFile g)))"]
              exI [of _ 0])
          (auto simp: put_buffered_def vsprintf_s_def log_ok_def logged_def buffered_def h1_def fwrite_def fflush_def)
    next
      case room: False
      define b' where "b' = take (lg_index g) b @ map Some out @ drop (lg_index g + length out) b"
      define h2 where "h2 = h1\<lparr>blocks := (blocks h1)(lg_buffer g \<mapsto> b')\<rparr>"
      have h2: "memcpy (lg_buffer g) (lg_index g) (lg_tempBuffer g) 0 (length out) h1 = Inr h2"
        using b room tmp by (simp add: memcpy_def write_cells_def h2_def h1_def b'_def)
      have b': "length b' = lg_limit g" "take (lg_index g + length out) b' = take (lg_index g) b @ map Some out"
        using b room by (simp_all add: b'_def min_def)
      have "blocks h1 (lg_buffer g) = Some b" using b by (simp add: h1_def)
      with ok1 have "heap_ok h2" unfolding h2_def by (rule heap_ok_update)
      with True room b h1 h2 assms t' b' show ?thesis
        by (intro exI [of _ h2] exI [of _ "lg_pFile g"] exI [of _ "lg_index g + length out"])
          (auto simp: put_buffered_def vsprintf_s_def log_ok_def logged_def buffered_def h2_def h1_def)
    qed
  qed
qed

context cs_laws
begin

lemma log_locked:
  assumes "cs_free api (lg_lock g)"
    and "\<And>l. body (h, g\<lparr>lg_lock := l\<rparr>) = Inr (r, h', g'\<lparr>lg_lock := l\<rparr>)" and "lg_lock g' = lg_lock g"
  shows "locked api log_cs set_log_cs body (h, g) = Inr (r, h', g')"
  by (rule locked_eq) (use assms in \<open>simp_all add: log_cs_def set_log_cs_def\<close>)

lemma flush_ok:
  assumes "log_ok api (h, g)"
  shows "\<exists>g'. flush api (h, g) = Inr ((), h, g') \<and> log_ok api (h, g') \<and> logged (h, g') = logged (h, g) \<and>
     buffered (h, g') = [] \<and> kept g g' \<and>
     (0 < lg_index g \<longrightarrow> synced (lg_pFile g') = length (logged (h, g)))"
proof (cases "lg_filePath g \<noteq> ''console'' \<and> 0 < lg_index g")
  case False
  then have "lg_index g = 0" using assms by (auto simp: log_ok_def split: if_splits)
  then have "buffered (h, g) = []" by (simp add: buffered_def split: option.split)
  with assms \<open>lg_index g = 0\<close> show ?thesis by (simp add: flush_def kept_def)
next
  case True
  obtain b where b: "blocks h (lg_buffer g) = Some b" "length b = lg_limit g" "lg_buffer g \<noteq> 0"
    "lg_index g \<le> lg_limit g" "cs_free api (lg_lock g)"
    using log_ok_file [OF assms] True by blast
  have "read_cells (lg_buffer g) 0 (lg_index g) h = Inr (take (lg_index g) b)"
    using b by (simp add: read_cells_def)
  then have "flush api (h, g) =
      Inr ((), h, g\<lparr>lg_pFile := fflush (fwrite (take (lg_index g) b) (lg_pFile g)), lg_index := 0\<rparr>)"
    unfolding flush_def using True b(5) by (simp add: log_locked)
  with b assms True show ?thesis
    by (auto simp: log_ok_def logged_def buffered_def fwrite_def fflush_def kept_def)
qed

lemma put_text_ok:
  assumes "log_ok api (h, g)"
  shows "\<exists>h' g'. put_text api format out (h, g) =
         Inr (if accepted g format out then int (length out) else -1, h', g') \<and>
       log_ok api (h', g') \<and> kept g g' \<and> dom (blocks h') = dom (blocks h) \<and>
       logged (h', g') = logged (h, g) @ (if accepted g format out then map Some out else [])"
proof -
  consider "lg_filePath g = ''console''" | "lg_filePath g \<noteq> ''console''" "lg_limit g \<le> length format"
    | "lg_filePath g \<noteq> ''console''" "length format < lg_limit g" by linarith
  then show ?thesis
  proof cases
    case 1
    with assms log_ok_console [OF assms] show ?thesis
      by (simp add: put_text_def accepted_def kept_def logged_def fwrite_def log_ok_congs)
  next
    case 2
    obtain g1 where g1: "flush api (h, g) = Inr ((), h, g1)" "log_ok api (h, g1)"
      "logged (h, g1) = logged (h, g)" "buffered (h, g1) = []" "kept g g1"
      using flush_ok [OF assms] by blast
    with 2 show ?thesis
      by (simp add: put_text_def accepted_def kept_def logged_def fwrite_def log_ok_congs)
  next
    case 3
    have free: "cs_free api (lg_lock g)" using assms by (simp add: log_ok_def)
    from 3 have "0 < lg_limit g" by linarith
    from put_buffered_ok [OF assms 3(1) this, of out] obtain h' f i where r:
      "\<And>l. put_buffered out (h, g\<lparr>lg_lock := l\<rparr>) = Inr (if length out < lg_limit g then int (length out) else -1,
         h', g\<lparr>lg_pFile := f, lg_index := i, lg_lock := l\<rparr>)"
      "log_ok api (h', g\<lparr>lg_pFile := f, lg_index := i\<rparr>)"
      "logged (h', g\<lparr>lg_pFile := f, lg_index := i\<rparr>) =
         logged (h, g) @ (if length out < lg_limit g then map Some out else [])"
      "dom (blocks h') = dom (blocks h)" by blast
    have "locked api log_cs set_log_cs (put_buffered out) (h, g) =
        Inr (if length out < lg_limit g then int (length out) else -1, h', g\<lparr>lg_pFile := f, lg_index := i\<rparr>)"
      by (rule log_locked [OF free]) (simp_all add: r(1))
    with 3 r(2,3,4) show ?thesis
      by (intro exI [of _ h'] exI [of _ "g\<lparr>lg_pFile := f, lg_index := i\<rparr>"])
        (simp add: put_text_def accepted_def kept_def)
  qed
qed

end

section \<open>A log is a growing text\<close>

datatype 'v log_op =
    Write SYSTEMTIME string 'v
  | Print string 'v
  | Flush

fun log_step ::
  "'c cs_api \<Rightarrow> (string \<Rightarrow> 'v \<Rightarrow> string) \<Rightarrow> 'v log_op \<Rightarrow> 'c logst \<Rightarrow> (int \<times> 'c logst) res" where
  "log_step api vformat (Write t str vl) st = lg_write api vformat t str vl st"
| "log_step api vformat (Print str vl) st = lg_print api vformat str vl st"
| "log_step api vformat Flush st = bindR (flush api st) (\<lambda>(_, st'). Inr (0, st'))"

text \<open>The specification: accepted text is appended, refused text is answered with -1.\<close>

datatype log_spec_op = Append string | Refuse | Nop

fun log_spec :: "log_spec_op \<Rightarrow> cell list \<Rightarrow> int \<times> cell list" where
  "log_spec (Append out) xs = (int (length out), xs @ map Some out)"
| "log_spec Refuse xs = (-1, xs)"
| "log_spec Nop xs = (0, xs)"

definition text_op :: "'c LogModule \<Rightarrow> string \<Rightarrow> string \<Rightarrow> log_spec_op" where
  "text_op g format out = (if accepted g format out then Append out else Refuse)"

fun log_meaning :: "(string \<Rightarrow> 'v \<Rightarrow> string) \<Rightarrow> 'c logst \<Rightarrow> 'v log_op \<Rightarrow> log_spec_op" where
  "log_meaning vformat st (Write t str vl) =
     (let format = log_stamp t @ str @ [CHR 0x0A] in text_op (snd st) format (vformat format vl))"
| "log_meaning vformat st (Print str vl) =
     (let format = str @ [CHR 0x0A] in text_op (snd st) format (vformat format vl))"
| "log_meaning vformat st Flush = Nop"

lemma log_meaning_kept: "kept g g' \<Longrightarrow> log_meaning vformat (h', g') x = log_meaning vformat (h, g) x"
  by (cases x) (simp_all add: kept_def text_op_def accepted_def Let_def)

context cs_laws
begin

lemma log_step_ok:
  assumes "log_ok api (h, g)"
  shows "\<exists>r h' g'. log_step api vformat x (h, g) = Inr (r, h', g') \<and> log_ok api (h', g') \<and> kept g g' \<and>
     dom (blocks h') = dom (blocks h) \<and> log_spec (log_meaning vformat (h, g) x) (logged (h, g)) = (r, logged (h', g'))"
proof (cases x)
  case (Write t str vl)
  then show ?thesis
    using put_text_ok [OF assms, of "log_stamp t @ str @ [CHR 0x0A]" "vformat (log_stamp t @ str @ [CHR 0x0A]) vl"]
    by (auto simp: lg_write_def Let_def text_op_def split: if_splits)
next
  case (Print str vl)
  then show ?thesis
    using put_text_ok [OF assms, of "str @ [CHR 0x0A]" "vformat (str @ [CHR 0x0A]) vl"]
    by (auto simp: lg_print_def Let_def text_op_def split: if_splits)
next
  case Flush
  then show ?thesis using flush_ok [OF assms] by auto
qed

end

text \<open>A run also keeps the buffers and allocates nothing: the invariant relative to a start.\<close>

definition log_inv :: "'c cs_api \<Rightarrow> 'c logst \<Rightarrow> 'c logst \<Rightarrow> bool" where
  "log_inv api st0 st \<longleftrightarrow> log_ok api st \<and> kept (snd st0) (snd st) \<and> dom (blocks (fst st)) = dom (blocks (fst st0))"

sublocale cs_laws \<subseteq> log_sim:
  refinement "log_inv api st0" logged "log_step api vformat" log_spec "\<lambda>_ _. True" "log_meaning vformat"
  for st0 vformat
proof unfold_locales
  fix c :: "'c logst" and x
  assume c: "log_inv api st0 c"
  obtain h g where hg: "c = (h, g)" by (cases c)
  with c have "log_ok api (h, g)" by (simp add: log_inv_def)
  from log_step_ok [OF this, of vformat x] obtain r h' g' where
    "log_step api vformat x (h, g) = Inr (r, h', g')" "log_ok api (h', g')" "kept g g'"
    "dom (blocks h') = dom (blocks h)"
    "log_spec (log_meaning vformat (h, g) x) (logged (h, g)) = (r, logged (h', g'))" by blast
  moreover from this c have "log_inv api st0 (h', g')" by (auto simp: hg log_inv_def kept_def)
  ultimately show "\<exists>r c'. log_step api vformat x c = Inr (r, c') \<and> log_inv api st0 c' \<and>
      log_spec (log_meaning vformat c x) (logged c) = (r, logged c') \<and>
      (\<forall>y. True \<longrightarrow> True \<and> log_meaning vformat c' y = log_meaning vformat c y)"
    unfolding hg using log_meaning_kept by blast
qed

context cs_laws
begin

lemmas log_run_refines = log_sim.run_refines

lemma LogModule_create_ok:
  assumes "LogModule_create api file (Some f) con n h = Inr st" and "file \<noteq> ''console''" and "heap_ok h" and "n \<le> 2 ^ 30"
  shows "log_ok api st \<and> logged st = written f \<and> lg_filePath (snd st) = file \<and>
     lg_buffer (snd st) \<notin> dom (blocks h) \<and> lg_tempBuffer (snd st) \<notin> dom (blocks h) \<and>
     lg_buffer (snd st) \<noteq> lg_tempBuffer (snd st) \<and>
     dom (blocks (fst st)) = insert (lg_buffer (snd st)) (insert (lg_tempBuffer (snd st)) (dom (blocks h)))"
proof -
  obtain b h1 t h2 where a: "new_array (nat n) h = (b, h1)" "new_array (nat n) h1 = (t, h2)"
    by (metis prod.exhaust)
  have ok: "heap_ok h1" "heap_ok h2" using a assms(3) new_array_ok by blast+
  have fresh: "b \<noteq> 0" "blocks h b = None" "t \<noteq> 0" "blocks h1 t = None"
    using new_array_fresh [OF assms(3) a(1)] new_array_fresh [OF ok(1) a(2)] by auto
  note bl = new_array_blocks [OF a(1)] new_array_blocks [OF a(2)]
  have "b \<noteq> t" using fresh(4) bl(1) by auto
  with assms a ok fresh bl init_free show ?thesis
    by (auto simp: LogModule_create_def Let_def log_ok_def logged_def buffered_def split: if_splits option.splits)
qed

lemma LogModule_destroy_ok:
  assumes "log_ok api (h, g)" and "lg_filePath g \<noteq> ''console''"
  shows "\<exists>f' h'. LogModule_destroy api (h, g) = Inr (f', h') \<and> written f' = logged (h, g) \<and>
     synced f' = length (written f') \<and> dom (blocks h') = dom (blocks h) - {lg_buffer g}"
proof -
  obtain g' where g': "flush api (h, g) = Inr ((), h, g')" "log_ok api (h, g')" "logged (h, g') = logged (h, g)"
    "buffered (h, g') = []" "kept g g'"
    using flush_ok [OF assms(1)] by blast
  have "lg_filePath g' \<noteq> ''console''" using g'(5) assms(2) by (simp add: kept_def)
  from log_ok_file [OF g'(2) this] obtain b where "blocks h (lg_buffer g') = Some b" "lg_buffer g' \<noteq> 0" by blast
  with g' assms(2) show ?thesis
    by (auto simp: LogModule_destroy_def delete_array_live kept_def fflush_def logged_def)
qed

end

section \<open>Properties\<close>



text \<open>
  The error path of the log: a line whose text does not fit the buffer, although its format does,
  is answered with -1, the lock is released and nothing of it is logged; all lines before and
  after are unaffected.
\<close>

theorem log_refused_line:
  assumes "cs_laws api" and "log_ok api st" and "lg_filePath (snd st) \<noteq> ''console''"
    and "Suc (length str) < lg_limit (snd st)" and "lg_limit (snd st) \<le> length (vformat (str @ [CHR 0x0A]) vl)"
  shows "\<exists>st'. lg_print api vformat str vl st = Inr (-1, st') \<and> log_ok api st' \<and> logged st' = logged st"
  using cs_laws.put_text_ok [OF assms(1), of "fst st" "snd st" "str @ [CHR 0x0A]" "vformat (str @ [CHR 0x0A]) vl"] assms(2-)
  by (auto simp: lg_print_def Let_def accepted_def)

lemma log_refused_line_witness:
  "\<exists>st st'. lg_print cs_ref (\<lambda>s n. replicate n CHR ''x'') ''%s'' 9 st = Inr (-1, st') \<and> logged st' = logged st"
proof -
  let ?f = "\<lparr>written = [], synced = 0\<rparr>"
  obtain st where st: "LogModule_create cs_ref ''a.log'' (Some ?f) ?f 4 empty_heap = Inr st"
    "lg_limit (snd st) = 4" "lg_filePath (snd st) = ''a.log''"
    by (simp add: LogModule_create_def cs_ref_def Let_def split_def)
  have "log_ok cs_ref st"
    using cs_laws.LogModule_create_ok [OF cs_ref.cs_laws_axioms st(1)] by simp
  from log_refused_line [OF cs_ref.cs_laws_axioms this, of "''%s''" "\<lambda>s n. replicate n CHR ''x''" 9] st(2,3)
  obtain st' where "lg_print cs_ref (\<lambda>s n. replicate n CHR ''x'') ''%s'' 9 st = Inr (-1, st')" "logged st' = logged st"
    by auto
  then show ?thesis by blast
qed

end
