(* ===== verification/Sysutil.thy ===== *)
theory Sysutil
  imports Protocol Log_Module
begin

text \<open>
  The small utilities of \<^verbatim>\<open>svrutil.h\<close>: random strings, time stamps, processor load,
  the socket library and name resolution. The answers of the operating system are arguments.
\<close>

section \<open>RandomString\<close>

definition v_dict :: string where
  "v_dict = ''0123456789ABCDEFGHIJKLMNOPQRSTUVWXYZabcdefghijklmnopqrstuvwxyz''"

text \<open>The characters up to the first null character of an array: how \<^verbatim>\<open>string(str)\<close> reads it.\<close>

definition c_str :: "cell list \<Rightarrow> string" where
  "c_str b = map the (takeWhile (\<lambda>c. c \<noteq> Some (CHR 0x00)) b)"

text \<open>
  \<open>rnd i\<close> is the \<open>i\<close>-th value \<^verbatim>\<open>rand()\<close> gives. The array is not deleted. A negative length
  is an allocation that cannot be made, except -1, for which an empty array is written.
\<close>

definition RandomString_create :: "(nat \<Rightarrow> nat) \<Rightarrow> int \<Rightarrow> heap \<Rightarrow> (string \<times> heap) res" where
  "RandomString_create rnd len h =
     (if len + 1 < 0 then Inl BadAlloc
      else if len < 0 then Inl OutOfBounds
      else
        let (str, h) = new_array (nat (len + 1)) h in
        bindR (foldR (\<lambda>i. write_cells str i [Some (v_dict ! (rnd i mod 62))]) [0..<nat len] h) (\<lambda>h.
        bindR (write_cells str (nat len) [Some (CHR 0x00)] h) (\<lambda>h.
        case blocks h str of None \<Rightarrow> Inl UseAfterFree | Some b \<Rightarrow> Inr (c_str b, h))))"

section \<open>TimeStamp\<close>

definition TimeStamp_create :: "SYSTEMTIME \<Rightarrow> string" where
  "TimeStamp_create t =
     print_padded 4 (wYear t) @ ''/'' @ print_padded 2 (wMonth t) @ ''/'' @ print_padded 2 (wDay t) @ '' '' @
     print_padded 2 (wHour t) @ '':'' @ print_padded 2 (wMinute t) @ '':'' @ print_padded 2 (wSecond t) @ '':'' @
     print_padded 3 (wMilliseconds t)"

text \<open>What the system puts into a \<^verbatim>\<open>SYSTEMTIME\<close>.\<close>

definition systemtime_ok :: "SYSTEMTIME \<Rightarrow> bool" where
  "systemtime_ok t \<longleftrightarrow> wYear t < 10000 \<and> wMonth t \<le> 12 \<and> wDay t \<le> 31 \<and> wHour t < 24 \<and> wMinute t < 60 \<and>
     wSecond t < 60 \<and> wMilliseconds t < 1000"

section \<open>SystemInfo\<close>

record FILETIME =
  dwHighDateTime :: "32 word"
  dwLowDateTime :: "32 word"

unbundle bit_operations_syntax

definition CompareFileTime :: "FILETIME \<Rightarrow> FILETIME \<Rightarrow> 64 word" where
  "CompareFileTime time1 time2 =
     (let a = push_bit 32 (ucast (dwHighDateTime time1)) OR ucast (dwLowDateTime time1);
          b = push_bit 32 (ucast (dwHighDateTime time2)) OR ucast (dwLowDateTime time2)
      in b - a)"

text \<open>
  The times are those of two calls of \<^verbatim>\<open>GetSystemTimes\<close>, a second apart (idle, kernel and user
  time). The quotient is computed in 64 bits and then stored into an \<^verbatim>\<open>int\<close>.
\<close>

definition getCPUUsage :: "FILETIME \<times> FILETIME \<times> FILETIME \<Rightarrow> FILETIME \<times> FILETIME \<times> FILETIME \<Rightarrow> int res" where
  "getCPUUsage before after =
     (case (before, after) of ((preidle, prekernel, preuser), (idleT, kernelT, userT)) \<Rightarrow>
        let idl = CompareFileTime preidle idleT; kernel = CompareFileTime prekernel kernelT; user = CompareFileTime preuser userT in
        if kernel + user = 0 then Inl DivByZero
        else Inr (sint (ucast ((kernel + user - idl) * 100 div (kernel + user)) :: 32 word)))"

section \<open>SocketLibrary and GetHostByName\<close>

text \<open>\<open>startup\<close> is the version \<^verbatim>\<open>WSAStartup\<close> gives (low and high byte), \<open>None\<close> if it failed; the second result counts uses.\<close>

definition SocketLibrary_load :: "(nat \<times> nat) option \<Rightarrow> int \<Rightarrow> bool \<times> int" where
  "SocketLibrary_load startup uses =
     (case startup of None \<Rightarrow> (False, uses)
      | Some (lo, hi) \<Rightarrow> if lo \<noteq> 2 \<or> hi \<noteq> 2 then (False, uses + 1 - 1) else (True, uses + 1))"

definition SocketLibrary_unload :: "int \<Rightarrow> int" where
  "SocketLibrary_unload uses = uses - 1"

text \<open>
  \<open>getaddrinfo\<close> gives the addresses of a host or fails; \<open>inet_ntop\<close> writes an address into the
  array of 16 characters if its text and the null character fit and leaves it alone otherwise. The
  list may be the null pointer. The result is what the list holds afterwards.
\<close>

definition getIPList ::
  "(string \<Rightarrow> 'a list option) \<Rightarrow> ('a \<Rightarrow> string) \<Rightarrow> string \<Rightarrow> string list option \<Rightarrow> bool \<times> string list option" where
  "getIPList getaddrinfo inet_ntop name pList =
     (case pList of
        None \<Rightarrow> (False, None)
      | Some l \<Rightarrow>
          (case getaddrinfo name of
             None \<Rightarrow> (False, Some l)
           | Some as \<Rightarrow>
               (True, Some (fst (fold (\<lambda>a (l, str).
                  let str = (if length (inet_ntop a) < 16 then inet_ntop a else str) in (l @ [str], str)) as (l, []))))))"

definition getFirstIP :: "(string \<Rightarrow> 'a list option) \<Rightarrow> ('a \<Rightarrow> string) \<Rightarrow> string \<Rightarrow> string" where
  "getFirstIP getaddrinfo inet_ntop name =
     (case snd (getIPList getaddrinfo inet_ntop name (Some [])) of Some (ip # _) \<Rightarrow> ip | _ \<Rightarrow> [])"

section \<open>Lemmas\<close>

lemma v_dict_word: "i < 62 \<Longrightarrow> is_word (v_dict ! i) \<and> v_dict ! i \<noteq> CHR 0x00"
proof -
  have "list_all (\<lambda>c. is_word c \<and> c \<noteq> CHR 0x00) v_dict" "length v_dict = 62" by code_simp+
  then show "i < 62 \<Longrightarrow> is_word (v_dict ! i) \<and> v_dict ! i \<noteq> CHR 0x00" by (simp add: list_all_length)
qed

definition random_text :: "(nat \<Rightarrow> nat) \<Rightarrow> nat \<Rightarrow> string" where
  "random_text rnd n = map (\<lambda>i. v_dict ! (rnd i mod 62)) [0..<n]"

lemma random_text_word: "list_all is_word (random_text rnd n) \<and> length (random_text rnd n) = n \<and> CHR 0x00 \<notin> set (random_text rnd n)"
proof -
  have "is_word (v_dict ! (rnd i mod 62)) \<and> v_dict ! (rnd i mod 62) \<noteq> CHR 0x00" for i
    by (rule v_dict_word) simp
  note this [simp]
  have "CHR 0x00 \<noteq> v_dict ! (rnd i mod 62)" for i by (metis v_dict_word mod_less_divisor zero_less_numeral)
  then show ?thesis by (auto simp: random_text_def list_all_iff)
qed

lemma random_loop:
  "n \<le> k \<Longrightarrow> str \<noteq> 0 \<Longrightarrow> blocks h str = Some (replicate k None) \<Longrightarrow>
   foldR (\<lambda>i. write_cells str i [Some (v_dict ! (rnd i mod 62))]) [0..<n] h =
     Inr (h\<lparr>blocks := (blocks h)(str \<mapsto> map Some (random_text rnd n) @ replicate (k - n) None)\<rparr>)"
proof (induction n)
  case 0
  then show ?case by (simp add: random_text_def map_upd_triv)
next
  case (Suc n)
  let ?b = "map Some (random_text rnd n) @ replicate (k - n) None"
  have len: "length (random_text rnd n) = n" using random_text_word by simp
  have "replicate (k - n) (None :: cell) = None # replicate (k - Suc n) None"
    using Suc.prems(1) by (metis Suc_diff_Suc Suc_le_lessD replicate_Suc)
  then have "take n ?b @ [Some (v_dict ! (rnd n mod 62))] @ drop (n + 1) ?b =
      map Some (random_text rnd (Suc n)) @ replicate (k - Suc n) None"
    using len by (simp add: random_text_def)
  moreover have "foldR (\<lambda>i. write_cells str i [Some (v_dict ! (rnd i mod 62))]) [0..<n] h = Inr (h\<lparr>blocks := (blocks h)(str \<mapsto> ?b)\<rparr>)"
    by (rule Suc.IH) (use Suc.prems in simp_all)
  moreover have "write_cells str n [Some (v_dict ! (rnd n mod 62))] (h\<lparr>blocks := (blocks h)(str \<mapsto> ?b)\<rparr>) =
      Inr (h\<lparr>blocks := (blocks h)(str \<mapsto> take n ?b @ [Some (v_dict ! (rnd n mod 62))] @ drop (n + 1) ?b)\<rparr>)"
    using Suc.prems(1,2) len by (simp add: write_cells_def)
  ultimately show ?case by (simp add: foldR_append del: fun_upd_apply)
qed

lemma RandomString_create_eq:
  assumes "heap_ok h" and "0 \<le> len"
  shows "\<exists>h'. RandomString_create rnd len h = Inr (random_text rnd (nat len), h') \<and> heap_ok h' \<and>
     blocks h' = (blocks h)(hp_next h \<mapsto> map Some (random_text rnd (nat len)) @ [Some (CHR 0x00)])"
proof -
  let ?n = "nat len" and ?str = "hp_next h"
  obtain h0 where a: "new_array (Suc ?n) h = (?str, h0)" by (simp add: new_array_def)
  note h0 = a new_array_blocks [OF a] new_array_ok [OF assms(1) a]
  have str: "?str \<noteq> 0" "blocks h0 ?str = Some (replicate (Suc ?n) None)" using assms(1) h0(2) by (auto simp: heap_ok_def)
  let ?t = "random_text rnd ?n"
  let ?h1 = "h0\<lparr>blocks := (blocks h0)(?str \<mapsto> map Some ?t @ [None])\<rparr>"
  let ?h2 = "h0\<lparr>blocks := (blocks h0)(?str \<mapsto> map Some ?t @ [Some (CHR 0x00)])\<rparr>"
  have loop: "foldR (\<lambda>i. write_cells ?str i [Some (v_dict ! (rnd i mod 62))]) [0..<?n] h0 = Inr ?h1"
    using random_loop [OF _ str, of ?n rnd] by (simp add: Suc_diff_le)
  have t: "length ?t = ?n" "CHR 0x00 \<notin> set ?t" using random_text_word by auto
  have last: "write_cells ?str ?n [Some (CHR 0x00)] ?h1 = Inr ?h2"
    using str(1) t(1) by (simp add: write_cells_def)
  have "takeWhile (\<lambda>c. c \<noteq> Some (CHR 0x00)) (map Some ?t @ [Some (CHR 0x00)]) = map Some ?t"
    using t(2) by (subst takeWhile_append2) auto
  then have "c_str (map Some ?t @ [Some (CHR 0x00)]) = ?t" by (simp add: c_str_def comp_def)
  moreover have "nat (len + 1) = Suc ?n" using assms(2) by simp
  ultimately have "RandomString_create rnd len h = Inr (?t, ?h2)"
    using assms(2) h0(1) loop last by (simp add: RandomString_create_def)
  moreover have "heap_ok ?h2" by (rule heap_ok_update [OF h0(3) str(2)])
  ultimately show ?thesis using h0(2) by simp
qed

lemma print_nat_dot: "list_all is_dot (print_nat n)"
  using print_nat_digits [of n] by (auto simp: list_all_iff is_digit_def is_dot_def)

lemma print_padded_dot: "list_all is_dot (print_padded w n)"
  using print_nat_dot [of n] by (auto simp: print_padded_def list_all_iff is_dot_def)

lemma TimeStamp_create_field:
  assumes "systemtime_ok t"
  shows "field_ok is_dot 23 23 (TimeStamp_create t)"
proof -
  have "length (print_padded 4 (wYear t)) = 4" "length (print_padded 2 (wMonth t)) = 2" "length (print_padded 2 (wDay t)) = 2"
    "length (print_padded 2 (wHour t)) = 2" "length (print_padded 2 (wMinute t)) = 2" "length (print_padded 2 (wSecond t)) = 2"
    "length (print_padded 3 (wMilliseconds t)) = 3"
    using assms by (auto intro!: length_print_padded simp: systemtime_ok_def)
  then show ?thesis
    using print_padded_dot by (simp add: field_ok_def TimeStamp_create_def) (simp add: is_dot_def)
qed

text \<open>A file time as a number.\<close>

definition filetime :: "FILETIME \<Rightarrow> nat" where
  "filetime t = unat (dwHighDateTime t) * 2 ^ 32 + unat (dwLowDateTime t)"

lemma join_words:
  fixes hi lo :: "32 word"
  shows "unat (push_bit 32 (ucast hi :: 64 word) OR ucast lo) = unat hi * 2 ^ 32 + unat lo"
proof -
  have "unat hi < 2 ^ 32" "unat lo < 2 ^ 32" using unsigned_less [of hi] unsigned_less [of lo] by simp_all
  then have "unat hi * 2 ^ 32 + unat lo < 2 ^ 64" by simp
  moreover have "push_bit 32 (ucast hi :: 64 word) OR ucast lo = push_bit 32 (ucast hi) + ucast lo"
    by (rule disjunctive_add [symmetric]) (auto simp: bit_push_bit_iff bit_ucast_iff dest: bit_imp_le_length)
  then have "push_bit 32 (ucast hi :: 64 word) OR ucast lo = of_nat (unat hi * 2 ^ 32 + unat lo)"
    by (simp add: push_bit_eq_mult)
  ultimately show ?thesis by (simp only: unat_of_nat) (simp add: take_bit_nat_eq_self)
qed

lemma CompareFileTime_eq:
  "filetime a \<le> filetime b \<Longrightarrow> unat (CompareFileTime a b) = filetime b - filetime a"
  unfolding CompareFileTime_def Let_def filetime_def
  by (subst unat_sub) (simp_all only: word_le_nat_alt join_words)

lemma percent_le: "(n - i) * 100 div n \<le> (100 :: nat)"
proof -
  have "(n - i) * 100 div n \<le> n * 100 div n" by (intro div_le_mono) simp
  then show ?thesis by (cases "n = 0") simp_all
qed

lemma cpu_quotient:
  fixes k u i :: "64 word"
  assumes "unat i \<le> unat k + unat u" and "(unat k + unat u) * 100 < 2 ^ 64" and "0 < unat k + unat u"
  shows "k + u \<noteq> 0" and "sint (ucast ((k + u - i) * 100 div (k + u)) :: 32 word) =
     int ((unat k + unat u - unat i) * 100 div (unat k + unat u))"
proof -
  let ?n = "unat k + unat u"
  have ku: "unat (k + u) = ?n" using assms(2) unat_add_lem [of k u] by simp
  then show "k + u \<noteq> 0" using assms(3) by auto
  have "unat (k + u - i) = ?n - unat i" using assms(1) ku by (subst unat_sub) (simp_all add: word_le_nat_alt)
  moreover from this have "unat ((k + u - i) * 100) = (?n - unat i) * 100"
  proof -
    have "(?n - unat i) * 100 \<le> ?n * 100" by simp
    then have "unat (k + u - i) * unat (100 :: 64 word) < 2 ^ LENGTH(64)" using assms(2) \<open>unat (k + u - i) = ?n - unat i\<close> by simp
    then show ?thesis using \<open>unat (k + u - i) = ?n - unat i\<close> unfolding unat_mult_lem by simp
  qed
  ultimately have q: "unat ((k + u - i) * 100 div (k + u)) = (?n - unat i) * 100 div ?n" using ku by (simp add: unat_div)
  have le: "(?n - unat i) * 100 div ?n \<le> 100"
    by (rule percent_le)
  let ?q = "(?n - unat i) * 100 div ?n"
  have "(ucast ((k + u - i) * 100 div (k + u)) :: 32 word) = of_nat ?q"
    unfolding q [symmetric] by simp
  moreover have "sint (of_nat ?q :: 32 word) = int ?q"
    using le by (simp add: signed_of_nat signed_take_bit_int_eq_self)
  ultimately show "sint (ucast ((k + u - i) * 100 div (k + u)) :: 32 word) = int ?q" by simp
qed

section \<open>Properties\<close>

text \<open>
  C30. What the utilities generate is what the protocol accepts: a packet with a time stamp of
  \<^verbatim>\<open>TimeStamp::create\<close> and a session id of \<^verbatim>\<open>RandomString::create(16)\<close>, whatever the clock and
  \<^verbatim>\<open>rand\<close> give, has a header that \<^verbatim>\<open>matchHeader\<close> reads back completely.
\<close>

theorem generated_fields_accepted:
  assumes "systemtime_ok t" and "heap_ok h" and "packet_ok p"
  shows "\<exists>sid h' hdr q. RandomString_create rnd 16 h = Inr (sid, h') \<and>
     createHeader (p\<lparr>TimeStamp := TimeStamp_create t, SessionID := sid\<rparr>) = (hdr, q) \<and>
     TimeStamp q = TimeStamp_create t \<and> SessionID q = sid \<and>
     matchHeader (Some (hdr @ content)) (int (length (hdr @ content))) p0 = Inr (True, q)"
proof -
  from RandomString_create_eq [OF assms(2), of 16 rnd] obtain h' where h': "RandomString_create rnd 16 h = Inr (random_text rnd 16, h')"
    by auto
  let ?sid = "random_text rnd 16"
  let ?p = "p\<lparr>TimeStamp := TimeStamp_create t, SessionID := ?sid\<rparr>"
  have "field_ok is_word 16 16 ?sid" using random_text_word by (simp add: field_ok_def)
  then have ok: "packet_ok ?p" using assms(3) TimeStamp_create_field [OF assms(1)] by (simp add: packet_ok_def)
  let ?f = "header_of ?p"
  have q: "snd (createHeader ?p) = packet_of ?f" "fst (createHeader ?p) = header_text ?f"
    using ok by (simp_all add: createHeader_text packet_of_header_of)
  have len: "63 \<le> length (header_text ?f)" "length (header_text ?f) \<le> 222" using header_text_length [OF header_of_ok [OF ok]] by auto
  have "window (header_text ?f @ content) (int (length (header_text ?f @ content))) =
      header_text ?f @ take (nat (min (int (length (header_text ?f @ content))) 256) - length (header_text ?f)) content"
    using len by (simp add: window_def)
  then have "matchHeader (Some (header_text ?f @ content)) (int (length (header_text ?f @ content))) p0 = Inr (True, packet_of ?f)"
    using len by (intro matchHeader_header [OF _ _ header_of_ok [OF ok]]) auto
  moreover have "TimeStamp (packet_of ?f) = TimeStamp_create t" "SessionID (packet_of ?f) = ?sid"
    by (simp_all add: packet_of_def header_of_def)
  ultimately show ?thesis using h' q by (metis prod.collapse)
qed

lemma generated_fields_accepted_witness:
  "\<exists>sid h' hdr q. RandomString_create (\<lambda>i. 7 * i) 16 empty_heap = Inr (sid, h') \<and>
     createHeader (example_packet\<lparr>TimeStamp := TimeStamp_create \<lparr>wYear = 2016, wMonth = 8, wDay = 29, wHour = 12, wMinute = 0,
        wSecond = 5, wMilliseconds = 42\<rparr>, SessionID := sid\<rparr>) = (hdr, q) \<and>
     matchHeader (Some (hdr @ [])) (int (length (hdr @ []))) Packet_default = Inr (True, q)"
  using generated_fields_accepted [of "\<lparr>wYear = 2016, wMonth = 8, wDay = 29, wHour = 12, wMinute = 0, wSecond = 5, wMilliseconds = 42\<rparr>"
      empty_heap example_packet "\<lambda>i. 7 * i" "[]" Packet_default] example_packet_ok
  by (auto simp: systemtime_ok_def)

text \<open>
  Processor load: if no clock went back between the two readings, the idle time is at most kernel
  plus user time, and the times are too short for the product to wrap, \<^verbatim>\<open>getCPUUsage\<close> returns the
  busy share in per cent, between 0 and 100; if kernel and user time did not move at all it divides
  by zero.
\<close>

theorem getCPUUsage_percent:
  assumes "filetime i0 \<le> filetime i1" and "filetime k0 \<le> filetime k1" and "filetime u0 \<le> filetime u1"
    and "busy = (filetime k1 - filetime k0) + (filetime u1 - filetime u0)" and "filetime i1 - filetime i0 \<le> busy"
    and "busy * 100 < 2 ^ 64"
  shows "getCPUUsage (i0, k0, u0) (i1, k1, u1) =
     (if busy = 0 then Inl DivByZero else Inr (int ((busy - (filetime i1 - filetime i0)) * 100 div busy))) \<and>
     (busy - (filetime i1 - filetime i0)) * 100 div busy \<le> 100"
proof -
  let ?i = "CompareFileTime i0 i1" and ?k = "CompareFileTime k0 k1" and ?u = "CompareFileTime u0 u1"
  have eq: "unat ?i = filetime i1 - filetime i0" "unat ?k = filetime k1 - filetime k0" "unat ?u = filetime u1 - filetime u0"
    using assms(1-3) CompareFileTime_eq by simp_all
  have b: "busy = unat ?k + unat ?u" using assms(4) eq by simp
  have "(busy - unat ?i) * 100 div busy \<le> 100"
    by (rule percent_le)
  moreover have "getCPUUsage (i0, k0, u0) (i1, k1, u1) =
     (if busy = 0 then Inl DivByZero else Inr (int ((busy - unat ?i) * 100 div busy)))"
  proof (cases "busy = 0")
    case True
    then have "?k = 0" "?u = 0" using b by (simp_all add: unat_eq_0)
    with True show ?thesis by (simp add: getCPUUsage_def Let_def)
  next
    case False
    then show ?thesis
      using cpu_quotient [of ?i ?k ?u] assms(5,6) eq(1) b unfolding getCPUUsage_def Let_def by simp
  qed
  ultimately show ?thesis using eq(1) by simp
qed

lemma getCPUUsage_percent_witness:
  "getCPUUsage (\<lparr>dwHighDateTime = 0, dwLowDateTime = 10\<rparr>, \<lparr>dwHighDateTime = 0, dwLowDateTime = 20\<rparr>, \<lparr>dwHighDateTime = 0, dwLowDateTime = 30\<rparr>)
     (\<lparr>dwHighDateTime = 0, dwLowDateTime = 60\<rparr>, \<lparr>dwHighDateTime = 0, dwLowDateTime = 100\<rparr>, \<lparr>dwHighDateTime = 0, dwLowDateTime = 150\<rparr>) = Inr 75"
  using getCPUUsage_percent [of "\<lparr>dwHighDateTime = 0, dwLowDateTime = 10\<rparr>" "\<lparr>dwHighDateTime = 0, dwLowDateTime = 60\<rparr>"
      "\<lparr>dwHighDateTime = 0, dwLowDateTime = 20\<rparr>" "\<lparr>dwHighDateTime = 0, dwLowDateTime = 100\<rparr>"
      "\<lparr>dwHighDateTime = 0, dwLowDateTime = 30\<rparr>" "\<lparr>dwHighDateTime = 0, dwLowDateTime = 150\<rparr>" 200]
  by (simp add: filetime_def)

end
