(* ===== verification/Server.thy ===== *)
theory Server
  imports Session_Manager IOCP_Service Sysutil
begin

text \<open>
  The class \<^verbatim>\<open>svr::Server\<close>, which puts the parts together: a session of its own, a session manager,
  the I/O module, the thread pool and a key-value map; and the program's \<^verbatim>\<open>main\<close>. Its two callbacks
  only log and return 0.
\<close>

section \<open>State\<close>

datatype ServerType = PROCESSOR_SERVER | CONTROLER_SERVER

record ServerInfo =
  si_instanceName :: string
  si_serverIP :: string
  si_serverType :: ServerType
  si_port :: int
  si_status :: Status
  si_responseTime :: int
  si_score :: int

text \<open>
  \<open>recv_pServer\<close> and \<open>send_pServer\<close> say whether the callbacks know their server. The members for a
  parent node and child nodes, which nothing reads or writes, are left out.
\<close>

record 'l Server =
  instanceInfo :: ServerInfo
  recv_pServer :: bool
  send_pServer :: bool
  sv_kv_map :: "(string, addr) smap"
  pServerSession :: "'l Session"
  sessionManager :: "'l SessionManager"
  pIOCPModule :: "'l IOCPModule"
  threadPool :: ThreadPool
  sv_lock :: "'l SRWLock"
  daemonThreadWakeInternal :: int
  eventQueueSize :: int
  sv_bufferSize :: int

text \<open>The addresses of the members \<^verbatim>\<open>recvCallback\<close> and \<^verbatim>\<open>sendCallback\<close>.\<close>

definition RECV_CALLBACK :: addr where
  "RECV_CALLBACK = 1"

definition SEND_CALLBACK :: addr where
  "SEND_CALLBACK = 2"

section \<open>Methods\<close>

text \<open>
  The members are constructed first, then the body runs, which creates the I/O module with a thread
  pool of its own. Either pool may end the process if the system cannot create it.
  \<open>garbage\<close> is what the I/O module's handle starts with.
\<close>

definition Server_create ::
  "'l srw_api \<Rightarrow> bool \<Rightarrow> bool \<Rightarrow> bool \<Rightarrow> ServerInfo \<Rightarrow> int \<Rightarrow> int \<Rightarrow> 'l Server res" where
  "Server_create api garbage pool grp info bufSize queueSize =
     bindR (ThreadPool_create pool grp 4 64) (\<lambda>tp.
     bindR (ThreadPool_create pool grp 4 64) (\<lambda>_.
       Inr \<lparr>instanceInfo = info, recv_pServer = False, send_pServer = False, sv_kv_map = [],
            pServerSession = Session_create api ''server'' 682 STATUS_READY LEVEL_USER PRI_MEDIUM,
            sessionManager = SessionManager_create api,
            pIOCPModule = IOCPModule_create api garbage bufSize (si_port info), threadPool = tp,
            sv_lock = SRWLock_init api, daemonThreadWakeInternal = 5000, eventQueueSize = queueSize,
            sv_bufferSize = bufSize\<rparr>))"

text \<open>The destructor deletes the session; then the members are destroyed. The I/O module is not deleted.\<close>

definition Server_destroy :: "'l srw_api \<Rightarrow> heap \<times> 'l Server \<Rightarrow> heap res" where
  "Server_destroy api st =
     bindR (Session_destroy api (fst st, pServerSession (snd st))) (\<lambda>h.
     bindR (SessionManager_destroy api (h, sessionManager (snd st))) (\<lambda>(_, h, _). Inr h))"

text \<open>\<open>timer\<close> says whether the system could create the timer; the answer is not looked at.\<close>

definition Server_init :: "bool \<Rightarrow> 'l Server \<Rightarrow> (bool \<times> 'l Server) res" where
  "Server_init timer sv =
     bindR (setTimer (- 70000000) 7000 100 (snd (createTimerThread timer (threadPool sv)))) (\<lambda>tp.
       let sv = sv\<lparr>threadPool := tp, recv_pServer := True, send_pServer := True\<rparr>;
           sv = sv\<lparr>pIOCPModule := snd (setRecvCallback RECV_CALLBACK (pIOCPModule sv))\<rparr>;
           sv = sv\<lparr>pIOCPModule := snd (setSendCallback SEND_CALLBACK (pIOCPModule sv))\<rparr>
       in Inr (True, sv))"

text \<open>
  The daemon loop of \<^verbatim>\<open>IOCPModule::run\<close>: \<open>seen i\<close> is the status its \<open>i\<close>-th check sees (other
  threads change it); the result is how often it woke up, \<open>None\<close> if it did not end within the fuel.
\<close>

fun daemon_loop :: "nat \<Rightarrow> (nat \<Rightarrow> Status) \<Rightarrow> nat \<Rightarrow> nat option" where
  "daemon_loop 0 seen i = None"
| "daemon_loop (Suc fuel) seen i = (if seen i \<noteq> STATUS_HALT then daemon_loop fuel seen (Suc i) else Some i)"

definition IOCPModule_run ::
  "'l srw_api \<Rightarrow> os \<Rightarrow> nat \<Rightarrow> (nat \<Rightarrow> Status) \<Rightarrow> 'l IOCPModule \<Rightarrow> (nat option \<times> 'l IOCPModule) res" where
  "IOCPModule_run api os fuel seen s =
     bindR (initIOCP api os s) (\<lambda>(ok, s). if ok then Inr (daemon_loop fuel seen 0, s) else Inr (Some 0, s))"

definition Server_run ::
  "'l srw_api \<Rightarrow> os \<Rightarrow> nat \<Rightarrow> (nat \<Rightarrow> Status) \<Rightarrow> 'l Server \<Rightarrow> (int option \<times> 'l Server) res" where
  "Server_run api os fuel seen sv =
     bindR (IOCPModule_run api os fuel seen (pIOCPModule sv)) (\<lambda>(ended, s).
       Inr (map_option (\<lambda>_. 0) ended, sv\<lparr>pIOCPModule := s\<rparr>))"

definition RecvCallback_run :: "addr \<Rightarrow> string \<Rightarrow> int \<Rightarrow> int" where
  "RecvCallback_run pSC data len = 0"

definition SendCallback_run :: "addr \<Rightarrow> string \<Rightarrow> int \<Rightarrow> int" where
  "SendCallback_run pSC data len = 0"

definition set_sv_lock :: "'l SRWLock \<Rightarrow> 'l Server \<Rightarrow> 'l Server" where
  "set_sv_lock l sv = sv\<lparr>sv_lock := l\<rparr>"

definition sv_put :: "'l srw_api \<Rightarrow> string \<Rightarrow> addr \<Rightarrow> 'l Server \<Rightarrow> (bool \<times> 'l Server) res" where
  "sv_put api key v =
     exclusive api sv_lock set_sv_lock (\<lambda>sv. Inr (True, sv\<lparr>sv_kv_map := smap_put key v (sv_kv_map sv)\<rparr>))"

definition sv_get :: "'l srw_api \<Rightarrow> string \<Rightarrow> 'l Server \<Rightarrow> ((bool \<times> addr) \<times> 'l Server) res" where
  "sv_get api key =
     exclusive api sv_lock set_sv_lock (\<lambda>sv.
       Inr (case map_of (sv_kv_map sv) key of None \<Rightarrow> (False, 0) | Some v \<Rightarrow> (True, v), sv))"

definition sv_remove :: "'l srw_api \<Rightarrow> string \<Rightarrow> 'l Server \<Rightarrow> (bool \<times> 'l Server) res" where
  "sv_remove api key =
     exclusive api sv_lock set_sv_lock (\<lambda>sv.
       case map_of (sv_kv_map sv) key of
         None \<Rightarrow> Inr (False, sv)
       | Some v \<Rightarrow> Inr (False, sv\<lparr>sv_kv_map := smap_erase key (sv_kv_map sv)\<rparr>))"

text \<open>\<^verbatim>\<open>main\<close>; \<open>info\<close> is the configuration with the fields it does not set.\<close>

definition main_server ::
  "'l srw_api \<Rightarrow> os \<Rightarrow> bool \<Rightarrow> bool \<Rightarrow> bool \<Rightarrow> bool \<Rightarrow> nat \<Rightarrow> (nat \<Rightarrow> Status) \<Rightarrow> ServerInfo \<Rightarrow> (int option \<times> 'l Server) res" where
  "main_server api os garbage pool grp timer fuel seen info =
     bindR (Server_create api garbage pool grp (info\<lparr>si_port := 6001, si_instanceName := ''server''\<rparr>)
       DEFAULT_BUF_SIZ DEFAULT_QUEUE_SIZE) (\<lambda>sv.
     bindR (Server_init timer sv) (\<lambda>(_, sv). Server_run api os fuel seen sv))"

section \<open>The key-value map\<close>

definition sv_ok :: "'l srw_api \<Rightarrow> 'l Server \<Rightarrow> bool" where
  "sv_ok api sv \<longleftrightarrow> idle api (sv_lock sv) \<and> smap_ok (sv_kv_map sv)"

context srw_laws
begin

lemma sv_put_eq: "sv_ok api sv \<Longrightarrow> sv_put api k v sv = Inr (True, sv\<lparr>sv_kv_map := smap_put k v (sv_kv_map sv)\<rparr>)"
  unfolding sv_put_def by (rule exclusive_eq) (simp_all add: sv_ok_def set_sv_lock_def)

lemma sv_get_eq:
  "sv_ok api sv \<Longrightarrow> sv_get api k sv = Inr (case map_of (sv_kv_map sv) k of None \<Rightarrow> (False, 0) | Some v \<Rightarrow> (True, v), sv)"
  unfolding sv_get_def by (rule exclusive_eq) (simp_all add: sv_ok_def set_sv_lock_def)

lemma sv_remove_eq: "sv_ok api sv \<Longrightarrow> sv_remove api k sv = Inr (False, sv\<lparr>sv_kv_map := smap_erase k (sv_kv_map sv)\<rparr>)"
  unfolding sv_remove_def
  by (rule exclusive_eq) (auto simp: sv_ok_def set_sv_lock_def smap_erase_absent split: option.split)

lemma sv_ok_put: "sv_ok api sv \<Longrightarrow> sv_ok api (sv\<lparr>sv_kv_map := smap_put k v (sv_kv_map sv)\<rparr>)"
  by (simp add: sv_ok_def smap.ok_put)

lemma sv_ok_erase: "sv_ok api sv \<Longrightarrow> sv_ok api (sv\<lparr>sv_kv_map := smap_erase k (sv_kv_map sv)\<rparr>)"
  by (simp add: sv_ok_def smap_ok_erase)

end

sublocale srw_laws \<subseteq> server_kv:
  kv_store "sv_ok api" "\<lambda>sv. map_of (sv_kv_map sv)" "sv_put api" "sv_get api" "sv_remove api"
proof unfold_locales
  fix sv :: "'l Server" and k v
  assume ok: "sv_ok api sv"
  then have map: "smap_ok (sv_kv_map sv)" by (simp add: sv_ok_def)
  show "\<exists>s'. sv_put api k v sv = Inr (True, s') \<and> sv_ok api s' \<and> map_of (sv_kv_map s') = (map_of (sv_kv_map sv))(k \<mapsto> v)"
    using sv_put_eq [OF ok] sv_ok_put [OF ok] map by (simp add: smap.find_put)
  show "sv_get api k sv = Inr (case map_of (sv_kv_map sv) k of None \<Rightarrow> (False, 0) | Some v \<Rightarrow> (True, v), sv)"
    by (rule sv_get_eq [OF ok])
  show "\<exists>s'. sv_remove api k sv = Inr (False, s') \<and> sv_ok api s' \<and> map_of (sv_kv_map s') = (map_of (sv_kv_map sv))(k := None)"
    using sv_remove_eq [OF ok] sv_ok_erase [OF ok] by (simp add: map_of_smap_erase)
qed

section \<open>Starting to listen\<close>

text \<open>A system that lets everything succeed that starting needs.\<close>

definition os_starts :: "os \<Rightarrow> bool" where
  "os_starts os \<longleftrightarrow> (\<forall>n. WSASocket os n \<and> CreateIoCompletionPort os n \<and> os_bind os n \<and> os_listen os n \<and> WSAIoctl os n \<and> AcceptEx os n \<and> CreateThreadpoolWork os n)"

text \<open>What starting keeps: the invariant, the listening connection, the lock, the callbacks.\<close>

definition starting :: "'l srw_api \<Rightarrow> 'l IOCPModule \<Rightarrow> 'l IOCPModule \<Rightarrow> bool" where
  "starting api s s' \<longleftrightarrow> io_ok api s' \<and> scs s' LISTEN \<noteq> None \<and> io_lock s' = io_lock s \<and>
     pRecvCallback s' = pRecvCallback s \<and> pSendCallback s' = pSendCallback s \<and> maxStandbySocket s' = maxStandbySocket s \<and>
     IOCPThreadPool s' = IOCPThreadPool s \<and> port_queue s' = port_queue s \<and> io_counts s' = io_counts s \<and>
     (\<forall>p. standby_ok s p \<longrightarrow> standby_ok s' p)"

context srw_laws
begin

lemma standby_socket_ok:
  assumes "io_ok api s" and "scs s LISTEN \<noteq> None" and "os_starts os"
  shows "\<exists>s'. standby_socket api os s = Inr s' \<and> starting api s s' \<and> pending s' = next_obj s # pending s \<and> standby_ok s' (next_obj s)"
proof -
  obtain sc where sc: "scs s LISTEN = Some sc" using assms(2) by blast
  from createIOCPContext_ok [OF assms(1) sc, of DEFAULT_BUF_SIZ] obtain h where h:
    "createIOCPContext api LISTEN DEFAULT_BUF_SIZ s = Inr (next_obj s, created LISTEN DEFAULT_BUF_SIZ sc h s)"
    "io_ok api (created LISTEN DEFAULT_BUF_SIZ sc h s)" by (auto simp: DEFAULT_BUF_SIZ_def)
  let ?p = "next_obj s" and ?u = "created LISTEN DEFAULT_BUF_SIZ sc h s"
  obtain ic where ic: "ics ?u ?p = Some ic" "wsabuf_len ic = nat DEFAULT_BUF_SIZ" by (simp add: created_def Let_def fresh_ic_def)
  have iok: "ics_ok ?u" using h(2) by (simp add: io_ok_def)
  have g: "get_ic ?p ?u = Inr ic" "?p \<noteq> 0" using ics_okD(1,3) [OF iok ic(1)] by auto
  let ?v = "put_ic ?p (ic\<lparr>ic_operation := SIG_ACCEPT\<rparr>) ?u"
  have vok: "io_ok api ?v" using h(2) ic by (intro IOCP_put_keeps) auto
  have vg: "get_ic ?p ?v = Inr (ic\<lparr>ic_operation := SIG_ACCEPT\<rparr>)" using g(2) by (simp add: get_ic_def)
  obtain s' where s': "postAccept os ?p ?v = Inr (True, s')" "pending s' = ?p # pending s" "scs s' = scs ?v" "io_lock s' = io_lock s"
    "pRecvCallback s' = pRecvCallback s" "pSendCallback s' = pSendCallback s" "maxStandbySocket s' = maxStandbySocket s" "IOCPThreadPool s' = IOCPThreadPool s"
    "port_queue s' = port_queue s" "io_counts s' = io_counts s"
    "ics s' = (ics s)(?p \<mapsto> ic\<lparr>ic_operation := SIG_ACCEPT, ic_socket := Some (next_sock s)\<rparr>)"
    using assms(3) g(2) vg
    by (simp add: postAccept_def new_socket_def ask_def os_starts_def Let_def) (simp add: put_ic_def created_def Let_def io_counts_def)
  moreover have "io_ok api s'" using returnsD [OF postAccept_keeps [OF vok] s'(1)] by simp
  moreover have "scs ?v LISTEN \<noteq> None" by (simp add: created_def Let_def)
  moreover have own: "owns s' LISTEN ?p \<and> (\<forall>q. owns s LISTEN q \<longrightarrow> owns s' LISTEN q)"
  proof -
    have "smap_ok (IOCPContextMap sc)" "\<And>k q. map_of (IOCPContextMap sc) k = Some q \<Longrightarrow> k \<le> sc_count sc"
      using scs_okD(4) [OF _ sc] assms(1) by (auto simp: io_ok_def sc_ok_def)
    moreover from this(2) have "map_of (IOCPContextMap sc) k = Some q \<Longrightarrow> k \<noteq> sc_count sc + 1" for k q by fastforce
    ultimately have "map_of (smap_put (sc_count sc + 1) ?p (IOCPContextMap sc)) (sc_count sc + 1) = Some ?p"
      "\<And>k q. map_of (IOCPContextMap sc) k = Some q \<Longrightarrow> map_of (smap_put (sc_count sc + 1) ?p (IOCPContextMap sc)) k = Some q"
      by (auto simp: smap.find_put)
    then show ?thesis using sc s'(3) by (auto simp: owns_def created_def Let_def put_ic_def)
  qed
  moreover have "ics s ?p = None" using ics_okD(2) [of s ?p] assms(1) by (cases "ics s ?p") (auto simp: io_ok_def)
  then have "standby_ok s' ?p" "standby_ok s q \<Longrightarrow> standby_ok s' q" for q
    using own ic(2) s'(2,11) by (auto simp: standby_ok_def)
  ultimately show ?thesis using h(1) g(1) by (simp add: standby_socket_def starting_def)
qed

lemma standby_sockets_ok:
  "os_starts os \<Longrightarrow> io_ok api s \<Longrightarrow> scs s LISTEN \<noteq> None \<Longrightarrow>
   \<exists>s'. foldR (\<lambda>_. standby_socket api os) (xs :: nat list) s = Inr s' \<and> starting api s s' \<and>
     length (pending s') = length xs + length (pending s) \<and>
     ((\<forall>p \<in> set (pending s). standby_ok s p) \<longrightarrow> (\<forall>p \<in> set (pending s'). standby_ok s' p))"
proof (induction xs arbitrary: s)
  case Nil
  then show ?case by (simp add: starting_def)
next
  case (Cons x xs)
  obtain s1 where s1: "standby_socket api os s = Inr s1" "starting api s s1" "pending s1 = next_obj s # pending s" "standby_ok s1 (next_obj s)"
    using standby_socket_ok [OF Cons.prems(2,3,1)] by blast
  then have "io_ok api s1" "scs s1 LISTEN \<noteq> None" by (simp_all add: starting_def)
  from Cons.IH [OF Cons.prems(1) this] obtain s' where "foldR (\<lambda>_. standby_socket api os) xs s1 = Inr s'" "starting api s1 s'"
    "length (pending s') = length xs + length (pending s1)"
    "(\<forall>p \<in> set (pending s1). standby_ok s1 p) \<longrightarrow> (\<forall>p \<in> set (pending s'). standby_ok s' p)" by blast
  with s1 show ?case by (auto simp: starting_def)
qed

lemma initIOCP_ok:
  assumes "io_ok api s" and "scs s LISTEN = Some sc" and "idle api (io_lock s)" and "os_starts os"
    and "IOCPThreadPool s = ThreadPool_members 4 64"
  shows "\<exists>s'. initIOCP api os s = Inr (True, s') \<and> io_status s' = STATUS_RUNNING \<and> io_ok api s' \<and>
     length (pending s') = maxStandbySocket s + length (pending s) \<and>
     pRecvCallback s' = pRecvCallback s \<and> pSendCallback s' = pSendCallback s \<and>
     tp_log (IOCPThreadPool s') = replicate (maxThreadNum s) (SubmitThreadpoolWork 0) \<and>
     (pending s = [] \<longrightarrow> port_queue s = [] \<longrightarrow> serving api (pending s') (s', []) \<and> io_counts s' = (0, 0, 0))"
proof -
  let ?s0 = "s\<lparr>connectNum := 0, normallyClosedNum := 0, errorNum := 0, callbackInvokedNum := 0, tick := Suc (Suc (tick s)),
      next_sock := Suc (next_sock s), open_socks := next_sock s # open_socks s\<rparr>"
  let ?s1 = "put_sc LISTEN (sc\<lparr>sc_socket := Some (next_sock s), sc_addr := (0, nat (io_port s))\<rparr>) ?s0"
  have ok1: "io_ok api ?s1" by (rule io_ok_put_sc [of _ _ _ sc]) (use assms(1,2) in auto)
  let ?tp = "\<lparr>ThreadMinimum = 4, ThreadMaximum = 64, ptpWork = Some 0, ptpWait = None, ptpTimer = None, tp_objects = 1,
      tp_log = replicate (maxThreadNum s) (SubmitThreadpoolWork 0)\<rparr>"
  let ?s2 = "?s1\<lparr>tick := Suc (Suc (Suc (Suc (Suc (Suc (Suc (tick ?s1))))))), hIOCP := True, IOCPThreadPool := ?tp\<rparr>"
  have ok2: "io_ok api (set_io_lock l ?s2)" "scs (set_io_lock l ?s2) LISTEN \<noteq> None" for l
    using ok1 by (simp_all add: set_io_lock_def)
  let ?body = "\<lambda>s. bindR (foldR (\<lambda>_. standby_socket api os) [0..<maxStandbySocket s] s) (\<lambda>s. Inr ((), s))"
  have "\<exists>s'. exclusive api io_lock set_io_lock ?body ?s2 = Inr ((), s') \<and> io_lock s' = io_lock ?s2 \<and>
     (io_ok api s' \<and> pRecvCallback s' = pRecvCallback s \<and> pSendCallback s' = pSendCallback s \<and>
      length (pending s') = maxStandbySocket s + length (pending s) \<and> IOCPThreadPool s' = ?tp \<and>
      (pending s = [] \<longrightarrow> (\<forall>p \<in> set (pending s'). standby_ok s' p)) \<and> port_queue s' = port_queue s \<and> io_counts s' = (0, 0, 0))"
  proof (rule exclusive_run)
    show "idle api (io_lock ?s2)" using assms(3) by (simp add: put_sc_def)
    fix l
    have m: "maxStandbySocket (set_io_lock l ?s2) = maxStandbySocket s" "pending (set_io_lock l ?s2) = pending s"
      "io_lock (set_io_lock l ?s2) = l" "pRecvCallback (set_io_lock l ?s2) = pRecvCallback s" "pSendCallback (set_io_lock l ?s2) = pSendCallback s"
      "IOCPThreadPool (set_io_lock l ?s2) = ?tp" "port_queue (set_io_lock l ?s2) = port_queue s" "io_counts (set_io_lock l ?s2) = (0, 0, 0)"
      by (simp_all add: set_io_lock_def put_sc_def io_counts_def)
    from standby_sockets_ok [OF assms(4) ok2, of "[0..<maxStandbySocket (set_io_lock l ?s2)]" l] m
    show "\<exists>s'. ?body (set_io_lock l ?s2) = Inr ((), s') \<and> io_lock s' = l \<and>
     (io_ok api s' \<and> pRecvCallback s' = pRecvCallback s \<and> pSendCallback s' = pSendCallback s \<and>
      length (pending s') = maxStandbySocket s + length (pending s) \<and> IOCPThreadPool s' = ?tp \<and>
      (pending s = [] \<longrightarrow> (\<forall>p \<in> set (pending s'). standby_ok s' p)) \<and> port_queue s' = port_queue s \<and> io_counts s' = (0, 0, 0))"
      by (auto simp: starting_def)
  qed (simp add: set_io_lock_def standby_ok_def owns_def)
  then obtain s' where s': "exclusive api io_lock set_io_lock ?body ?s2 = Inr ((), s')" "io_ok api s'"
    "pRecvCallback s' = pRecvCallback s" "pSendCallback s' = pSendCallback s" "length (pending s') = maxStandbySocket s + length (pending s)"
    "IOCPThreadPool s' = ?tp" "pending s = [] \<longrightarrow> (\<forall>p \<in> set (pending s'). standby_ok s' p)" "port_queue s' = port_queue s"
    "io_counts s' = (0, 0, 0)" "io_lock s' = io_lock ?s2"
    by blast
  have lock: "io_lock ?s2 = io_lock s" by (simp add: put_sc_def)
  have "initIOCP api os s = bindR (exclusive api io_lock set_io_lock ?body ?s2) (\<lambda>(_, s). Inr (True, s\<lparr>io_status := STATUS_RUNNING\<rparr>))"
    using assms(2,4,5)
    by (cases s) (simp add: initIOCP_def start_workers_def createWorkThread_def ThreadPool_members_def submit_loop Let_def LoadSocketLib_def ask_def new_socket_def GetFunctionAddress_def
        os_starts_def get_sc_def LISTEN_def put_sc_def)
  moreover have "serving api (pending s') (s'\<lparr>io_status := STATUS_RUNNING\<rparr>, [])" if "pending s = []" "port_queue s = []"
    using s'(2,7,8,10) lock assms(3) that by (simp add: serving_def standby_ok_def owns_def)
  moreover have "io_counts (s'\<lparr>io_status := STATUS_RUNNING\<rparr>) = (0, 0, 0)" using s'(9) by (simp add: io_counts_def)
  ultimately show ?thesis using s' by simp
qed

end

lemma daemon_loop_ends: "daemon_loop fuel seen i \<noteq> None \<longleftrightarrow> (\<exists>j. i \<le> j \<and> j < i + fuel \<and> seen j = STATUS_HALT)"
proof (induction fuel arbitrary: i)
  case (Suc fuel)
  have "(\<exists>j. i \<le> j \<and> j < i + Suc fuel \<and> seen j = STATUS_HALT) \<longleftrightarrow>
      seen i = STATUS_HALT \<or> (\<exists>j. Suc i \<le> j \<and> j < Suc i + fuel \<and> seen j = STATUS_HALT)"
    by (auto simp: less_Suc_eq_le) (metis Suc_leI le_neq_implies_less, metis Suc_leD)
  with Suc show ?case by auto
qed simp

lemma main_server_starts:
  assumes "srw_laws api" and "os_starts os"
  obtains sv where
    "main_server api os garbage True True True fuel seen info = Inr (if \<exists>j < fuel. seen j = STATUS_HALT then Some 0 else None, sv)"
    "io_ok api (pIOCPModule sv)" "io_status (pIOCPModule sv) = STATUS_RUNNING" "length (pending (pIOCPModule sv)) = 1"
    "pRecvCallback (pIOCPModule sv) = RECV_CALLBACK" "pSendCallback (pIOCPModule sv) = SEND_CALLBACK"
    "recv_pServer sv" "send_pServer sv" "tp_log (IOCPThreadPool (pIOCPModule sv)) = [SubmitThreadpoolWork 0]"
    "serving api (pending (pIOCPModule sv)) (pIOCPModule sv, [])" "io_counts (pIOCPModule sv) = (0, 0, 0)"
proof -
  let ?m = "(IOCPModule_create api garbage DEFAULT_BUF_SIZ 6001)\<lparr>pRecvCallback := RECV_CALLBACK, pSendCallback := SEND_CALLBACK\<rparr>"
  have m: "io_ok api ?m" "scs ?m LISTEN = Some (SocketContext_new api)" "idle api (io_lock ?m)" "maxStandbySocket ?m = 1" "pending ?m = []"
    "IOCPThreadPool ?m = ThreadPool_members 4 64" "maxThreadNum ?m = 1" "port_queue ?m = []"
    using srw_laws.IOCPModule_start_ok [OF assms(1)]
    by (simp_all add: IOCPModule_create_def) (simp_all add: IOCPModule_start_def idle_def SRWLock_init_def)
  from srw_laws.initIOCP_ok [OF assms(1) m(1-3) assms(2) m(6)] m(4,5,7,8) obtain s' where s': "initIOCP api os ?m = Inr (True, s')"
    "io_status s' = STATUS_RUNNING" "io_ok api s'" "length (pending s') = 1"
    "pRecvCallback s' = RECV_CALLBACK" "pSendCallback s' = SEND_CALLBACK"
    "tp_log (IOCPThreadPool s') = [SubmitThreadpoolWork 0]" "serving api (pending s') (s', [])" "io_counts s' = (0, 0, 0)" by auto
  have r: "map_option (\<lambda>_. 0 :: int) (daemon_loop fuel seen 0) = (if \<exists>j < fuel. seen j = STATUS_HALT then Some 0 else None)"
    using daemon_loop_ends [of fuel seen 0] by (cases "daemon_loop fuel seen 0") auto
  have "\<exists>sv. main_server api os garbage True True True fuel seen info = Inr (if \<exists>j < fuel. seen j = STATUS_HALT then Some 0 else None, sv) \<and>
      pIOCPModule sv = s' \<and> recv_pServer sv \<and> send_pServer sv"
    using s'(1) r
    by (simp add: main_server_def Server_create_def ThreadPool_create_def ThreadPool_members_def Server_init_def createTimerThread_def setTimer_def Let_def
        setRecvCallback_def setSendCallback_def RECV_CALLBACK_def SEND_CALLBACK_def Server_run_def IOCPModule_run_def)
  with s' that show ?thesis by blast
qed

section \<open>Properties\<close>

text \<open>
  C14. The program starts: when the system creates the thread pool and the timer and lets the sockets
  be set up, \<^verbatim>\<open>main\<close> brings the server to a running I/O module with one pending accept and one worker, with its own
  callbacks installed and a well-formed state, and it returns 0 exactly if the module's status becomes
  halted; when the timer cannot be created, the server sets a timer that does not exist.
\<close>

theorem main_server_listens:
  assumes "srw_laws api" and "os_starts os"
  shows "if timer
     then \<exists>r sv. main_server api os garbage True True timer fuel seen info = Inr (r, sv) \<and>
       r = (if \<exists>j < fuel. seen j = STATUS_HALT then Some 0 else None) \<and>
       io_ok api (pIOCPModule sv) \<and> io_status (pIOCPModule sv) = STATUS_RUNNING \<and> length (pending (pIOCPModule sv)) = 1 \<and>
       pRecvCallback (pIOCPModule sv) = RECV_CALLBACK \<and> pSendCallback (pIOCPModule sv) = SEND_CALLBACK \<and>
       recv_pServer sv \<and> send_pServer sv \<and> tp_log (IOCPThreadPool (pIOCPModule sv)) = [SubmitThreadpoolWork 0]
     else main_server api os garbage True True timer fuel seen info = Inl Uninitialised"
proof (cases timer)
  case True
  show ?thesis by (rule main_server_starts [OF assms, of garbage fuel seen info]) (simp add: True)
next
  case False
  then show ?thesis
    by (simp add: main_server_def Server_create_def ThreadPool_create_def ThreadPool_members_def Server_init_def createTimerThread_def setTimer_def Let_def)
qed

lemma main_server_listens_witness:
  "\<exists>sv. main_server srw_ref idle_os False True True True 5 (\<lambda>i. if i < 3 then STATUS_RUNNING else STATUS_HALT)
       \<lparr>si_instanceName = [], si_serverIP = [], si_serverType = PROCESSOR_SERVER, si_port = 0, si_status = STATUS_READY,
        si_responseTime = 0, si_score = 0\<rparr> = Inr (Some 0, sv) \<and> io_status (pIOCPModule sv) = STATUS_RUNNING"
proof -
  have os: "os_starts idle_os" by (simp add: os_starts_def idle_os_def)
  have "\<exists>j < 5 :: nat. (if j < 3 then STATUS_RUNNING else STATUS_HALT) = STATUS_HALT" by (rule exI [of _ 3]) simp
  with main_server_listens [OF srw_ref.srw_laws_axioms os, of True False 5 "\<lambda>i. if i < 3 then STATUS_RUNNING else STATUS_HALT"
      "\<lparr>si_instanceName = [], si_serverIP = [], si_serverType = PROCESSOR_SERVER, si_port = 0, si_status = STATUS_READY,
        si_responseTime = 0, si_score = 0\<rparr>"]
  show ?thesis by auto
qed

text \<open>
  C13. The program serves its clients: after \<^verbatim>\<open>main\<close> has started the server on a system that lets its calls
  succeed, any traffic of clients that connect, send whole packets or other bytes, leave or are reset, and
  of accepts that fail, runs without a fault and is answered as the abstract service answers it from its
  start: no client is there and all counters are 0.
\<close>

theorem main_server_serves:
  assumes "srw_laws api" and "os_starts os" and "os_accepts os" and "\<forall>x \<in> set xs. orderly 1 x"
  shows "\<exists>r sv rs s cs. main_server api os garbage True True True fuel seen info = Inr (r, sv) \<and>
     runR (serve api os (pending (pIOCPModule sv))) xs (pIOCPModule sv, []) = Inr (rs, s, cs) \<and> io_ok api s \<and>
     run_spec service_step xs \<lparr>clients = [], opened = 0, ended = 0, failed = 0\<rparr> =
       (rs, \<lparr>clients = map (\<lambda>c. client_of s (fst c)) cs, opened = connectNum s, ended = normallyClosedNum s, failed = errorNum s\<rparr>)"
proof -
  obtain r sv where sv: "main_server api os garbage True True True fuel seen info = Inr (r, sv)"
    "length (pending (pIOCPModule sv)) = 1" "serving api (pending (pIOCPModule sv)) (pIOCPModule sv, [])"
    "io_counts (pIOCPModule sv) = (0, 0, 0)"
    by (rule main_server_starts [OF assms(1,2)]) (rule that)
  have "\<forall>x \<in> set xs. orderly (length (pending (pIOCPModule sv))) x" using assms(4) sv(2) by simp
  from serve_run [OF assms(1,3) sv(3) this] obtain rs s cs where
    "runR (serve api os (pending (pIOCPModule sv))) xs (pIOCPModule sv, []) = Inr (rs, s, cs)" "io_ok api s"
    "run_spec service_step xs (service_of (pIOCPModule sv, [])) = (rs, service_of (s, cs))" by (auto simp: serving_def)
  with sv(1,4) show ?thesis by (auto simp: service_of_def io_counts_def)
qed

lemma main_server_serves_witness:
  "\<exists>r sv s cs. main_server srw_ref idle_os False True True True 1 (\<lambda>_. STATUS_RUNNING)
       \<lparr>si_instanceName = [], si_serverIP = [], si_serverType = PROCESSOR_SERVER, si_port = 0, si_status = STATUS_READY,
        si_responseTime = 0, si_score = 0\<rparr> = Inr (r, sv) \<and>
     runR (serve srw_ref idle_os (pending (pIOCPModule sv))) [Arrive 0 example_message, Arrive 0 example_message, Leave 0, Chunk 1 [example_message] []]
       (pIOCPModule sv, []) =
     Inr ([[(None, Some (pkt_text example_message), 120)], [(None, Some (pkt_text example_message), 120)], [],
           [(Some 1, Some (pkt_text example_message), 120)]], s, cs) \<and>
     map (\<lambda>c. client_of s (fst c)) cs = [Leaving, Connected] \<and> connectNum s = 2"
proof -
  let ?xs = "[Arrive 0 example_message, Arrive 0 example_message, Leave 0, Chunk 1 [example_message] []]"
  have os: "os_starts idle_os" "os_accepts idle_os" by (simp_all add: os_starts_def os_accepts_def idle_os_def)
  have "\<forall>x \<in> set ?xs. orderly 1 x" using example_message_ok junk_short by (simp add: DEFAULT_BUF_SIZ_def chunk_text_def)
  from main_server_serves [OF srw_ref.srw_laws_axioms os this, of False 1 "\<lambda>_. STATUS_RUNNING"
      "\<lparr>si_instanceName = [], si_serverIP = [], si_serverType = PROCESSOR_SERVER, si_port = 0, si_status = STATUS_READY,
        si_responseTime = 0, si_score = 0\<rparr>"]
  show ?thesis using example_message_ok by (auto simp: is_client_def chunk_text_def simp del: runR.simps) 
qed

end
