(* ===== verification/Server_Runs.thy ===== *)
theory Server_Runs
  imports Server
begin

text \<open>
  The server as a whole over time: the calls its clients can make on its parts, the steps of its I/O
  module, and the invariant that every run keeps.
\<close>

section \<open>Calls\<close>

text \<open>
  What clients can call on a server: its own session, the session manager, its key-value map and
  \<^verbatim>\<open>init\<close>. The state is the heap of the events with the server.
\<close>

type_synonym 'l server_state = "heap \<times> 'l Server"

datatype 'l server_request =
    SessionCall "Event deque_op"
  | SessionPut string addr
  | SessionRemove string
  | ManagerCall "(string \<Rightarrow> 'l mgr \<Rightarrow> 'l mgr res) mgr_op"
  | ServerPut string addr
  | ServerGet string
  | ServerRemove string
  | ServerInit bool

definition on_session ::
  "('l sess \<Rightarrow> ('a \<times> 'l sess) res) \<Rightarrow> 'l server_state \<Rightarrow> 'l server_state res" where
  "on_session f st =
     bindR (f (fst st, pServerSession (snd st))) (\<lambda>(_, h, s). Inr (h, (snd st)\<lparr>pServerSession := s\<rparr>))"

definition on_manager ::
  "('l mgr \<Rightarrow> ('a \<times> 'l mgr) res) \<Rightarrow> 'l server_state \<Rightarrow> 'l server_state res" where
  "on_manager f st =
     bindR (f (fst st, sessionManager (snd st))) (\<lambda>(_, h, m). Inr (h, (snd st)\<lparr>sessionManager := m\<rparr>))"

definition on_server :: "('l Server \<Rightarrow> ('a \<times> 'l Server) res) \<Rightarrow> 'l server_state \<Rightarrow> 'l server_state res" where
  "on_server f st = bindR (f (snd st)) (\<lambda>(_, sv). Inr (fst st, sv))"

fun server_call :: "'l srw_api \<Rightarrow> 'l server_request \<Rightarrow> 'l server_state \<Rightarrow> 'l server_state res" where
  "server_call api (SessionCall x) = on_session (session_step api x)"
| "server_call api (SessionPut k v) = on_session (s_put api k v)"
| "server_call api (SessionRemove k) = on_session (s_remove api k)"
| "server_call api (ManagerCall x) = on_manager (manager_step api x)"
| "server_call api (ServerPut k v) = on_server (sv_put api k v)"
| "server_call api (ServerGet k) = on_server (sv_get api k)"
| "server_call api (ServerRemove k) = on_server (sv_remove api k)"
| "server_call api (ServerInit timer) = on_server (Server_init timer)"

text \<open>
  What a caller has to see to: events it pushes are well-formed and not the session's own, and the
  server is not initialised before a timer object was created.
\<close>

definition call_typed :: "'l server_state \<Rightarrow> 'l server_request \<Rightarrow> bool" where
  "call_typed st c = (case c of
     SessionCall x \<Rightarrow> op_ok (fst st, pServerSession (snd st)) x
   | ServerInit timer \<Rightarrow> timer \<or> ptpTimer (threadPool (snd st)) \<noteq> None
   | _ \<Rightarrow> True)"

section \<open>Well-formed servers\<close>

definition server_typed :: "'l srw_api \<Rightarrow> 'l server_state \<Rightarrow> bool" where
  "server_typed api st \<longleftrightarrow> (case st of (h, sv) \<Rightarrow>
     sv_ok api sv \<and> sess_ok api (h, pServerSession sv) \<and>
     mgr_ok api (h, sessionManager sv) \<and> sm_sessionMap (sessionManager sv) = [] \<and>
     io_ok api (pIOCPModule sv))"

lemma server_typedI:
  assumes "server_typed api (h, sv)" and "sess_ok api (h', s)"
    and "\<And>x. x \<in> {sv, sv'} \<Longrightarrow> sv_ok api x" and "sessionManager sv' = sessionManager sv"
    and "pServerSession sv' = s" and "io_ok api (pIOCPModule sv')"
  shows "server_typed api (h', sv')"
  using assms by (auto simp: server_typed_def mgr_ok_def sess_ok_def queue_ok_def slots_ok_def sessions_ok_def)

context srw_laws
begin

lemma session_call_typed:
  assumes "server_typed api (h, sv)" and "\<exists>r st'. f (h, pServerSession sv) = Inr (r, st') \<and> sess_ok api st'"
  shows "\<exists>st'. on_session f (h, sv) = Inr st' \<and> server_typed api st'"
proof -
  obtain r h' s where f: "f (h, pServerSession sv) = Inr (r, h', s)" "sess_ok api (h', s)" using assms(2) by fastforce
  moreover have "server_typed api (h', sv\<lparr>pServerSession := s\<rparr>)"
    by (rule server_typedI [OF assms(1) f(2)]) (use assms(1) in \<open>auto simp: server_typed_def sv_ok_def\<close>)
  ultimately show ?thesis by (simp add: on_session_def)
qed

lemma manager_call_typed:
  assumes "server_typed api (h, sv)"
  shows "\<exists>st'. on_manager (manager_step api x) (h, sv) = Inr st' \<and> server_typed api st'"
proof -
  let ?m = "sessionManager sv"
  have m: "idle api (sm_lock ?m)" "sm_sessionMap ?m = []" "smap_ok (sm_kv_map ?m)" "heap_ok h"
    using assms by (simp_all add: server_typed_def mgr_ok_def)
  obtain r m' where m': "manager_step api x (h, ?m) = Inr (r, h, m')" "idle api (sm_lock m')" "sm_sessionMap m' = []"
    "smap_ok (sm_kv_map m')" using manager_step_no_sessions [OF m(1,2), of x h] m(3) by blast
  then have "mgr_ok api (h, m')" using m(4) by (simp add: mgr_ok_def sessions_ok_def smap_ok_def)
  then show ?thesis using assms m'(1,3) by (simp add: on_manager_def server_typed_def sv_ok_def)
qed

lemma server_kv_call_typed:
  assumes "server_typed api (h, sv)" and "f sv = Inr (r, sv\<lparr>sv_kv_map := m\<rparr>)" and "smap_ok m"
  shows "\<exists>st'. on_server f (h, sv) = Inr st' \<and> server_typed api st'"
  using assms by (simp add: on_server_def server_typed_def sv_ok_def)

lemma Server_init_typed:
  assumes "server_typed api (h, sv)" and "timer \<or> ptpTimer (threadPool sv) \<noteq> None"
  shows "\<exists>st'. on_server (Server_init timer) (h, sv) = Inr st' \<and> server_typed api st'"
  using assms
  by (auto simp: on_server_def Server_init_def createTimerThread_def setTimer_def Let_def setRecvCallback_def setSendCallback_def
      server_typed_def sv_ok_def)

lemma server_call_typed:
  assumes "server_typed api (h, sv)" and "call_typed (h, sv) c"
  shows "\<exists>st'. server_call api c (h, sv) = Inr st' \<and> server_typed api st'"
proof -
  have ok: "sv_ok api sv" "sess_ok api (h, pServerSession sv)" "smap_ok (sv_kv_map sv)"
    using assms(1) by (simp_all add: server_typed_def sv_ok_def)
  show ?thesis
  proof (cases c)
    case (SessionCall x)
    with assms(2) have "op_ok (h, pServerSession sv) x" by (simp add: call_typed_def)
    from session_step_refines [OF ok(2) this] show ?thesis
      unfolding SessionCall server_call.simps by (intro session_call_typed [OF assms(1)]) blast
  next
    case (SessionPut k v)
    show ?thesis unfolding SessionPut server_call.simps
      using session_kv.put_ok [OF ok(2), of k v] by (intro session_call_typed [OF assms(1)]) blast
  next
    case (SessionRemove k)
    show ?thesis unfolding SessionRemove server_call.simps
      using session_kv.remove_ok [OF ok(2), of k] by (intro session_call_typed [OF assms(1)]) blast
  next
    case (ManagerCall x)
    then show ?thesis using manager_call_typed [OF assms(1)] by simp
  next
    case (ServerPut k v)
    show ?thesis unfolding ServerPut server_call.simps
      by (rule server_kv_call_typed [where f = "sv_put api k v"], rule assms(1), rule sv_put_eq [OF ok(1)], rule smap.ok_put [OF ok(3)])
  next
    case (ServerGet k)
    have "sv_get api k sv = Inr (case map_of (sv_kv_map sv) k of None \<Rightarrow> (False, 0) | Some v \<Rightarrow> (True, v), sv\<lparr>sv_kv_map := sv_kv_map sv\<rparr>)"
      using sv_get_eq [OF ok(1)] by simp
    then show ?thesis unfolding ServerGet server_call.simps
      by (rule server_kv_call_typed [where f = "sv_get api k", OF assms(1) _ ok(3)])
  next
    case (ServerRemove k)
    show ?thesis unfolding ServerRemove server_call.simps
      by (rule server_kv_call_typed [where f = "sv_remove api k"], rule assms(1), rule sv_remove_eq [OF ok(1)], rule smap_ok_erase [OF ok(3)])
  next
    case (ServerInit t)
    with assms(2) show ?thesis using Server_init_typed [OF assms(1)] by (simp add: call_typed_def)
  qed
qed

end

section \<open>Runs\<close>

text \<open>
  A run of the program's server: it is created on any heap, its clients call it, its I/O module takes
  a step (whatever the system answers), and the rest of the program changes blocks of the heap that do
  not belong to the session.
\<close>

inductive server_reach :: "'l srw_api \<Rightarrow> os \<Rightarrow> 'l server_state \<Rightarrow> bool" for api os where
  created: "heap_ok h \<Longrightarrow> Server_create api garbage pool grp info bufSize queueSize = Inr sv \<Longrightarrow> server_reach api os (h, sv)"
| called: "server_reach api os st \<Longrightarrow> call_typed st c \<Longrightarrow> server_call api c st = Inr st' \<Longrightarrow> server_reach api os st'"
| input_output: "server_reach api os (h, sv) \<Longrightarrow> io_step api os (pIOCPModule sv) s \<Longrightarrow> server_reach api os (h, sv\<lparr>pIOCPModule := s\<rparr>)"
| elsewhere: "server_reach api os (h, sv) \<Longrightarrow> heap_ok h' \<Longrightarrow>
     (\<And>p. p \<in> sess_owned (pServerSession sv) \<Longrightarrow> blocks h' p = blocks h p) \<Longrightarrow> server_reach api os (h', sv)"

lemma Server_create_typed:
  assumes "srw_laws api" and "heap_ok h" and "Server_create api garbage pool grp info bufSize queueSize = Inr sv"
  shows "server_typed api (h, sv)"
proof -
  have "io_ok api (IOCPModule_create api garbage bufSize (si_port info))"
    unfolding IOCPModule_create_def by (rule srw_laws.IOCPModule_start_ok [OF assms(1)])
  moreover have "pServerSession sv = Session_create api ''server'' 682 STATUS_READY LEVEL_USER PRI_MEDIUM"
    "sessionManager sv = SessionManager_create api" "sv_lock sv = SRWLock_init api" "sv_kv_map sv = []"
    "pIOCPModule sv = IOCPModule_create api garbage bufSize (si_port info)"
    using assms(3) by (auto simp: Server_create_def ThreadPool_create_def split: if_splits)
  ultimately show ?thesis
    using conjunct1 [OF Session_create_ok [OF assms(2), of api]] assms(2)
    by (auto simp: server_typed_def sv_ok_def mgr_ok_def SessionManager_create_def sessions_ok_def smap_ok_def idle_def SRWLock_init_def)
qed

lemma server_reach_typed:
  assumes "srw_laws api" and "server_reach api os st"
  shows "server_typed api st"
  using assms(2)
proof induction
  case (created h garbage pool grp info bufSize queueSize sv)
  then show ?case by (rule Server_create_typed [OF assms(1)])
next
  case (called st c st')
  then show ?case using srw_laws.server_call_typed [OF assms(1)] by (cases st) fastforce
next
  case (input_output h sv s)
  then have "io_ok api s" using io_step_keeps [OF assms(1)] by (auto simp: server_typed_def)
  with input_output.IH show ?case by (simp add: server_typed_def sv_ok_def)
next
  case (elsewhere h sv h')
  then have "sess_ok api (h', pServerSession sv)" using sess_ok_cong [of api h] by (simp add: server_typed_def)
  with elsewhere show ?case by (auto simp: server_typed_def mgr_ok_def sessions_ok_def)
qed

section \<open>Properties\<close>



end
