(* ===== verification/IOCP_Stop.thy ===== *)
theory IOCP_Stop
  imports IOCP_Lifecycle
begin

text \<open>
  How \<^verbatim>\<open>svr::IOCPModule::stopIOCP\<close> ends the worker threads: the exit signals it posts, the worker
  that takes one, and a worker that gets none.
\<close>

section \<open>Exit signals\<close>

text \<open>The exit signals posted from \<open>n\<close> on, \<open>k\<close> of them; each has its own connection and operation.\<close>

definition exits_from :: "addr \<Rightarrow> nat \<Rightarrow> (int \<times> addr \<times> addr) list" where
  "exits_from n k = map (\<lambda>i. (1, n + 2 * i, Suc (n + 2 * i))) [0..<k]"

text \<open>An exit signal whose connection is there with one operation that says so.\<close>

definition exit_ready :: "'l IOCPModule \<Rightarrow> int \<times> addr \<times> addr \<Rightarrow> bool" where
  "exit_ready s e \<longleftrightarrow> (case e of (b, p, q) \<Rightarrow> b = 1 \<and>
     (case (scs s p, ics s q) of
        (Some sc, Some ic) \<Rightarrow> IOCPContextMap sc = [(1, q)] \<and> ic_operation ic = SIG_EXIT
      | _ \<Rightarrow> False))"

lemma exit_readyD:
  "exit_ready s (b, p, q) \<Longrightarrow> b = 1 \<and> (\<exists>sc ic. scs s p = Some sc \<and> ics s q = Some ic \<and> IOCPContextMap sc = [(1, q)] \<and> ic_operation ic = SIG_EXIT)"
  by (auto simp: exit_ready_def split: option.splits)

lemma exit_ready_frame:
  "exit_ready s (b, p, q) \<Longrightarrow> scs s' p = scs s p \<Longrightarrow> ics s' q = ics s q \<Longrightarrow> exit_ready s' (b, p, q)"
  by (auto simp: exit_ready_def split: option.splits)

lemma exit_ready_lock: "exit_ready (set_io_lock l s) e = exit_ready s e"
  by (auto simp: exit_ready_def set_io_lock_def split: option.splits)

lemma exits_from_Suc: "exits_from n (Suc k) = exits_from n k @ [(1, n + 2 * k, Suc (n + 2 * k))]"
  by (simp add: exits_from_def)

lemma set_exits_from: "(b, p, q) \<in> set (exits_from n k) \<Longrightarrow> n \<le> p \<and> q = Suc p \<and> q < n + 2 * k"
  by (auto simp: exits_from_def)

lemma exits_from_distinct:
  "distinct (map (fst \<circ> snd) (exits_from n k))" "distinct (map (snd \<circ> snd) (exits_from n k))"
  by (auto simp: exits_from_def comp_def distinct_map intro!: inj_onI)

context srw_laws
begin

lemma post_exit_ok:
  assumes "io_ok api s"
  shows "\<exists>s'. post_exit api s = Inr s' \<and> io_ok api s' \<and> next_obj s' = next_obj s + 2 \<and>
     port_queue s' = port_queue s @ [(1, next_obj s, Suc (next_obj s))] \<and>
     (\<forall>a. a < next_obj s \<longrightarrow> scs s' a = scs s a \<and> ics s' a = ics s a) \<and>
     exit_ready s' (1, next_obj s, Suc (next_obj s)) \<and> io_lock s' = io_lock s"
proof -
  let ?p = "next_obj s" and ?q = "Suc (next_obj s)"
  obtain p u where u: "SocketContext_create api s = (p, u)" by (metis prod.exhaust)
  then have u': "p = ?p" "u = (put_sc ?p (SocketContext_new api) s)\<lparr>next_obj := ?q\<rparr>"
    by (auto simp: SocketContext_create_def)
  have ok: "io_ok api u" "scs u ?p = Some (SocketContext_new api)"
    using SocketContext_create_keeps [OF u assms] u'(1) by simp_all
  obtain h where h: "createIOCPContext api ?p DEFAULT_BUF_SIZ u = Inr (?q, created ?p DEFAULT_BUF_SIZ (SocketContext_new api) h u)"
    "io_ok api (created ?p DEFAULT_BUF_SIZ (SocketContext_new api) h u)"
    using createIOCPContext_ok [OF ok, of DEFAULT_BUF_SIZ] u'(2) by (auto simp: DEFAULT_BUF_SIZ_def)
  let ?v = "created ?p DEFAULT_BUF_SIZ (SocketContext_new api) h u"
  let ?c = "(fresh_ic (nat DEFAULT_BUF_SIZ) (hp_next (hp s)))\<lparr>contextIndex := 0\<rparr>"
  have v: "ics ?v ?q = Some ?c" by (simp add: created_def Let_def u'(2) put_sc_def SocketContext_new_def)
  have g: "get_ic ?q ?v = Inr ?c" using ics_okD(3) [OF _ v] h(2) by (simp add: io_ok_def)
  define s' where "s' = (put_ic ?q (?c\<lparr>ic_operation := SIG_EXIT\<rparr>) ?v)\<lparr>port_queue := port_queue s @ [(1, ?p, ?q)]\<rparr>"
  have "post_exit api s = Inr s'"
    unfolding post_exit_def using u u'(1) h(1) g
    by (simp add: s'_def put_ic_def) (simp add: created_def Let_def u'(2) put_sc_def)
  moreover have "io_ok api s'" using returnsD [OF post_exit_keeps [OF assms] calculation] .
  moreover have "next_obj s' = next_obj s + 2" "io_lock s' = io_lock s" "exit_ready s' (1, ?p, ?q)"
    "\<forall>a. a < ?p \<longrightarrow> scs s' a = scs s a \<and> ics s' a = ics s a"
    by (simp_all add: s'_def put_ic_def created_def Let_def u'(2) put_sc_def SocketContext_new_def exit_ready_def)
  ultimately show ?thesis by (intro exI [of _ s']) (simp add: s'_def)
qed

lemma post_exits_ok:
  assumes "io_ok api s"
  shows "\<exists>s'. foldR (\<lambda>_. post_exit api) [0..<k] s = Inr s' \<and> io_ok api s' \<and> next_obj s' = next_obj s + 2 * k \<and>
     port_queue s' = port_queue s @ exits_from (next_obj s) k \<and>
     (\<forall>a. a < next_obj s \<longrightarrow> scs s' a = scs s a \<and> ics s' a = ics s a) \<and>
     (\<forall>e \<in> set (exits_from (next_obj s) k). exit_ready s' e) \<and> io_lock s' = io_lock s"
proof (induction k)
  case (Suc k)
  then obtain s1 where s1: "foldR (\<lambda>_. post_exit api) [0..<k] s = Inr s1" "io_ok api s1" "next_obj s1 = next_obj s + 2 * k"
    "port_queue s1 = port_queue s @ exits_from (next_obj s) k" "\<forall>a. a < next_obj s \<longrightarrow> scs s1 a = scs s a \<and> ics s1 a = ics s a"
    "\<forall>e \<in> set (exits_from (next_obj s) k). exit_ready s1 e" "io_lock s1 = io_lock s" by blast
  obtain s2 where s2: "post_exit api s1 = Inr s2" "io_ok api s2" "next_obj s2 = next_obj s1 + 2"
    "port_queue s2 = port_queue s1 @ [(1, next_obj s1, Suc (next_obj s1))]"
    "\<forall>a. a < next_obj s1 \<longrightarrow> scs s2 a = scs s1 a \<and> ics s2 a = ics s1 a"
    "exit_ready s2 (1, next_obj s1, Suc (next_obj s1))" "io_lock s2 = io_lock s1"
    using post_exit_ok [OF s1(2)] by blast
  have "exit_ready s2 (b, p, q)" if "(b, p, q) \<in> set (exits_from (next_obj s) k)" for b p q
    using exit_ready_frame [of s1 b p q s2] s1(3,6) s2(5) set_exits_from [OF that] that by auto
  then have "\<forall>e \<in> set (exits_from (next_obj s) (Suc k)). exit_ready s2 e"
    using s2(6) s1(3) by (auto simp: exits_from_Suc)
  then show ?case
    using s1 s2 by (intro exI [of _ s2]) (simp add: foldR_append exits_from_Suc)
qed (simp add: assms exits_from_def)

end

section \<open>A worker takes an exit signal\<close>

context srw_laws
begin

lemma exit_turn:
  assumes "io_ok api s" and "exit_ready s (b, p, q)" and "\<And>n. QueryPerformanceCounter os n \<noteq> None"
  shows "\<exists>s'. IOCPWorkThread api os (Dequeued True b p q) work_thread_start s = Inr (work_thread_start\<lparr>wt_exit := True\<rparr>, s') \<and>
     io_ok api s' \<and> scs s' = (scs s)(p := None) \<and> ics s' = (ics s)(q := None)"
proof -
  from exit_readyD [OF assms(2)] obtain sc ic where e: "b = 1" "scs s p = Some sc" "ics s q = Some ic"
    "IOCPContextMap sc = [(1, q)]" "ic_operation ic = SIG_EXIT" by blast
  have ok: "ics_ok s" "scs_ok api s" using assms(1) by (simp_all add: io_ok_def)
  obtain t where t: "QueryPerformanceCounter os (tick s) = Some t" using assms(3) by blast
  define s1 where "s1 = put_sc p (sc\<lparr>sc_timer := t\<rparr>) (s\<lparr>tick := Suc (tick s)\<rparr>)"
  have "timer_start os p s = Inr s1"
    using scs_okD(3) [OF ok(2) e(2)] t by (simp add: timer_start_def ask_def s1_def)
  moreover have k: "io_ok api s1" unfolding s1_def using assms(1) e(2) by (auto intro!: io_ok_put_sc)
  moreover have f: "scs s1 p = Some (sc\<lparr>sc_timer := t\<rparr>)" "ics s1 = ics s" "scs s1 = (scs s)(p \<mapsto> sc\<lparr>sc_timer := t\<rparr>)"
    by (simp_all add: s1_def put_sc_def)
  moreover have "get_ic q s1 = Inr ic" by (rule ics_okD(3)) (use k f e in \<open>simp_all add: io_ok_def\<close>)
  moreover obtain s' where "SocketContext_delete p s1 = Inr s'" "io_ok api s'" "scs s' = (scs s1)(p := None)"
    "ics s' = ics s1 |` (- {q})"
    using SocketContext_delete_ok [OF k f(1)] e(4) by auto
  ultimately show ?thesis
    using e(1,5) by (intro exI [of _ s']) (auto simp: IOCPWorkThread_def work_completion_def restrict_map_def fun_eq_iff work_thread_start_def)
qed

lemma exits_end_workers:
  assumes "io_ok api s" and "\<forall>e \<in> set es. exit_ready s e" and "\<And>n. QueryPerformanceCounter os n \<noteq> None"
    and "distinct (map (fst \<circ> snd) es)" and "distinct (map (snd \<circ> snd) es)"
  shows "\<exists>s'. runR (\<lambda>(b, p, q). IOCPWorkThread api os (Dequeued True b p q) work_thread_start) es s =
       Inr (replicate (length es) (work_thread_start\<lparr>wt_exit := True\<rparr>), s') \<and>
     io_ok api s' \<and> scs s' = scs s |` (- (fst \<circ> snd) ` set es) \<and> ics s' = ics s |` (- (snd \<circ> snd) ` set es)"
  using assms(1,2,4,5)
proof (induction es arbitrary: s)
  case (Cons e es)
  obtain b p q where e: "e = (b, p, q)" by (metis prod_cases3)
  obtain s1 where s1: "IOCPWorkThread api os (Dequeued True b p q) work_thread_start s = Inr (work_thread_start\<lparr>wt_exit := True\<rparr>, s1)"
     "io_ok api s1" "scs s1 = (scs s)(p := None)" "ics s1 = (ics s)(q := None)"
    using exit_turn [OF Cons.prems(1) _ assms(3), of b p q] Cons.prems(2) e by auto
  have "exit_ready s1 (b', p', q')" if "(b', p', q') \<in> set es" for b' p' q'
  proof (rule exit_ready_frame [of s])
    show "exit_ready s (b', p', q')" using that Cons.prems(2) by auto
    have "p \<noteq> p'" "q \<noteq> q'" using that Cons.prems(3,4) e by force+
    then show "scs s1 p' = scs s p'" "ics s1 q' = ics s q'" using s1(3,4) by simp_all
  qed
  then have "\<forall>e \<in> set es. exit_ready s1 e" by auto
  from Cons.IH [OF s1(2) this] Cons.prems(3,4) obtain s2 where s2:
    "runR (\<lambda>(b, p, q). IOCPWorkThread api os (Dequeued True b p q) work_thread_start) es s1 =
       Inr (replicate (length es) (work_thread_start\<lparr>wt_exit := True\<rparr>), s2)"
     "io_ok api s2" "scs s2 = scs s1 |` (- (fst \<circ> snd) ` set es)" "ics s2 = ics s1 |` (- (snd \<circ> snd) ` set es)" by auto
  have "scs s2 = scs s |` (- (fst \<circ> snd) ` set (e # es))" "ics s2 = ics s |` (- (snd \<circ> snd) ` set (e # es))"
    using s2(3,4) s1(3,4) e by (simp_all add: restrict_map_def fun_eq_iff)
  then show ?case using e s1(1) s2(1,2) by simp
qed (simp add: restrict_map_def)

end

lemma abandoned_worker:
  "foldR (\<lambda>_ (w, s). IOCPWorkThread api os NotDequeued w s) xs (work_thread_start, s) =
     Inr (work_thread_start, s\<lparr>errorNum := errorNum s + int (length xs)\<rparr>)"
  by (induction xs arbitrary: s) (simp_all add: IOCPWorkThread_def work_error_def work_thread_start_def)


section \<open>Stopping\<close>

context srw_laws
begin

lemma clear_listening_ok:
  assumes "io_ok api s" and "scs s LISTEN = Some sc"
  shows "\<exists>s1. bindR (foldR (\<lambda>e s. bindR (get_ic (snd e) s) (\<lambda>ic. IOCPContext_delete (snd e) (closesocket (ic_socket ic) s)))
       (IOCPContextMap sc) (s\<lparr>hIOCP := False\<rparr>))
       (\<lambda>s. bindR (get_sc LISTEN s) (\<lambda>sc. Inr (True, put_sc LISTEN (sc\<lparr>IOCPContextMap := []\<rparr>) s))) = Inr (True, s1) \<and>
     ics s1 = ics s |` (- (snd ` set (IOCPContextMap sc))) \<and> scs s1 = (scs s)(LISTEN \<mapsto> sc\<lparr>IOCPContextMap := []\<rparr>) \<and>
     port_queue s1 = port_queue s \<and> io_lock s1 = io_lock s"
proof -
  have ok: "ics_ok (s\<lparr>hIOCP := False\<rparr>)" using assms(1) by (simp add: io_ok_def ics_ok_def)
  have es: "distinct (map snd (IOCPContextMap sc))" "\<forall>e \<in> set (IOCPContextMap sc). ics s (snd e) \<noteq> None"
    using listed_operations [OF assms] by auto
  from delete_accepts_ok [OF ok es(1)] es(2) obtain s1 where
    "foldR (\<lambda>e s. bindR (get_ic (snd e) s) (\<lambda>ic. IOCPContext_delete (snd e) (closesocket (ic_socket ic) s)))
         (IOCPContextMap sc) (s\<lparr>hIOCP := False\<rparr>) = Inr s1"
    "ics s1 = ics s |` (- (snd ` set (IOCPContextMap sc)))" "scs s1 = scs s" "port_queue s1 = port_queue s" "io_lock s1 = io_lock s"
    by auto
  then show ?thesis using assms(2) by (simp add: get_sc_def LISTEN_def put_sc_def)
qed

lemma stopIOCP_ok:
  assumes "io_ok api s" and "idle api (io_lock s)" and "scs s LISTEN = Some sc"
  shows "\<exists>s1. stopIOCP api s = Inr (True, s1) \<and> io_ok api s1 \<and>
     port_queue s1 = port_queue s @ exits_from (next_obj s) (maxThreadNum s) \<and>
     (\<forall>e \<in> set (exits_from (next_obj s) (maxThreadNum s)). exit_ready s1 e) \<and>
     (\<forall>a. a < next_obj s \<and> a \<noteq> LISTEN \<longrightarrow> scs s1 a = scs s a) \<and>
     (\<forall>a. a < next_obj s \<longrightarrow> ics s1 a = (if a \<in> snd ` set (IOCPContextMap sc) then None else ics s a))"
proof -
  let ?es = "exits_from (next_obj s) (maxThreadNum s)" and ?ops = "snd ` set (IOCPContextMap sc)"
  define P where "P = (\<lambda>s1. port_queue s1 = port_queue s @ ?es \<and> (\<forall>e \<in> set ?es. exit_ready s1 e) \<and>
      (\<forall>a. a < next_obj s \<and> a \<noteq> LISTEN \<longrightarrow> scs s1 a = scs s a) \<and>
      (\<forall>a. a < next_obj s \<longrightarrow> ics s1 a = (if a \<in> ?ops then None else ics s a)))"
  define body where "body = (\<lambda>s. let s = s\<lparr>io_status := STATUS_HALT\<rparr> in
       bindR (get_sc LISTEN s) (\<lambda>sc.
       bindR (foldR (\<lambda>_. post_exit api) [0..<maxThreadNum s] (closesocket (sc_socket sc) s)) (\<lambda>s.
       bindR (get_sc LISTEN s) (\<lambda>sc.
       bindR (foldR (\<lambda>e s.
           bindR (get_ic (snd e) s) (\<lambda>ic. IOCPContext_delete (snd e) (closesocket (ic_socket ic) s)))
         (IOCPContextMap sc) (s\<lparr>hIOCP := False\<rparr>)) (\<lambda>s.
       bindR (get_sc LISTEN s) (\<lambda>sc.
         Inr (True, put_sc LISTEN (sc\<lparr>IOCPContextMap := []\<rparr>) s)))))))"
  have ok: "ics_ok s" "scs_ok api s" using assms(1) by (simp_all add: io_ok_def)
  have lt: "LISTEN < next_obj s" by (rule scs_okD(2) [OF ok(2) assms(3)])
  have "\<exists>s1. body (set_io_lock l s) = Inr (True, s1) \<and> io_lock s1 = l \<and> P s1" for l
  proof -
    let ?t = "closesocket (sc_socket sc) ((set_io_lock l s)\<lparr>io_status := STATUS_HALT\<rparr>)"
    have t: "io_ok api ?t" "next_obj ?t = next_obj s" "scs ?t = scs s" "ics ?t = ics s" "port_queue ?t = port_queue s"
      "io_lock ?t = l"
      using assms(1) by (auto simp: set_io_lock_def closesocket_def split: option.split)
    obtain u where u: "foldR (\<lambda>_. post_exit api) [0..<maxThreadNum s] ?t = Inr u" "io_ok api u"
      "port_queue u = port_queue s @ ?es" "\<forall>a. a < next_obj s \<longrightarrow> scs u a = scs s a \<and> ics u a = ics s a"
      "\<forall>e \<in> set ?es. exit_ready u e" "io_lock u = l"
      using post_exits_ok [OF t(1), of "maxThreadNum s"] t(2-6) by auto
    have "scs u LISTEN = Some sc" using u(4) lt assms(3) by simp
    note c = clear_listening_ok [OF u(2) this]
    then obtain s1 where s1: "bindR (foldR (\<lambda>e s. bindR (get_ic (snd e) s) (\<lambda>ic. IOCPContext_delete (snd e) (closesocket (ic_socket ic) s)))
       (IOCPContextMap sc) (u\<lparr>hIOCP := False\<rparr>))
       (\<lambda>s. bindR (get_sc LISTEN s) (\<lambda>sc. Inr (True, put_sc LISTEN (sc\<lparr>IOCPContextMap := []\<rparr>) s))) = Inr (True, s1)"
      "ics s1 = ics u |` (- ?ops)" "scs s1 = (scs u)(LISTEN \<mapsto> sc\<lparr>IOCPContextMap := []\<rparr>)"
      "port_queue s1 = port_queue u" "io_lock s1 = io_lock u" by blast
    have "get_sc LISTEN u = Inr sc" "get_sc LISTEN ((set_io_lock l s)\<lparr>io_status := STATUS_HALT\<rparr>) = Inr sc"
      using \<open>scs u LISTEN = Some sc\<close> assms(3) by (simp_all add: get_sc_def LISTEN_def set_io_lock_def)
    then have "body (set_io_lock l s) = Inr (True, s1)"
      using u(1) s1(1) by (simp add: body_def Let_def set_io_lock_def)
    moreover have "exit_ready s1 (b, p, q)" if "(b, p, q) \<in> set ?es" for b p q
    proof (rule exit_ready_frame [of u])
      show "exit_ready u (b, p, q)" using u(5) that by blast
      note e = set_exits_from [OF that]
      then show "scs s1 p = scs u p" using s1(3) lt by simp
      have "r < next_obj s" if "r \<in> ?ops" for r
        using listed_operations [OF assms(1,3)] ics_okD(2) [OF ok(1)] that by fastforce
      with e have "q \<notin> ?ops" by fastforce
      then show "ics s1 q = ics u q" using s1(2) by simp
    qed
    ultimately show ?thesis
      using s1(2-5) u(3,4,6) by (intro exI [of _ s1]) (auto simp: P_def restrict_map_def)
  qed
  moreover have "P (set_io_lock l s1)" if "P s1" for l s1
    using that by (simp add: P_def exit_ready_lock) (simp add: set_io_lock_def)
  ultimately have "\<exists>s1. exclusive api io_lock set_io_lock body s = Inr (True, s1) \<and> io_lock s1 = io_lock s \<and> P s1"
    by (intro exclusive_run [OF assms(2)]) blast+
  then obtain s1 where s1: "stopIOCP api s = Inr (True, s1)" "P s1"
    unfolding stopIOCP_def body_def [symmetric] by blast
  then show ?thesis using returnsD [OF stopIOCP_keeps [OF assms(1)] s1(1)] by (simp add: P_def)
qed

end

lemma io_ok_threads: "io_ok api (s\<lparr>maxThreadNum := n\<rparr>) = io_ok api s"
  by (simp add: io_ok_def ics_ok_def scs_ok_def sc_ok_def)

section \<open>Properties\<close>

text \<open>
  C16. Stopping the module: one exit signal goes into the port for each worker, the standby accepts
  are deleted and every other connection stays allocated. If the signals are delivered, each ends one
  worker and takes its own connection and operation with it, and nothing else; a worker for which the
  closed port only fails never ends, whatever the number of turns, and counts an error in each.
\<close>

theorem stop_ends_workers:
  assumes "srw_laws api" and "io_ok api s" and "idle api (io_lock s)" and "scs s LISTEN = Some sc"
    and "\<And>n. QueryPerformanceCounter os n \<noteq> None"
  shows "\<exists>s1 s2 es. stopIOCP api s = Inr (True, s1) \<and> port_queue s1 = port_queue s @ es \<and> length es = maxThreadNum s \<and>
     runR (\<lambda>(b, p, q). IOCPWorkThread api os (Dequeued True b p q) work_thread_start) es s1 =
       Inr (replicate (maxThreadNum s) (work_thread_start\<lparr>wt_exit := True\<rparr>), s2) \<and> io_ok api s2 \<and>
     (\<forall>(b, p, q) \<in> set es. scs s2 p = None \<and> ics s2 q = None) \<and>
     (\<forall>p. p \<noteq> LISTEN \<and> scs s p \<noteq> None \<longrightarrow> scs s2 p = scs s p) \<and>
     (\<forall>q. ics s q \<noteq> None \<longrightarrow> ics s2 q = (if q \<in> snd ` set (IOCPContextMap sc) then None else ics s q)) \<and>
     foldR (\<lambda>_ (w, s). IOCPWorkThread api os NotDequeued w s) [0..<turns] (work_thread_start, s1) =
       Inr (work_thread_start, s1\<lparr>errorNum := errorNum s1 + int turns\<rparr>)"
proof -
  let ?es = "exits_from (next_obj s) (maxThreadNum s)"
  have ok: "ics_ok s" "scs_ok api s" using assms(2) by (simp_all add: io_ok_def)
  obtain s1 where s1: "stopIOCP api s = Inr (True, s1)" "io_ok api s1" "port_queue s1 = port_queue s @ ?es"
     "\<forall>e \<in> set ?es. exit_ready s1 e" "\<forall>a. a < next_obj s \<and> a \<noteq> LISTEN \<longrightarrow> scs s1 a = scs s a"
     "\<forall>a. a < next_obj s \<longrightarrow> ics s1 a = (if a \<in> snd ` set (IOCPContextMap sc) then None else ics s a)"
    using srw_laws.stopIOCP_ok [OF assms(1-4)] by blast
  obtain s2 where s2: "runR (\<lambda>(b, p, q). IOCPWorkThread api os (Dequeued True b p q) work_thread_start) ?es s1 =
       Inr (replicate (length ?es) (work_thread_start\<lparr>wt_exit := True\<rparr>), s2)" "io_ok api s2"
    "scs s2 = scs s1 |` (- (fst \<circ> snd) ` set ?es)" "ics s2 = ics s1 |` (- (snd \<circ> snd) ` set ?es)"
    using srw_laws.exits_end_workers [OF assms(1) s1(2,4) assms(5) exits_from_distinct] by blast
  have new: "a \<notin> (fst \<circ> snd) ` set ?es" "a \<notin> (snd \<circ> snd) ` set ?es" if "a < next_obj s" for a
    using that set_exits_from by fastforce+
  have gone: "\<forall>(b, p, q) \<in> set ?es. scs s2 p = None \<and> ics s2 q = None"
    unfolding s2(3,4) by (force simp: restrict_map_def)
  have kept: "scs s2 p = scs s p" if "p \<noteq> LISTEN" "scs s p \<noteq> None" for p
    using that scs_okD(2) [OF ok(2)] s1(5) new(1) s2(3) by auto
  have ops: "ics s2 q = (if q \<in> snd ` set (IOCPContextMap sc) then None else ics s q)" if "ics s q \<noteq> None" for q
  proof -
    have "q < next_obj s" using that ics_okD(2) [OF ok(1)] by blast
    then show ?thesis using s1(6) new(2) s2(4) by (simp add: restrict_map_def)
  qed
  have len: "length ?es = maxThreadNum s" by (simp add: exits_from_def)
  have spin: "foldR (\<lambda>_ (w, s). IOCPWorkThread api os NotDequeued w s) [0..<turns] (work_thread_start, s1) =
       Inr (work_thread_start, s1\<lparr>errorNum := errorNum s1 + int turns\<rparr>)" by (simp add: abandoned_worker)
  show ?thesis
  proof (rule exI [of _ s1], rule exI [of _ s2], rule exI [of _ ?es], intro conjI)
    show "\<forall>p. p \<noteq> LISTEN \<and> scs s p \<noteq> None \<longrightarrow> scs s2 p = scs s p" using kept by blast
    show "\<forall>q. ics s q \<noteq> None \<longrightarrow> ics s2 q = (if q \<in> snd ` set (IOCPContextMap sc) then None else ics s q)" using ops by blast
  qed (use s1 s2 gone len spin in simp_all)
qed

lemma stop_ends_workers_witness:
  "maxThreadNum (example_module\<lparr>maxThreadNum := 3\<rparr>) = 3 \<and>
   (\<exists>s1 s2 es. stopIOCP srw_ref (example_module\<lparr>maxThreadNum := 3\<rparr>) = Inr (True, s1) \<and> length es = 3 \<and> ics s2 2 = None \<and>
     runR (\<lambda>(b, p, q). IOCPWorkThread srw_ref idle_os (Dequeued True b p q) work_thread_start) es s1 =
       Inr (replicate 3 (work_thread_start\<lparr>wt_exit := True\<rparr>), s2))"
proof -
  let ?s = "example_module\<lparr>maxThreadNum := 3\<rparr>"
  have "io_ok srw_ref ?s"
    using example_module_ok io_ok_threads by blast
  then have e: "io_ok srw_ref ?s" "idle srw_ref (io_lock ?s)" "ics ?s 2 \<noteq> None"
    "scs ?s LISTEN = Some ((SocketContext_new srw_ref)\<lparr>sc_count := 1, IOCPContextMap := [(1, 2)]\<rparr>)"
    using example_module_ok by (auto simp: idle_def SRWLock_init_def)
  have o: "QueryPerformanceCounter idle_os n \<noteq> None" for n by (simp add: idle_os_def)
  from stop_ends_workers [OF srw_ref.srw_laws_axioms e(1,2,4) o] obtain s1 s2 es where r:
    "stopIOCP srw_ref ?s = Inr (True, s1)" "length es = maxThreadNum ?s"
    "runR (\<lambda>(b, p, q). IOCPWorkThread srw_ref idle_os (Dequeued True b p q) work_thread_start) es s1 =
       Inr (replicate (maxThreadNum ?s) (work_thread_start\<lparr>wt_exit := True\<rparr>), s2)"
    "\<forall>q. ics ?s q \<noteq> None \<longrightarrow> ics s2 q =
       (if q \<in> snd ` set (IOCPContextMap ((SocketContext_new srw_ref)\<lparr>sc_count := 1, IOCPContextMap := [(1, 2)]\<rparr>)) then None else ics ?s q)"
    by blast
  have "ics s2 2 = None" using r(4) e(3) by (auto split: if_splits)
  with r(1-3) show ?thesis by (simp del: replicate.simps) blast
qed

end
