(* ===== verification/MD5_Digest.thy ===== *)
theory MD5_Digest
  imports Prelude
begin

text \<open>
  The message digest of \<^verbatim>\<open>md5.h\<close> on 32-bit words, and \<^verbatim>\<open>svrutil::MD5\<close>. The context keeps the
  chaining state, the 64-bit count of message bits in two words and a 64-byte buffer. The
  streaming digest is shown to be the one of RFC 1321: pad the message, cut it into blocks of
  64 bytes and fold the compression function over them; the unrolled compression function is
  shown to be the loop over the 64 steps.
\<close>

unbundle bit_operations_syntax

section \<open>The digest\<close>

type_synonym UINT4 = "32 word"
type_synonym byte = "8 word"
type_synonym md5_state = "UINT4 \<times> UINT4 \<times> UINT4 \<times> UINT4"

record MD5_CTX =
  md5_state :: md5_state
  count0 :: UINT4
  count1 :: UINT4
  buffer :: "byte list"

definition S11 :: nat where "S11 = 7"
definition S12 :: nat where "S12 = 12"
definition S13 :: nat where "S13 = 17"
definition S14 :: nat where "S14 = 22"
definition S21 :: nat where "S21 = 5"
definition S22 :: nat where "S22 = 9"
definition S23 :: nat where "S23 = 14"
definition S24 :: nat where "S24 = 20"
definition S31 :: nat where "S31 = 4"
definition S32 :: nat where "S32 = 11"
definition S33 :: nat where "S33 = 16"
definition S34 :: nat where "S34 = 23"
definition S41 :: nat where "S41 = 6"
definition S42 :: nat where "S42 = 10"
definition S43 :: nat where "S43 = 15"
definition S44 :: nat where "S44 = 21"

definition PADDING :: "byte list" where
  "PADDING = 0x80 # replicate 63 0"

definition md5_F :: "UINT4 \<Rightarrow> UINT4 \<Rightarrow> UINT4 \<Rightarrow> UINT4" where
  "md5_F x y z = (x AND y) OR (NOT x AND z)"

definition md5_G :: "UINT4 \<Rightarrow> UINT4 \<Rightarrow> UINT4 \<Rightarrow> UINT4" where
  "md5_G x y z = (x AND z) OR (y AND NOT z)"

definition md5_H :: "UINT4 \<Rightarrow> UINT4 \<Rightarrow> UINT4 \<Rightarrow> UINT4" where
  "md5_H x y z = x XOR y XOR z"

definition md5_I :: "UINT4 \<Rightarrow> UINT4 \<Rightarrow> UINT4 \<Rightarrow> UINT4" where
  "md5_I x y z = y XOR (x OR NOT z)"

definition ROTATE_LEFT :: "UINT4 \<Rightarrow> nat \<Rightarrow> UINT4" where
  "ROTATE_LEFT x n = push_bit n x OR drop_bit (32 - n) x"

text \<open>The macros assign their first argument; the value is what it is assigned.\<close>

definition FF :: "UINT4 \<Rightarrow> UINT4 \<Rightarrow> UINT4 \<Rightarrow> UINT4 \<Rightarrow> UINT4 \<Rightarrow> nat \<Rightarrow> UINT4 \<Rightarrow> UINT4" where
  "FF a b c d x s ac = ROTATE_LEFT (a + (md5_F b c d + x + ac)) s + b"

definition GG :: "UINT4 \<Rightarrow> UINT4 \<Rightarrow> UINT4 \<Rightarrow> UINT4 \<Rightarrow> UINT4 \<Rightarrow> nat \<Rightarrow> UINT4 \<Rightarrow> UINT4" where
  "GG a b c d x s ac = ROTATE_LEFT (a + (md5_G b c d + x + ac)) s + b"

definition HH :: "UINT4 \<Rightarrow> UINT4 \<Rightarrow> UINT4 \<Rightarrow> UINT4 \<Rightarrow> UINT4 \<Rightarrow> nat \<Rightarrow> UINT4 \<Rightarrow> UINT4" where
  "HH a b c d x s ac = ROTATE_LEFT (a + (md5_H b c d + x + ac)) s + b"

definition II :: "UINT4 \<Rightarrow> UINT4 \<Rightarrow> UINT4 \<Rightarrow> UINT4 \<Rightarrow> UINT4 \<Rightarrow> nat \<Rightarrow> UINT4 \<Rightarrow> UINT4" where
  "II a b c d x s ac = ROTATE_LEFT (a + (md5_I b c d + x + ac)) s + b"

definition encode_word :: "UINT4 \<Rightarrow> byte list" where
  "encode_word w =
     [ucast (w AND 0xff), ucast (drop_bit 8 w AND 0xff),
      ucast (drop_bit 16 w AND 0xff), ucast (drop_bit 24 w AND 0xff)]"

fun Encode :: "UINT4 list \<Rightarrow> byte list" where
  "Encode [] = []"
| "Encode (w # ws) = encode_word w @ Encode ws"

definition decode_word :: "byte \<Rightarrow> byte \<Rightarrow> byte \<Rightarrow> byte \<Rightarrow> UINT4" where
  "decode_word b0 b1 b2 b3 =
     ucast b0 OR push_bit 8 (ucast b1) OR push_bit 16 (ucast b2) OR push_bit 24 (ucast b3)"

fun Decode :: "byte list \<Rightarrow> UINT4 list" where
  "Decode (b0 # b1 # b2 # b3 # bs) = decode_word b0 b1 b2 b3 # Decode bs"
| "Decode bs = []"

definition MD5Transform :: "md5_state \<Rightarrow> byte list \<Rightarrow> md5_state" where
  "MD5Transform st block =
     (case st of (s0, s1, s2, s3) \<Rightarrow>
      let a = s0; b = s1; c = s2; d = s3; x = Decode block;
      a = FF a b c d (x ! 0) S11 0xd76aa478;
      d = FF d a b c (x ! 1) S12 0xe8c7b756;
      c = FF c d a b (x ! 2) S13 0x242070db;
      b = FF b c d a (x ! 3) S14 0xc1bdceee;
      a = FF a b c d (x ! 4) S11 0xf57c0faf;
      d = FF d a b c (x ! 5) S12 0x4787c62a;
      c = FF c d a b (x ! 6) S13 0xa8304613;
      b = FF b c d a (x ! 7) S14 0xfd469501;
      a = FF a b c d (x ! 8) S11 0x698098d8;
      d = FF d a b c (x ! 9) S12 0x8b44f7af;
      c = FF c d a b (x ! 10) S13 0xffff5bb1;
      b = FF b c d a (x ! 11) S14 0x895cd7be;
      a = FF a b c d (x ! 12) S11 0x6b901122;
      d = FF d a b c (x ! 13) S12 0xfd987193;
      c = FF c d a b (x ! 14) S13 0xa679438e;
      b = FF b c d a (x ! 15) S14 0x49b40821;
      a = GG a b c d (x ! 1) S21 0xf61e2562;
      d = GG d a b c (x ! 6) S22 0xc040b340;
      c = GG c d a b (x ! 11) S23 0x265e5a51;
      b = GG b c d a (x ! 0) S24 0xe9b6c7aa;
      a = GG a b c d (x ! 5) S21 0xd62f105d;
      d = GG d a b c (x ! 10) S22 0x2441453;
      c = GG c d a b (x ! 15) S23 0xd8a1e681;
      b = GG b c d a (x ! 4) S24 0xe7d3fbc8;
      a = GG a b c d (x ! 9) S21 0x21e1cde6;
      d = GG d a b c (x ! 14) S22 0xc33707d6;
      c = GG c d a b (x ! 3) S23 0xf4d50d87;
      b = GG b c d a (x ! 8) S24 0x455a14ed;
      a = GG a b c d (x ! 13) S21 0xa9e3e905;
      d = GG d a b c (x ! 2) S22 0xfcefa3f8;
      c = GG c d a b (x ! 7) S23 0x676f02d9;
      b = GG b c d a (x ! 12) S24 0x8d2a4c8a;
      a = HH a b c d (x ! 5) S31 0xfffa3942;
      d = HH d a b c (x ! 8) S32 0x8771f681;
      c = HH c d a b (x ! 11) S33 0x6d9d6122;
      b = HH b c d a (x ! 14) S34 0xfde5380c;
      a = HH a b c d (x ! 1) S31 0xa4beea44;
      d = HH d a b c (x ! 4) S32 0x4bdecfa9;
      c = HH c d a b (x ! 7) S33 0xf6bb4b60;
      b = HH b c d a (x ! 10) S34 0xbebfbc70;
      a = HH a b c d (x ! 13) S31 0x289b7ec6;
      d = HH d a b c (x ! 0) S32 0xeaa127fa;
      c = HH c d a b (x ! 3) S33 0xd4ef3085;
      b = HH b c d a (x ! 6) S34 0x4881d05;
      a = HH a b c d (x ! 9) S31 0xd9d4d039;
      d = HH d a b c (x ! 12) S32 0xe6db99e5;
      c = HH c d a b (x ! 15) S33 0x1fa27cf8;
      b = HH b c d a (x ! 2) S34 0xc4ac5665;
      a = II a b c d (x ! 0) S41 0xf4292244;
      d = II d a b c (x ! 7) S42 0x432aff97;
      c = II c d a b (x ! 14) S43 0xab9423a7;
      b = II b c d a (x ! 5) S44 0xfc93a039;
      a = II a b c d (x ! 12) S41 0x655b59c3;
      d = II d a b c (x ! 3) S42 0x8f0ccc92;
      c = II c d a b (x ! 10) S43 0xffeff47d;
      b = II b c d a (x ! 1) S44 0x85845dd1;
      a = II a b c d (x ! 8) S41 0x6fa87e4f;
      d = II d a b c (x ! 15) S42 0xfe2ce6e0;
      c = II c d a b (x ! 6) S43 0xa3014314;
      b = II b c d a (x ! 13) S44 0x4e0811a1;
      a = II a b c d (x ! 4) S41 0xf7537e82;
      d = II d a b c (x ! 11) S42 0xbd3af235;
      c = II c d a b (x ! 2) S43 0x2ad7d2bb;
      b = II b c d a (x ! 9) S44 0xeb86d391
      in (s0 + a, s1 + b, s2 + c, s3 + d))"

definition MD5Init :: "MD5_CTX \<Rightarrow> MD5_CTX" where
  "MD5Init context = context\<lparr>count0 := 0, count1 := 0,
     md5_state := (0x67452301, 0xefcdab89, 0x98badcfe, 0x10325476)\<rparr>"

text \<open>
  The loop of \<^verbatim>\<open>MD5Update\<close> over the whole blocks of the input; \<^verbatim>\<open>i\<close> is a 32-bit counter, so
  \<^verbatim>\<open>i + 63\<close> may wrap around, and then the block behind \<^verbatim>\<open>&input[i]\<close> is not all there.
\<close>

function update_loop :: "nat \<Rightarrow> byte list \<Rightarrow> md5_state \<Rightarrow> (nat \<times> md5_state) res" where
  "update_loop i input st =
     (if (i + 63) mod 2 ^ 32 < length input then
        if i + 64 \<le> length input
        then update_loop (i + 64) input (MD5Transform st (take 64 (drop i input)))
        else Inl OutOfBounds
      else Inr (i, st))"
  by pat_completeness auto
termination
  by (relation "measure (\<lambda>(i, input, st). length input - i)") auto

declare update_loop.simps [simp del]

definition MD5Update :: "MD5_CTX \<Rightarrow> byte list \<Rightarrow> MD5_CTX res" where
  "MD5Update context input =
     (let inputLen = of_nat (length input) :: UINT4;
          index = unat (drop_bit 3 (count0 context) AND 0x3F);
          c0 = count0 context + push_bit 3 inputLen;
          c1 = (if c0 < push_bit 3 inputLen then count1 context + 1 else count1 context);
          c1 = c1 + drop_bit 29 inputLen;
          context = context\<lparr>count0 := c0, count1 := c1\<rparr>;
          partLen = 64 - index
      in if partLen \<le> length input then
           let buf = take index (buffer context) @ take partLen input @ drop (index + partLen) (buffer context)
           in bindR (update_loop partLen input (MD5Transform (md5_state context) buf)) (\<lambda>(i, st).
             Inr (context\<lparr>md5_state := st,
               buffer := drop i input @ drop (length input - i) buf\<rparr>))
         else
           Inr (context\<lparr>buffer := take index (buffer context) @ input @
             drop (index + length input) (buffer context)\<rparr>))"

text \<open>The result is the digest; the context is overwritten with zeros.\<close>

definition MD5Final :: "MD5_CTX \<Rightarrow> byte list res" where
  "MD5Final context =
     (let bits = Encode [count0 context, count1 context];
          index = unat (drop_bit 3 (count0 context) AND 0x3f);
          padLen = (if index < 56 then 56 - index else 120 - index)
      in bindR (MD5Update context (take padLen PADDING)) (\<lambda>context.
         bindR (MD5Update context bits) (\<lambda>context.
         case md5_state context of (a, b, c, d) \<Rightarrow> Inr (Encode [a, b, c, d]))))"

text \<open>The context is a local variable: what its memory held before is an argument.\<close>

definition MD5Digest :: "MD5_CTX \<Rightarrow> byte list \<Rightarrow> byte list res" where
  "MD5Digest garbage input = bindR (MD5Update (MD5Init garbage) input) MD5Final"

text \<open>
  \<^verbatim>\<open>svrutil::MD5::create\<close> makes a string of the 16 bytes up to the first zero; without one the
  constructor reads beyond the array.
\<close>

definition MD5_create :: "MD5_CTX \<Rightarrow> byte list \<Rightarrow> byte list res" where
  "MD5_create garbage src =
     bindR (MD5Digest garbage src) (\<lambda>temp.
       if 0 \<in> set temp then Inr (takeWhile (\<lambda>b. b \<noteq> 0) temp) else Inl OutOfBounds)"

section \<open>Bytes and words\<close>

lemma mask_ff: "(0xff :: 32 word) = mask 8"
  by (simp add: mask_eq_exp_minus_1)

lemma mask_3f: "(0x3f :: 32 word) = mask 6"
  by (simp add: mask_eq_exp_minus_1)

lemma decode_encode_word [simp]:
  "decode_word (ucast ((w :: UINT4) AND 0xff)) (ucast (drop_bit 8 w AND 0xff))
     (ucast (drop_bit 16 w AND 0xff)) (ucast (drop_bit 24 w AND 0xff)) = w"
  unfolding decode_word_def mask_ff
proof (rule bit_word_eqI)
  fix n assume "n < LENGTH(32)"
  then consider "n < 8" | "8 \<le> n" "n < 16" | "16 \<le> n" "n < 24" | "24 \<le> n" "n < 32" by fastforce
  then show "bit (ucast (ucast (w AND mask 8) :: byte) OR push_bit 8 (ucast (ucast (drop_bit 8 w AND mask 8) :: byte)) OR
      push_bit 16 (ucast (ucast (drop_bit 16 w AND mask 8) :: byte)) OR
      push_bit 24 (ucast (ucast (drop_bit 24 w AND mask 8) :: byte)) :: UINT4) n = bit w n"
    by cases (auto simp: bit_simps)
qed

lemma encode_decode_word [simp]: "encode_word (decode_word b0 b1 b2 b3) = [b0, b1, b2, b3]"
  unfolding decode_word_def encode_word_def mask_ff
  by (auto intro!: bit_word_eqI simp: bit_simps) (auto dest!: bit_imp_le_length)

lemma length_encode_word [simp]: "length (encode_word w) = 4"
  by (simp add: encode_word_def)

lemma length_Encode [simp]: "length (Encode ws) = 4 * length ws"
  by (induction ws) simp_all

lemma Decode_Encode [simp]: "Decode (Encode ws) = ws"
  by (induction ws) (simp_all add: encode_word_def)

lemma Encode_Decode: "length bs mod 4 = 0 \<Longrightarrow> Encode (Decode bs) = bs"
  by (induction bs rule: Decode.induct) auto

section \<open>The digest of RFC 1321\<close>

text \<open>Folding the compression function over the whole blocks of a message; the rest is left over.\<close>

fun compress :: "md5_state \<Rightarrow> byte list \<Rightarrow> md5_state" where
  "compress st m = (if length m < 64 then st else compress (MD5Transform st (take 64 m)) (drop 64 m))"

declare compress.simps [simp del]

definition rest :: "byte list \<Rightarrow> byte list" where
  "rest m = drop (length m div 64 * 64) m"

definition md5_iv :: md5_state where
  "md5_iv = (0x67452301, 0xefcdab89, 0x98badcfe, 0x10325476)"

text \<open>The message length in bits as eight bytes, low byte first.\<close>

definition length_bytes :: "nat \<Rightarrow> byte list" where
  "length_bytes n = Encode [of_nat (8 * n), of_nat (8 * n div 2 ^ 32)]"

definition md5_pad :: "byte list \<Rightarrow> byte list" where
  "md5_pad m = m @ 0x80 # replicate ((119 - length m mod 64) mod 64) 0 @ length_bytes (length m)"

definition md5_spec :: "byte list \<Rightarrow> byte list" where
  "md5_spec m = (case compress md5_iv (md5_pad m) of (a, b, c, d) \<Rightarrow> Encode [a, b, c, d])"

lemma compress_short [simp]: "length m < 64 \<Longrightarrow> compress st m = st"
  by (subst compress.simps) simp

lemma compress_block: "length b = 64 \<Longrightarrow> compress st (b @ m) = compress (MD5Transform st b) m"
  by (subst compress.simps) simp

lemma take_drop_append: "take n m @ drop n m @ m' = m @ m'"
  by (metis append_assoc append_take_drop_id)

lemma compress_append: "64 dvd length m \<Longrightarrow> compress st (m @ m') = compress (compress st m) m'"
proof (induction st m rule: compress.induct)
  case (1 st m)
  show ?case
  proof (cases "length m < 64")
    case True
    then have "length m = 0" using "1.prems" by (auto simp: dvd_def)
    then show ?thesis by simp
  next
    case False
    have "64 dvd length (drop 64 m)" using "1.prems" False by (auto simp: dvd_diff_nat)
    from "1.IH" [OF False this] False show ?thesis
      using compress_block [of "take 64 m" st "drop 64 m @ m'"] compress.simps [of st m]
      by (simp add: take_drop_append)
  qed
qed

lemma length_rest [simp]: "length (rest m) = length m mod 64"
  by (simp add: rest_def minus_div_mult_eq_mod)

lemma length_rest_less [simp]: "length (rest m) < 64"
  by simp

lemma whole_blocks: "m = take (length m div 64 * 64) m @ rest m"
  by (simp add: rest_def)

lemma compress_rest: "compress st m = compress st (take (length m div 64 * 64) m)"
proof -
  have "64 dvd length (take (length m div 64 * 64) m)" by (simp add: min_absorb2)
  from compress_append [OF this, of st "rest m"] show ?thesis
    by (simp add: whole_blocks [symmetric])
qed

lemma compress_extend: "compress st (m @ m') = compress (compress st m) (rest m @ m')"
proof -
  let ?b = "take (length m div 64 * 64) m"
  have "64 dvd length ?b" by (simp add: min_absorb2)
  then have "compress st (?b @ (rest m @ m')) = compress (compress st ?b) (rest m @ m')"
    by (rule compress_append)
  moreover have "?b @ (rest m @ m') = m @ m'" by (simp add: rest_def)
  ultimately show ?thesis by (simp flip: compress_rest)
qed

lemma rest_short [simp]: "length m < 64 \<Longrightarrow> rest m = m"
  by (simp add: rest_def)

lemma rest_block: "length b = 64 \<Longrightarrow> rest (b @ m) = rest m"
proof -
  assume b: "length b = 64"
  have "(64 + length m) div 64 * 64 = 64 + length m div 64 * 64"
    by (subst div_add_self1) simp_all
  then show ?thesis by (simp add: rest_def b)
qed

lemma rest_extend: "rest (m @ m') = rest (rest m @ m')"
proof (induction m rule: length_induct)
  case (1 m)
  show ?case
  proof (cases "length m < 64")
    case False
    then have "rest (m @ m') = rest (drop 64 m @ m')" "rest m = rest (drop 64 m)"
      using rest_block [of "take 64 m" "drop 64 m @ m'"] rest_block [of "take 64 m" "drop 64 m"]
      by (simp_all add: take_drop_append)
    moreover have "rest (drop 64 m @ m') = rest (rest (drop 64 m) @ m')"
      using 1 [rule_format, of "drop 64 m"] False by (simp del: append_assoc)
    ultimately show ?thesis by simp
  qed simp
qed

section \<open>The context as a digest in progress\<close>

text \<open>A context that has taken in the message \<open>m\<close>.\<close>

definition ctx_ok :: "MD5_CTX \<Rightarrow> byte list \<Rightarrow> bool" where
  "ctx_ok c m \<longleftrightarrow>
     md5_state c = compress md5_iv m \<and> count0 c = of_nat (8 * length m) \<and>
     count1 c = of_nat (8 * length m div 2 ^ 32) \<and> length (buffer c) = 64 \<and>
     take (length m mod 64) (buffer c) = rest m"

text \<open>
  The lengths for which the loop counter does not wrap around: any 32-bit length on a block
  boundary, and otherwise all but the last 63.
\<close>

definition update_len_ok :: "nat \<Rightarrow> nat \<Rightarrow> bool" where
  "update_len_ok n k \<longleftrightarrow> k < 2 ^ 32 \<and> (n mod 64 = 0 \<or> k + 64 \<le> 2 ^ 32)"

lemma update_loop_ok:
  "i \<le> length inp \<Longrightarrow> length inp < 2 ^ 32 \<Longrightarrow> i mod 64 = 0 \<or> length inp + 64 \<le> 2 ^ 32 \<Longrightarrow>
     \<exists>i'. update_loop i inp st = Inr (i', compress st (drop i inp)) \<and>
       drop i' inp = rest (drop i inp) \<and> i' \<le> length inp"
proof (induction i inp st rule: update_loop.induct)
  case (1 i inp st)
  have wrap: "(i + 63) mod 2 ^ 32 = i + 63"
  proof -
    have "i + 63 < 2 ^ 32"
    proof (cases "length inp + 64 \<le> 2 ^ 32")
      case False
      then obtain q where "i = 64 * q" using 1(4) by (auto dest!: mod_0_imp_dvd)
      moreover from this have "q < 2 ^ 26" using 1(2,3) by simp
      ultimately show ?thesis by simp
    qed (use 1(2) in simp)
    then show ?thesis by simp
  qed
  show ?case
  proof (cases "i + 63 < length inp")
    case True
    with 1(4) have "(i + 64) mod 64 = 0 \<or> length inp + 64 \<le> 2 ^ 32" by simp
    with 1(1) 1(3) True wrap obtain i' where i':
      "update_loop (i + 64) inp (MD5Transform st (take 64 (drop i inp))) =
         Inr (i', compress (MD5Transform st (take 64 (drop i inp))) (drop (i + 64) inp))"
      "drop i' inp = rest (drop (i + 64) inp)" "i' \<le> length inp"
      by auto
    have "compress st (drop i inp) = compress (MD5Transform st (take 64 (drop i inp))) (drop (i + 64) inp)"
      using True by (subst compress.simps) (auto simp: add.commute)
    moreover have "rest (drop i inp) = rest (drop (i + 64) inp)"
      using rest_block [of "take 64 (drop i inp)" "drop 64 (drop i inp)"] True
      unfolding append_take_drop_id by (auto simp: add.commute)
    ultimately show ?thesis using i' True wrap by (subst update_loop.simps) simp
  next
    case False
    with 1(2) wrap show ?thesis by (subst update_loop.simps) simp
  qed
qed

lemma md5_index:
  "count0 c = of_nat (8 * n) \<Longrightarrow> unat (drop_bit 3 (count0 c) AND 0x3F) = n mod 64"
proof -
  assume c: "count0 c = of_nat (8 * n)"
  have "unat (drop_bit 3 (count0 c) AND mask 6) = unat (count0 c) div 8 mod 64"
    by (simp add: unat_drop_bit_eq drop_bit_eq_div take_bit_eq_mod unat_div_distrib unat_mod_distrib flip: take_bit_eq_mask)
  also have "unat (count0 c) = 8 * (n mod 2 ^ 29)"
    unfolding c unat_of_nat using mult_mod_right [of 8 n "2 ^ 29"] by simp
  also have "8 * (n mod 2 ^ 29) div 8 mod 64 = n mod 64"
    by (simp add: mod_mod_cancel)
  finally show ?thesis by (simp add: mask_3f)
qed

lemma div_add_carry:
  fixes a b :: nat
  assumes "0 < d"
  shows "(a + b) div d = a div d + b div d + (if (a + b) mod d < b mod d then 1 else 0)"
proof -
  have r: "a mod d < d" "b mod d < d" using assms by simp_all
  have m: "(a + b) mod d = (a mod d + b mod d) mod d" by (simp only: mod_add_eq)
  have "(a mod d + b mod d) div d = (if (a + b) mod d < b mod d then 1 else 0)"
  proof (cases "a mod d + b mod d < d")
    case True
    then have "(a + b) mod d = a mod d + b mod d" unfolding m by (rule mod_less)
    with True show ?thesis by simp
  next
    case False
    with r have "a mod d + b mod d - d < d" by linarith
    then have "(a + b) mod d = a mod d + b mod d - d" "(a mod d + b mod d) div d = 1"
      unfolding m using False le_mod_geq [of d "a mod d + b mod d"] le_div_geq [OF assms, of "a mod d + b mod d"]
      by (simp_all add: mod_less div_less)
    moreover have "a mod d + b mod d - d < b mod d" using False r by linarith
    ultimately show ?thesis by simp
  qed
  then show ?thesis using div_add1_eq [of a b d] by simp
qed

lemma md5_counts:
  fixes c0 :: UINT4
  assumes "k < 2 ^ 32" and "c0 = of_nat (8 * n)" and "c1 = of_nat (8 * n div 2 ^ 32)"
  shows "c0 + push_bit 3 (of_nat k) = (of_nat (8 * (n + k)) :: UINT4)"
    and "(if c0 + push_bit 3 (of_nat k) < push_bit 3 (of_nat k :: UINT4) then c1 + 1 else c1) +
       drop_bit 29 (of_nat k) = (of_nat (8 * (n + k) div 2 ^ 32) :: UINT4)"
proof -
  have push: "push_bit 3 (of_nat k) = (of_nat (8 * k) :: UINT4)"
    by (simp add: push_bit_eq_mult)
  show sum: "c0 + push_bit 3 (of_nat k) = (of_nat (8 * (n + k)) :: UINT4)"
    unfolding push assms(2) by simp
  have drop: "drop_bit 29 (of_nat k :: UINT4) = of_nat (8 * k div 2 ^ 32)"
    using assms(1) by (intro word_unat_eq_iff [THEN iffD2]) (simp add: unat_drop_bit_eq drop_bit_eq_div unat_of_nat unat_div_distrib)
  have carry: "(of_nat (8 * (n + k)) :: UINT4) < of_nat (8 * k) \<longleftrightarrow> (8 * n + 8 * k) mod 2 ^ 32 < 8 * k mod 2 ^ 32"
    unfolding word_less_nat_alt unat_of_nat by (simp add: add_mult_distrib2)
  have "8 * (n + k) div 2 ^ 32 = 8 * n div 2 ^ 32 + 8 * k div 2 ^ 32 +
      (if (8 * n + 8 * k) mod 2 ^ 32 < 8 * k mod 2 ^ 32 then 1 else 0)"
    using div_add_carry [of "2 ^ 32" "8 * n" "8 * k"] by (simp add: algebra_simps)
  then show "(if c0 + push_bit 3 (of_nat k) < push_bit 3 (of_nat k :: UINT4) then c1 + 1 else c1) +
       drop_bit 29 (of_nat k) = (of_nat (8 * (n + k) div 2 ^ 32) :: UINT4)"
    unfolding sum unfolding push carry drop assms(3) by (simp add: algebra_simps)
qed

lemma MD5Init_ok: "length (buffer g) = 64 \<Longrightarrow> ctx_ok (MD5Init g) []"
  by (simp add: ctx_ok_def MD5Init_def md5_iv_def)

lemma MD5Update_ok:
  assumes "ctx_ok c m" and "update_len_ok (length m) (length inp)"
  shows "\<exists>c'. MD5Update c inp = Inr c' \<and> ctx_ok c' (m @ inp)"
proof -
  let ?n = "length m" and ?k = "length inp"
  define c1 where "c1 = c\<lparr>count0 := of_nat (8 * (?n + ?k)), count1 := of_nat (8 * (?n + ?k) div 2 ^ 32)\<rparr>"
  have c: "md5_state c = compress md5_iv m" "count0 c = of_nat (8 * ?n)"
    "count1 c = of_nat (8 * ?n div 2 ^ 32)" "length (buffer c) = 64" "take (?n mod 64) (buffer c) = rest m"
    using assms(1) by (simp_all add: ctx_ok_def)
  have k: "?k < 2 ^ 32" using assms(2) by (simp add: update_len_ok_def)
  have index: "unat (drop_bit 3 (count0 c) AND 0x3F) = ?n mod 64" by (rule md5_index [OF c(2)])
  note counts = md5_counts [OF k c(2,3)]
  have lt: "?n mod 64 < 64" by simp
  show ?thesis
  proof (cases "64 - ?n mod 64 \<le> ?k")
    case True
    define p where "p = 64 - ?n mod 64"
    have p: "p \<le> ?k" "?n mod 64 + p = 64" "0 < p" using True lt by (simp_all add: p_def)
    have "p mod 64 = 0 \<or> ?k + 64 \<le> 2 ^ 32"
      using assms(2) by (auto simp: update_len_ok_def p_def)
    from update_loop_ok [OF p(1) k this] obtain i where
      i: "update_loop p inp (MD5Transform (md5_state c) (rest m @ take p inp)) =
         Inr (i, compress (MD5Transform (md5_state c) (rest m @ take p inp)) (drop p inp))"
      "drop i inp = rest (drop p inp)" "i \<le> ?k" by blast
    have block: "length (rest m @ take p inp) = 64" using p by simp
    have st: "compress md5_iv (m @ inp) = compress (MD5Transform (md5_state c) (rest m @ take p inp)) (drop p inp)"
      using compress_extend [of md5_iv m inp] compress_block [OF block, of "compress md5_iv m" "drop p inp"] c(1) by simp
    have rst: "rest (m @ inp) = rest (drop p inp)"
      using rest_extend [of m inp] rest_block [OF block, of "drop p inp"] by simp
    have len: "(?n + ?k) mod 64 = ?k - i" "length (rest (drop p inp)) = ?k - i"
      using length_rest [of "m @ inp"] rst i(2) by (metis length_append length_drop)+
    have "?k - i < 64" using length_rest_less [of "drop p inp"] by (simp only: len(2))
    then have "length (drop i inp @ drop (?k - i) (rest m @ take p inp)) = 64"
      unfolding length_append [of "drop i inp"] length_drop block by simp
    then have "ctx_ok (c1\<lparr>md5_state := compress md5_iv (m @ inp),
        buffer := drop i inp @ drop (?k - i) (rest m @ take p inp)\<rparr>) (m @ inp)"
      using i(2) rst len by (simp add: ctx_ok_def c1_def del: drop_append)
    moreover have "MD5Update c inp = Inr (c1\<lparr>md5_state := compress md5_iv (m @ inp),
        buffer := drop i inp @ drop (?k - i) (rest m @ take p inp)\<rparr>)"
      unfolding MD5Update_def Let_def index counts(2) unfolding counts(1) c1_def st
      using True i(1) p c(4,5) by (simp flip: p_def)
    ultimately show ?thesis by blast
  next
    case False
    then have short: "length (rest m @ inp) < 64" by simp
    have st: "compress md5_iv (m @ inp) = compress md5_iv m"
      using compress_extend [of md5_iv m inp] short by simp
    have rst: "rest (m @ inp) = rest m @ inp" using rest_extend [of m inp] short by simp
    have "(?n + ?k) mod 64 = ?n mod 64 + ?k" using length_rest [of "m @ inp"] rst by simp
    then have "ctx_ok (c1\<lparr>buffer := rest m @ inp @ drop (?n mod 64 + ?k) (buffer c)\<rparr>) (m @ inp)"
      using short c(1,4) by (simp add: ctx_ok_def c1_def st rst)
    moreover have "MD5Update c inp = Inr (c1\<lparr>buffer := rest m @ inp @ drop (?n mod 64 + ?k) (buffer c)\<rparr>)"
      unfolding MD5Update_def Let_def index counts(2) unfolding counts(1) c1_def using False c(5) by simp
    ultimately show ?thesis by blast
  qed
qed

lemma md5_pad_blocks: "64 dvd length (md5_pad m)"
proof -
  define r where "r = length m mod 64"
  have r: "r < 64" "length m = length m div 64 * 64 + r" by (simp_all add: r_def)
  have "(119 - r) mod 64 = (if r < 56 then 55 - r else 119 - r)"
    using r(1) by (auto simp: mod_if)
  then have "64 dvd r + ((119 - r) mod 64 + 9)" using r(1) by (auto simp: dvd_def)
  moreover have "length (md5_pad m) = length m div 64 * 64 + (r + ((119 - r) mod 64 + 9))"
    using r(2) by (simp add: md5_pad_def length_bytes_def r_def)
  ultimately show ?thesis by (metis dvd_add dvd_triv_right)
qed

lemma MD5Final_ok:
  assumes "ctx_ok c m"
  shows "MD5Final c = Inr (md5_spec m)"
proof -
  define r where "r = length m mod 64"
  define padLen where "padLen = (if r < 56 then 56 - r else 120 - r)"
  have r: "r < 64" by (simp add: r_def)
  have c: "count0 c = of_nat (8 * length m)" "count1 c = of_nat (8 * length m div 2 ^ 32)"
    using assms by (simp_all add: ctx_ok_def)
  have index: "unat (drop_bit 3 (count0 c) AND 0x3F) = r" unfolding r_def by (rule md5_index [OF c(1)])
  have pad: "take padLen PADDING = 0x80 # replicate ((119 - r) mod 64) 0"
    using r by (auto simp: padLen_def PADDING_def mod_if take_Cons' min_def)
  have bits: "Encode [count0 c, count1 c] = length_bytes (length m)"
    unfolding c length_bytes_def by (rule refl)
  have small: "update_len_ok n (length (take padLen PADDING))" "update_len_ok n (length (length_bytes (length m)))" for n
    using r by (auto simp: update_len_ok_def padLen_def PADDING_def length_bytes_def)
  obtain c1 where c1: "MD5Update c (take padLen PADDING) = Inr c1" "ctx_ok c1 (m @ take padLen PADDING)"
    using MD5Update_ok [OF assms small(1)] by blast
  obtain c2 where c2: "MD5Update c1 (length_bytes (length m)) = Inr c2"
    "ctx_ok c2 ((m @ take padLen PADDING) @ length_bytes (length m))"
    using MD5Update_ok [OF c1(2) small(2)] by blast
  have "md5_state c2 = compress md5_iv (md5_pad m)"
    using c2(2) by (simp add: ctx_ok_def pad md5_pad_def r_def)
  then show ?thesis
    unfolding MD5Final_def Let_def index bits using c1(1) c2(1)
    by (simp add: padLen_def [symmetric] md5_spec_def split: prod.split)
qed

section \<open>The compression function as a loop\<close>

text \<open>
  RFC 1321 in its loop form: 64 steps on four registers that rotate, with a table of constants, a
  table of shifts and one index function per round. \<^verbatim>\<open>MD5Transform\<close> is that loop unrolled.
\<close>

definition md5_K :: "UINT4 list" where
  "md5_K =
    [0xd76aa478, 0xe8c7b756, 0x242070db, 0xc1bdceee, 0xf57c0faf, 0x4787c62a, 0xa8304613, 0xfd469501,
     0x698098d8, 0x8b44f7af, 0xffff5bb1, 0x895cd7be, 0x6b901122, 0xfd987193, 0xa679438e, 0x49b40821,
     0xf61e2562, 0xc040b340, 0x265e5a51, 0xe9b6c7aa, 0xd62f105d, 0x2441453, 0xd8a1e681, 0xe7d3fbc8,
     0x21e1cde6, 0xc33707d6, 0xf4d50d87, 0x455a14ed, 0xa9e3e905, 0xfcefa3f8, 0x676f02d9, 0x8d2a4c8a,
     0xfffa3942, 0x8771f681, 0x6d9d6122, 0xfde5380c, 0xa4beea44, 0x4bdecfa9, 0xf6bb4b60, 0xbebfbc70,
     0x289b7ec6, 0xeaa127fa, 0xd4ef3085, 0x4881d05, 0xd9d4d039, 0xe6db99e5, 0x1fa27cf8, 0xc4ac5665,
     0xf4292244, 0x432aff97, 0xab9423a7, 0xfc93a039, 0x655b59c3, 0x8f0ccc92, 0xffeff47d, 0x85845dd1,
     0x6fa87e4f, 0xfe2ce6e0, 0xa3014314, 0x4e0811a1, 0xf7537e82, 0xbd3af235, 0x2ad7d2bb, 0xeb86d391]"

definition md5_shift :: "nat list" where
  "md5_shift = [7, 12, 17, 22, 5, 9, 14, 20, 4, 11, 16, 23, 6, 10, 15, 21]"

definition md5_index_of :: "nat \<Rightarrow> nat" where
  "md5_index_of i =
     (if i < 16 then i else if i < 32 then (5 * i + 1) mod 16
      else if i < 48 then (3 * i + 5) mod 16 else 7 * i mod 16)"

definition md5_fun :: "nat \<Rightarrow> UINT4 \<Rightarrow> UINT4 \<Rightarrow> UINT4 \<Rightarrow> UINT4" where
  "md5_fun i = (if i < 16 then md5_F else if i < 32 then md5_G else if i < 48 then md5_H else md5_I)"

definition md5_step :: "UINT4 list \<Rightarrow> nat \<Rightarrow> md5_state \<Rightarrow> md5_state" where
  "md5_step x i =
     (\<lambda>(a, b, c, d).
       (d, ROTATE_LEFT (a + (md5_fun i b c d + x ! md5_index_of i + md5_K ! i))
             (md5_shift ! (4 * (i div 16) + i mod 4)) + b, b, c))"

definition md5_loop :: "md5_state \<Rightarrow> byte list \<Rightarrow> md5_state" where
  "md5_loop st block =
     (case st of (s0, s1, s2, s3) \<Rightarrow>
      let x = Decode block in
      case foldl (\<lambda>r i. md5_step x i r) (s0, s1, s2, s3) [0..<64] of
        (a, b, c, d) \<Rightarrow> (s0 + a, s1 + b, s2 + c, s3 + d))"

lemmas md5_step_defs = md5_step_def md5_index_of_def md5_fun_def md5_K_def md5_shift_def
  FF_def GG_def HH_def II_def S11_def S12_def S13_def S14_def S21_def S22_def S23_def S24_def
  S31_def S32_def S33_def S34_def S41_def S42_def S43_def S44_def

lemma md5_steps_1:
  "md5_step x 0 (a, b, c, d) = (d, FF a b c d (x ! 0) S11 0xd76aa478, b, c)"
  "md5_step x 1 (a, b, c, d) = (d, FF a b c d (x ! 1) S12 0xe8c7b756, b, c)"
  "md5_step x 2 (a, b, c, d) = (d, FF a b c d (x ! 2) S13 0x242070db, b, c)"
  "md5_step x 3 (a, b, c, d) = (d, FF a b c d (x ! 3) S14 0xc1bdceee, b, c)"
  "md5_step x 4 (a, b, c, d) = (d, FF a b c d (x ! 4) S11 0xf57c0faf, b, c)"
  "md5_step x 5 (a, b, c, d) = (d, FF a b c d (x ! 5) S12 0x4787c62a, b, c)"
  "md5_step x 6 (a, b, c, d) = (d, FF a b c d (x ! 6) S13 0xa8304613, b, c)"
  "md5_step x 7 (a, b, c, d) = (d, FF a b c d (x ! 7) S14 0xfd469501, b, c)"
  "md5_step x 8 (a, b, c, d) = (d, FF a b c d (x ! 8) S11 0x698098d8, b, c)"
  "md5_step x 9 (a, b, c, d) = (d, FF a b c d (x ! 9) S12 0x8b44f7af, b, c)"
  "md5_step x 10 (a, b, c, d) = (d, FF a b c d (x ! 10) S13 0xffff5bb1, b, c)"
  "md5_step x 11 (a, b, c, d) = (d, FF a b c d (x ! 11) S14 0x895cd7be, b, c)"
  "md5_step x 12 (a, b, c, d) = (d, FF a b c d (x ! 12) S11 0x6b901122, b, c)"
  "md5_step x 13 (a, b, c, d) = (d, FF a b c d (x ! 13) S12 0xfd987193, b, c)"
  "md5_step x 14 (a, b, c, d) = (d, FF a b c d (x ! 14) S13 0xa679438e, b, c)"
  "md5_step x 15 (a, b, c, d) = (d, FF a b c d (x ! 15) S14 0x49b40821, b, c)"
  by (simp_all add: md5_step_defs)

lemma md5_steps_2:
  "md5_step x 16 (a, b, c, d) = (d, GG a b c d (x ! 1) S21 0xf61e2562, b, c)"
  "md5_step x 17 (a, b, c, d) = (d, GG a b c d (x ! 6) S22 0xc040b340, b, c)"
  "md5_step x 18 (a, b, c, d) = (d, GG a b c d (x ! 11) S23 0x265e5a51, b, c)"
  "md5_step x 19 (a, b, c, d) = (d, GG a b c d (x ! 0) S24 0xe9b6c7aa, b, c)"
  "md5_step x 20 (a, b, c, d) = (d, GG a b c d (x ! 5) S21 0xd62f105d, b, c)"
  "md5_step x 21 (a, b, c, d) = (d, GG a b c d (x ! 10) S22 0x2441453, b, c)"
  "md5_step x 22 (a, b, c, d) = (d, GG a b c d (x ! 15) S23 0xd8a1e681, b, c)"
  "md5_step x 23 (a, b, c, d) = (d, GG a b c d (x ! 4) S24 0xe7d3fbc8, b, c)"
  "md5_step x 24 (a, b, c, d) = (d, GG a b c d (x ! 9) S21 0x21e1cde6, b, c)"
  "md5_step x 25 (a, b, c, d) = (d, GG a b c d (x ! 14) S22 0xc33707d6, b, c)"
  "md5_step x 26 (a, b, c, d) = (d, GG a b c d (x ! 3) S23 0xf4d50d87, b, c)"
  "md5_step x 27 (a, b, c, d) = (d, GG a b c d (x ! 8) S24 0x455a14ed, b, c)"
  "md5_step x 28 (a, b, c, d) = (d, GG a b c d (x ! 13) S21 0xa9e3e905, b, c)"
  "md5_step x 29 (a, b, c, d) = (d, GG a b c d (x ! 2) S22 0xfcefa3f8, b, c)"
  "md5_step x 30 (a, b, c, d) = (d, GG a b c d (x ! 7) S23 0x676f02d9, b, c)"
  "md5_step x 31 (a, b, c, d) = (d, GG a b c d (x ! 12) S24 0x8d2a4c8a, b, c)"
  by (simp_all add: md5_step_defs)

lemma md5_steps_3:
  "md5_step x 32 (a, b, c, d) = (d, HH a b c d (x ! 5) S31 0xfffa3942, b, c)"
  "md5_step x 33 (a, b, c, d) = (d, HH a b c d (x ! 8) S32 0x8771f681, b, c)"
  "md5_step x 34 (a, b, c, d) = (d, HH a b c d (x ! 11) S33 0x6d9d6122, b, c)"
  "md5_step x 35 (a, b, c, d) = (d, HH a b c d (x ! 14) S34 0xfde5380c, b, c)"
  "md5_step x 36 (a, b, c, d) = (d, HH a b c d (x ! 1) S31 0xa4beea44, b, c)"
  "md5_step x 37 (a, b, c, d) = (d, HH a b c d (x ! 4) S32 0x4bdecfa9, b, c)"
  "md5_step x 38 (a, b, c, d) = (d, HH a b c d (x ! 7) S33 0xf6bb4b60, b, c)"
  "md5_step x 39 (a, b, c, d) = (d, HH a b c d (x ! 10) S34 0xbebfbc70, b, c)"
  "md5_step x 40 (a, b, c, d) = (d, HH a b c d (x ! 13) S31 0x289b7ec6, b, c)"
  "md5_step x 41 (a, b, c, d) = (d, HH a b c d (x ! 0) S32 0xeaa127fa, b, c)"
  "md5_step x 42 (a, b, c, d) = (d, HH a b c d (x ! 3) S33 0xd4ef3085, b, c)"
  "md5_step x 43 (a, b, c, d) = (d, HH a b c d (x ! 6) S34 0x4881d05, b, c)"
  "md5_step x 44 (a, b, c, d) = (d, HH a b c d (x ! 9) S31 0xd9d4d039, b, c)"
  "md5_step x 45 (a, b, c, d) = (d, HH a b c d (x ! 12) S32 0xe6db99e5, b, c)"
  "md5_step x 46 (a, b, c, d) = (d, HH a b c d (x ! 15) S33 0x1fa27cf8, b, c)"
  "md5_step x 47 (a, b, c, d) = (d, HH a b c d (x ! 2) S34 0xc4ac5665, b, c)"
  by (simp_all add: md5_step_defs)

lemma md5_steps_4:
  "md5_step x 48 (a, b, c, d) = (d, II a b c d (x ! 0) S41 0xf4292244, b, c)"
  "md5_step x 49 (a, b, c, d) = (d, II a b c d (x ! 7) S42 0x432aff97, b, c)"
  "md5_step x 50 (a, b, c, d) = (d, II a b c d (x ! 14) S43 0xab9423a7, b, c)"
  "md5_step x 51 (a, b, c, d) = (d, II a b c d (x ! 5) S44 0xfc93a039, b, c)"
  "md5_step x 52 (a, b, c, d) = (d, II a b c d (x ! 12) S41 0x655b59c3, b, c)"
  "md5_step x 53 (a, b, c, d) = (d, II a b c d (x ! 3) S42 0x8f0ccc92, b, c)"
  "md5_step x 54 (a, b, c, d) = (d, II a b c d (x ! 10) S43 0xffeff47d, b, c)"
  "md5_step x 55 (a, b, c, d) = (d, II a b c d (x ! 1) S44 0x85845dd1, b, c)"
  "md5_step x 56 (a, b, c, d) = (d, II a b c d (x ! 8) S41 0x6fa87e4f, b, c)"
  "md5_step x 57 (a, b, c, d) = (d, II a b c d (x ! 15) S42 0xfe2ce6e0, b, c)"
  "md5_step x 58 (a, b, c, d) = (d, II a b c d (x ! 6) S43 0xa3014314, b, c)"
  "md5_step x 59 (a, b, c, d) = (d, II a b c d (x ! 13) S44 0x4e0811a1, b, c)"
  "md5_step x 60 (a, b, c, d) = (d, II a b c d (x ! 4) S41 0xf7537e82, b, c)"
  "md5_step x 61 (a, b, c, d) = (d, II a b c d (x ! 11) S42 0xbd3af235, b, c)"
  "md5_step x 62 (a, b, c, d) = (d, II a b c d (x ! 2) S43 0x2ad7d2bb, b, c)"
  "md5_step x 63 (a, b, c, d) = (d, II a b c d (x ! 9) S44 0xeb86d391, b, c)"
  by (simp_all add: md5_step_defs)

lemma foldl_md5_step:
  "md5_step x i (a, b, c, d) = (d, e, b, c) \<Longrightarrow>
     foldl (\<lambda>r i. md5_step x i r) (a, b, c, d) (i # is) =
       (let z = e in foldl (\<lambda>r i. md5_step x i r) (d, z, b, c) is)"
  by simp

lemma case_prod_Let: "case_prod h (let z = e in t z) = (let z = e in case_prod h (t z))"
  by (simp add: Let_def)

lemma upt_64:
  "[0..<64] = [0, 1, 2, 3, 4, 5, 6, 7, 8, 9, 10, 11, 12, 13, 14, 15, 16, 17, 18, 19, 20, 21, 22, 23,
     24, 25, 26, 27, 28, 29, 30, 31, 32, 33, 34, 35, 36, 37, 38, 39, 40, 41, 42, 43, 44, 45, 46, 47,
     48, 49, 50, 51, 52, 53, 54, 55, 56, 57, 58, 59, 60, 61, 62, 63]"
  by (simp add: upt_rec)

lemma MD5Transform_eq_loop: "MD5Transform (s0, s1, s2, s3) block = md5_loop (s0, s1, s2, s3) block"
  unfolding MD5Transform_def md5_loop_def prod.case upt_64 Let_def [of s0] Let_def [of s1] Let_def [of s2] Let_def [of s3]
  by (simp only: md5_steps_1 [THEN foldl_md5_step] md5_steps_2 [THEN foldl_md5_step]
      md5_steps_3 [THEN foldl_md5_step] md5_steps_4 [THEN foldl_md5_step] foldl.simps(1) case_prod_Let prod.case)

section \<open>A test vector\<close>

text \<open>
  The digest of the empty message, d41d8cd98f00b204e9800998ecf8427e in RFC 1321, computed step by
  step: the values of the 64 steps on the padded block.
\<close>

lemmas md5_round_defs = md5_F_def md5_G_def md5_H_def md5_I_def ROTATE_LEFT_def
  FF_def GG_def HH_def II_def S11_def S12_def S13_def S14_def S21_def S22_def S23_def S24_def
  S31_def S32_def S33_def S34_def S41_def S42_def S43_def S44_def

lemma md5_empty_1:
  "FF 0x67452301 0xefcdab89 0x98badcfe 0x10325476 0x80 S11 0xd76aa478 = 0xa5202774"
  "FF 0x10325476 0xa5202774 0xefcdab89 0x98badcfe 0 S12 0xe8c7b756 = 0xf59592dd"
  "FF 0x98badcfe 0xf59592dd 0xa5202774 0xefcdab89 0 S13 0x242070db = 0xe7f06b23"
  "FF 0xefcdab89 0xe7f06b23 0xf59592dd 0xa5202774 0 S14 0xc1bdceee = 0x1b163203"
  "FF 0xa5202774 0x1b163203 0xe7f06b23 0xf59592dd 0 S11 0xf57c0faf = 0x32033344"
  "FF 0xf59592dd 0x32033344 0x1b163203 0xe7f06b23 0 S12 0x4787c62a = 0x2f35d494"
  "FF 0xe7f06b23 0x2f35d494 0x32033344 0x1b163203 0 S13 0xa8304613 = 0xf5b158db"
  "FF 0x1b163203 0xf5b158db 0x2f35d494 0x32033344 0 S14 0xfd469501 = 0x9bc13ce9"
  "FF 0x32033344 0x9bc13ce9 0xf5b158db 0x2f35d494 0 S11 0x698098d8 = 0x3893b991"
  "FF 0x2f35d494 0x3893b991 0x9bc13ce9 0xf5b158db 0 S12 0x8b44f7af = 0xfce4a312"
  "FF 0xf5b158db 0xfce4a312 0x3893b991 0x9bc13ce9 0 S13 0xffff5bb1 = 0xe1ef0576"
  "FF 0x9bc13ce9 0xe1ef0576 0xfce4a312 0x3893b991 0 S14 0x895cd7be = 0x70768a29"
  "FF 0x3893b991 0x70768a29 0xe1ef0576 0xfce4a312 0 S11 0x6b901122 = 0xf56c7cf1"
  "FF 0xfce4a312 0xf56c7cf1 0x70768a29 0xe1ef0576 0 S12 0xfd987193 = 0x374943a7"
  "FF 0xe1ef0576 0x374943a7 0xf56c7cf1 0x70768a29 0 S13 0xa679438e = 0x5aa53f75"
  "FF 0x70768a29 0x5aa53f75 0x374943a7 0xf56c7cf1 0 S14 0x49b40821 = 0xd6819c6a"
  by (simp_all add: md5_round_defs)

lemma md5_empty_2:
  "GG 0xf56c7cf1 0xd6819c6a 0x5aa53f75 0x374943a7 0 S21 0xf61e2562 = 0x1c7d7513"
  "GG 0x374943a7 0x1c7d7513 0xd6819c6a 0x5aa53f75 0 S22 0xc040b340 = 0x7bd57a3a"
  "GG 0x5aa53f75 0x7bd57a3a 0x1c7d7513 0xd6819c6a 0 S23 0x265e5a51 = 0xc095f13a"
  "GG 0xd6819c6a 0xc095f13a 0x7bd57a3a 0x1c7d7513 0x80 S24 0xe9b6c7aa = 0xbd782e17"
  "GG 0x1c7d7513 0xbd782e17 0xc095f13a 0x7bd57a3a 0 S21 0xd62f105d = 0x3d1e3e6c"
  "GG 0x7bd57a3a 0x3d1e3e6c 0xbd782e17 0xc095f13a 0 S22 0x2441453 = 0x68b7b3e3"
  "GG 0xc095f13a 0x68b7b3e3 0x3d1e3e6c 0xbd782e17 0 S23 0xd8a1e681 = 0xeb41643e"
  "GG 0xbd782e17 0xeb41643e 0x68b7b3e3 0x3d1e3e6c 0 S24 0xe7d3fbc8 = 0xe422531a"
  "GG 0x3d1e3e6c 0xe422531a 0xeb41643e 0x68b7b3e3 0 S21 0x21e1cde6 = 0x306ec122"
  "GG 0x68b7b3e3 0x306ec122 0xe422531a 0xeb41643e 0 S22 0xc33707d6 = 0xd28c77c2"
  "GG 0xeb41643e 0xd28c77c2 0x306ec122 0xe422531a 0 S23 0xf4d50d87 = 0xa3c663da"
  "GG 0xe422531a 0xa3c663da 0xd28c77c2 0x306ec122 0 S24 0x455a14ed = 0xa0572807"
  "GG 0x306ec122 0xa0572807 0xa3c663da 0xd28c77c2 0 S21 0xa9e3e905 = 0x13707036"
  "GG 0xd28c77c2 0x13707036 0xa0572807 0xa3c663da 0 S22 0xfcefa3f8 = 0xae7813db"
  "GG 0xa3c663da 0xae7813db 0x13707036 0xa0572807 0 S23 0x676f02d9 = 0x1c31c384"
  "GG 0xa0572807 0x1c31c384 0xae7813db 0x13707036 0 S24 0x8d2a4c8a = 0xa2205f1f"
  by (simp_all add: md5_round_defs)

lemma md5_empty_3:
  "HH 0x13707036 0xa2205f1f 0x1c31c384 0xae7813db 0 S31 0xfffa3942 = 0xdf63eaa1"
  "HH 0xae7813db 0xdf63eaa1 0xa2205f1f 0x1c31c384 0 S32 0x8771f681 = 0xc3689f5b"
  "HH 0x1c31c384 0xc3689f5b 0xdf63eaa1 0xa2205f1f 0 S33 0x6d9d6122 = 0x12f3e755"
  "HH 0xa2205f1f 0x12f3e755 0xc3689f5b 0xdf63eaa1 0 S34 0xfde5380c = 0x4b6669"
  "HH 0xdf63eaa1 0x4b6669 0x12f3e755 0xc3689f5b 0 S31 0xa4beea44 = 0x5f7a9b2e"
  "HH 0xc3689f5b 0x5f7a9b2e 0x4b6669 0x12f3e755 0 S32 0x4bdecfa9 = 0xabc34e16"
  "HH 0x12f3e755 0xabc34e16 0x5f7a9b2e 0x4b6669 0 S33 0xf6bb4b60 = 0x91ca4cb7"
  "HH 0x4b6669 0x91ca4cb7 0xabc34e16 0x5f7a9b2e 0 S34 0xbebfbc70 = 0xc5dc8c15"
  "HH 0x5f7a9b2e 0xc5dc8c15 0x91ca4cb7 0xabc34e16 0 S31 0x289b7ec6 = 0x4497169d"
  "HH 0xabc34e16 0x4497169d 0xc5dc8c15 0x91ca4cb7 0x80 S32 0xeaa127fa = 0x76fd93d4"
  "HH 0x91ca4cb7 0x76fd93d4 0x4497169d 0xc5dc8c15 0 S33 0xd4ef3085 = 0xfd95f243"
  "HH 0xc5dc8c15 0xfd95f243 0x76fd93d4 0x4497169d 0 S34 0x4881d05 = 0xfe32453"
  "HH 0x4497169d 0xfe32453 0xfd95f243 0x76fd93d4 0 S31 0xd9d4d039 = 0x3f55edfd"
  "HH 0x76fd93d4 0x3f55edfd 0xfe32453 0xfd95f243 0 S32 0xe6db99e5 = 0x22a31f54"
  "HH 0xfd95f243 0x22a31f54 0x3f55edfd 0xfe32453 0 S33 0x1fa27cf8 = 0x68d84ea2"
  "HH 0xfe32453 0x68d84ea2 0x22a31f54 0x3f55edfd 0 S34 0xc4ac5665 = 0xca7d2dbd"
  by (simp_all add: md5_round_defs)

lemma md5_empty_4:
  "II 0x3f55edfd 0xca7d2dbd 0x68d84ea2 0x22a31f54 0x80 S41 0xf4292244 = 0x93aa2577"
  "II 0x22a31f54 0x93aa2577 0xca7d2dbd 0x68d84ea2 0 S42 0x432aff97 = 0x1688dc85"
  "II 0x68d84ea2 0x1688dc85 0x93aa2577 0xca7d2dbd 0 S43 0xab9423a7 = 0xcd85b8cb"
  "II 0xca7d2dbd 0xcd85b8cb 0x1688dc85 0x93aa2577 0 S44 0xfc93a039 = 0x561e0689"
  "II 0x93aa2577 0x561e0689 0xcd85b8cb 0x1688dc85 0 S41 0x655b59c3 = 0x5625a114"
  "II 0x1688dc85 0x5625a114 0x561e0689 0xcd85b8cb 0 S42 0x8f0ccc92 = 0x3450f42b"
  "II 0xcd85b8cb 0x3450f42b 0x5625a114 0x561e0689 0 S43 0xffeff47d = 0x392ad0d0"
  "II 0x561e0689 0x392ad0d0 0x3450f42b 0x5625a114 0 S44 0x85845dd1 = 0x1e77fa61"
  "II 0x5625a114 0x1e77fa61 0x392ad0d0 0x3450f42b 0 S41 0x6fa87e4f = 0x474a9c8c"
  "II 0x3450f42b 0x474a9c8c 0x1e77fa61 0x392ad0d0 0 S42 0xfe2ce6e0 = 0xdfce00bc"
  "II 0x392ad0d0 0xdfce00bc 0x474a9c8c 0x1e77fa61 0 S43 0xa3014314 = 0x36594b14"
  "II 0x1e77fa61 0x36594b14 0xdfce00bc 0x474a9c8c 0 S44 0x4e0811a1 = 0x30130182"
  "II 0x474a9c8c 0x30130182 0x36594b14 0xdfce00bc 0 S41 0xf7537e82 = 0x7246fad3"
  "II 0xdfce00bc 0x7246fad3 0x30130182 0x36594b14 0 S42 0xbd3af235 = 0x6e10a476"
  "II 0x36594b14 0x6e10a476 0x7246fad3 0x30130182 0 S43 0x2ad7d2bb = 0xff4ea3eb"
  "II 0x30130182 0xff4ea3eb 0x6e10a476 0x7246fad3 0 S44 0xeb86d391 = 0x14e45506"
  by (simp_all add: md5_round_defs)

lemma decode_word_0: "decode_word 0 0 0 0 = 0" "decode_word 0x80 0 0 0 = 0x80"
  by (simp_all add: decode_word_def)

lemma md5_empty_block: "Decode (0x80 # replicate 63 0) = 0x80 # replicate 15 0"
  by (simp add: numeral_eq_Suc decode_word_0 [simplified numeral_eq_Suc])

lemma MD5Transform_empty: "MD5Transform md5_iv (0x80 # replicate 63 0) = (0xd98c1dd4, 0x4b2008f, 0x980980e9, 0x7e42f8ec)"
proof -
  define x :: "UINT4 list" where "x = 0x80 # replicate 15 0"
  have x: "x ! 0 = 0x80" "x ! 1 = 0" "x ! 2 = 0" "x ! 3 = 0" "x ! 4 = 0" "x ! 5 = 0" "x ! 6 = 0" "x ! 7 = 0"
    "x ! 8 = 0" "x ! 9 = 0" "x ! 10 = 0" "x ! 11 = 0" "x ! 12 = 0" "x ! 13 = 0" "x ! 14 = 0" "x ! 15 = 0"
    by (simp_all add: x_def)
  have "foldl (\<lambda>r i. md5_step x i r) md5_iv [0..<64] = (0x7246fad3, 0x14e45506, 0xff4ea3eb, 0x6e10a476)"
    unfolding upt_64 md5_iv_def
    by (simp only: foldl.simps md5_steps_1 md5_steps_2 md5_steps_3 md5_steps_4 x
        md5_empty_1 md5_empty_2 md5_empty_3 md5_empty_4)
  then show ?thesis
    unfolding md5_iv_def MD5Transform_eq_loop md5_loop_def md5_empty_block x_def [symmetric] by simp
qed

lemma md5_spec_empty: "md5_spec [] = [0xd4, 0x1d, 0x8c, 0xd9, 0x8f, 0x00, 0xb2, 0x04, 0xe9, 0x80, 0x09, 0x98, 0xec, 0xf8, 0x42, 0x7e]"
proof -
  have "length_bytes 0 = [0, 0, 0, 0, 0, 0, 0, 0]"
    by (simp add: length_bytes_def encode_word_def)
  moreover have "[0, 0, 0, 0, 0, 0, 0, 0] = replicate 8 (0 :: byte)"
    by (simp add: numeral_eq_Suc)
  ultimately have "md5_pad [] = 0x80 # replicate 63 0"
    by (simp add: md5_pad_def flip: replicate_add)
  then have "compress md5_iv (md5_pad []) = (0xd98c1dd4, 0x4b2008f, 0x980980e9, 0x7e42f8ec)"
    using compress_block [of "0x80 # replicate 63 0" md5_iv "[]"] MD5Transform_empty by simp
  then show ?thesis by (simp add: md5_spec_def encode_word_def)
qed

section \<open>Properties\<close>

text \<open>
  C4. \<^verbatim>\<open>MD5Digest\<close> computes the digest of RFC 1321 for every input a 32-bit length can describe,
  whatever the memory of its context held before: the streaming code with its buffer and its
  two-word bit count gives what folding the compression function over the padded message gives.
\<close>

theorem MD5Digest_is_md5:
  assumes "length input < 2 ^ 32" and "length (buffer garbage) = 64"
  shows "MD5Digest garbage input = Inr (md5_spec input)"
proof -
  have "update_len_ok (length []) (length input)" using assms(1) by (simp add: update_len_ok_def)
  from MD5Update_ok [OF MD5Init_ok [OF assms(2)] this] obtain c where
    "MD5Update (MD5Init garbage) input = Inr c" "ctx_ok c input" by auto
  then show ?thesis by (simp add: MD5Digest_def MD5Final_ok)
qed

definition some_ctx :: MD5_CTX where
  "some_ctx = \<lparr>md5_state = (1, 2, 3, 4), count0 = 5, count1 = 6, buffer = replicate 64 7\<rparr>"

lemma MD5Digest_is_md5_witness: "MD5Digest some_ctx [] = Inr [0xd4, 0x1d, 0x8c, 0xd9, 0x8f, 0x00, 0xb2, 0x04, 0xe9, 0x80, 0x09, 0x98, 0xec, 0xf8, 0x42, 0x7e]"
  using MD5Digest_is_md5 [of "[]" some_ctx] by (simp add: some_ctx_def md5_spec_empty)

text \<open>
  C26. A message may be given to \<^verbatim>\<open>MD5Update\<close> in pieces of any sizes up to 2^32 - 64 bytes: the
  digest is that of the whole message.
\<close>

theorem MD5_streaming:
  assumes "length (buffer garbage) = 64" and "\<forall>p \<in> set pieces. length p + 64 \<le> 2 ^ 32"
  shows "bindR (foldR (\<lambda>p c. MD5Update c p) pieces (MD5Init garbage)) MD5Final = Inr (md5_spec (concat pieces))"
proof -
  have "\<exists>c'. foldR (\<lambda>p c. MD5Update c p) pieces c = Inr c' \<and> ctx_ok c' (m @ concat pieces)"
    if "ctx_ok c m" for c m
    using that assms(2)
  proof (induction pieces arbitrary: c m)
    case (Cons p ps)
    have "update_len_ok (length m) (length p)" using Cons.prems(2) by (simp add: update_len_ok_def)
    from MD5Update_ok [OF Cons.prems(1) this] obtain c1 where "MD5Update c p = Inr c1" "ctx_ok c1 (m @ p)"
      by blast
    with Cons.IH [of c1 "m @ p"] Cons.prems(2) show ?case by simp
  qed simp
  from this [OF MD5Init_ok [OF assms(1)]] show ?thesis by (auto simp: MD5Final_ok)
qed

lemma MD5_streaming_witness:
  "bindR (foldR (\<lambda>p c. MD5Update c p) [replicate 3 1, [], replicate 70 2] (MD5Init some_ctx)) MD5Final =
     Inr (md5_spec (replicate 3 1 @ replicate 70 2))"
  using MD5_streaming [of some_ctx "[replicate 3 1, [], replicate 70 2]"] by (simp add: some_ctx_def)

text \<open>
  C27. The unrolled \<^verbatim>\<open>MD5Transform\<close> is the loop of RFC 1321: the 64 macro calls with their
  rotating arguments, word indices, shifts and constants compute the 64 steps over the tables.
\<close>

theorem MD5Transform_is_loop: "MD5Transform st block = md5_loop st block"
  by (cases st) (simp only: MD5Transform_eq_loop)

text \<open>
  \<^verbatim>\<open>Encode\<close> and \<^verbatim>\<open>Decode\<close> are inverse to each other on words and on whole groups of four bytes.
\<close>

theorem Encode_Decode_roundtrip:
  "Decode (Encode ws) = ws \<and> (length bs mod 4 = 0 \<longrightarrow> Encode (Decode bs) = bs)"
  by (simp add: Encode_Decode)

lemma Encode_Decode_roundtrip_witness: "Encode (Decode [1, 2, 3, 4]) = [1, 2, 3, 4]"
  using Encode_Decode_roundtrip [of "[]" "[1, 2, 3, 4]"] by simp

text \<open>
  \<^verbatim>\<open>MD5::create\<close> never returns the digest: it runs over the end of its array when no byte of
  the digest is zero, and otherwise returns the bytes before the first zero byte, fewer than the
  16 the comment promises.
\<close>

theorem MD5_create_loses_digest:
  assumes "length src < 2 ^ 32" and "length (buffer garbage) = 64"
  shows "if 0 \<in> set (md5_spec src)
     then \<exists>s. MD5_create garbage src = Inr s \<and> length s < 16 \<and> s @ [0] = take (Suc (length s)) (md5_spec src)
     else MD5_create garbage src = Inl OutOfBounds"
proof (cases "0 \<in> set (md5_spec src)")
  case True
  have digest: "MD5Digest garbage src = Inr (md5_spec src)"
    using assms MD5Update_ok [OF MD5Init_ok [OF assms(2)], of src]
    by (auto simp: MD5Digest_def MD5Final_ok update_len_ok_def)
  from True obtain ys zs where split: "md5_spec src = ys @ 0 # zs" "0 \<notin> set ys"
    by (blast dest: split_list_first)
  have "length (md5_spec src) = 16" by (simp add: md5_spec_def split: prod.split)
  moreover have "takeWhile (\<lambda>b. b \<noteq> 0) (ys @ 0 # zs) = ys"
    using split(2) by (induction ys) auto
  ultimately show ?thesis using split digest by (simp add: MD5_create_def)
next
  case False
  have "MD5Digest garbage src = Inr (md5_spec src)"
    using assms MD5Update_ok [OF MD5Init_ok [OF assms(2)], of src]
    by (auto simp: MD5Digest_def MD5Final_ok update_len_ok_def)
  with False show ?thesis by (simp add: MD5_create_def)
qed

text \<open>The digest of the empty message has a zero byte in its tenth place.\<close>

lemma MD5_create_loses_digest_witness:
  "\<exists>s. MD5_create some_ctx [] = Inr s \<and> length s < 16"
proof -
  have "0 \<in> set (md5_spec [])" by (simp add: md5_spec_empty)
  with MD5_create_loses_digest [of "[]" some_ctx] show ?thesis by (auto simp: some_ctx_def)
qed

end
