(* ===== verification/Zlib_Wrappers.thy ===== *)
theory Zlib_Wrappers
  imports Prelude
begin

text \<open>
  \<^verbatim>\<open>svrutil::Zlib\<close>: the loops around the compression library. The library itself is a parameter: a
  record of its functions, each of which takes the stream's state and what the caller offers (the
  bytes that can be read, how many of them are offered, how much room there is) and answers with a
  code, the number of bytes it read, the bytes it wrote and its next state.
\<close>

datatype zcode = Z_OK | Z_STREAM_END | Z_BUF_ERROR | Z_DATA_ERROR | Z_STREAM_ERROR

datatype zflush = Z_NO_FLUSH | Z_FINISH

record 'z zlib =
  deflateInit2 :: "int \<Rightarrow> 'z option"
  deflate :: "'z \<Rightarrow> zflush \<Rightarrow> string \<Rightarrow> nat \<Rightarrow> nat \<Rightarrow> zcode \<times> nat \<times> string \<times> 'z"
  deflateEnd :: "'z \<Rightarrow> bool"
  inflateInit2 :: "int \<Rightarrow> 'z option"
  inflate :: "'z \<Rightarrow> string \<Rightarrow> nat \<Rightarrow> nat \<Rightarrow> zcode \<times> nat \<times> string \<times> 'z"
  inflateEnd :: "'z \<Rightarrow> bool"

text \<open>
  A stream: \<open>next_in\<close> is what can be read from the input pointer on, \<open>z_out\<close> what was written so far.
\<close>

record 'z z_stream =
  z_state :: 'z
  next_in :: string
  avail_in :: nat
  z_out :: string
  avail_out :: nat
  total_in :: nat
  total_out :: nat

definition MAX_WBITS :: int where
  "MAX_WBITS = 15"

text \<open>A call of the library: reading behind what can be read is out of bounds.\<close>

definition z_advance :: "zcode \<times> nat \<times> string \<times> 'z \<Rightarrow> 'z z_stream \<Rightarrow> (zcode \<times> 'z z_stream) res" where
  "z_advance r st =
     (case r of (code, used, bytes, z) \<Rightarrow>
        if length (next_in st) < used then Inl OutOfBounds
        else Inr (code, st\<lparr>z_state := z, next_in := drop used (next_in st), avail_in := avail_in st - used,
               z_out := z_out st @ bytes, avail_out := avail_out st - length bytes,
               total_in := total_in st + used, total_out := total_out st + length bytes\<rparr>))"

definition z_deflate :: "'z zlib \<Rightarrow> zflush \<Rightarrow> 'z z_stream \<Rightarrow> (zcode \<times> 'z z_stream) res" where
  "z_deflate lib fl st = z_advance (deflate lib (z_state st) fl (next_in st) (avail_in st) (avail_out st)) st"

definition z_inflate :: "'z zlib \<Rightarrow> 'z z_stream \<Rightarrow> (zcode \<times> 'z z_stream) res" where
  "z_inflate lib st = z_advance (inflate lib (z_state st) (next_in st) (avail_in st) (avail_out st)) st"

section \<open>Compressing\<close>

text \<open>
  Loops take fuel; \<open>None\<close> is a loop that has not ended yet. \<open>Inl\<close> is an early return with its value.
\<close>

fun deflate_input :: "nat \<Rightarrow> 'z zlib \<Rightarrow> nat \<Rightarrow> 'z z_stream \<Rightarrow> (int + 'z z_stream) option res" where
  "deflate_input 0 lib nzdata st = Inr None"
| "deflate_input (Suc fuel) lib nzdata st =
     (if avail_in st \<noteq> 0 \<and> total_out st < nzdata then
        bindR (z_deflate lib Z_NO_FLUSH st) (\<lambda>(code, st).
          if code \<noteq> Z_OK then Inr (Some (Inl (-1))) else deflate_input fuel lib nzdata st)
      else Inr (Some (Inr st)))"

fun deflate_finish :: "nat \<Rightarrow> 'z zlib \<Rightarrow> 'z z_stream \<Rightarrow> (int + 'z z_stream) option res" where
  "deflate_finish 0 lib st = Inr None"
| "deflate_finish (Suc fuel) lib st =
     bindR (z_deflate lib Z_FINISH st) (\<lambda>(err, st).
       if err = Z_STREAM_END then Inr (Some (Inr st))
       else if err \<noteq> Z_OK then Inr (Some (Inl (-1)))
       else deflate_finish fuel lib st)"

text \<open>
  The body \<^verbatim>\<open>zcompress\<close> and \<^verbatim>\<open>gzcompress\<close> share; they differ in how the stream is set up. The result is
  the returned code and, when it is 0, the bytes whose number is stored in \<^verbatim>\<open>*nzdata\<close>.
\<close>

definition compress_with ::
  "nat \<Rightarrow> 'z zlib \<Rightarrow> int \<Rightarrow> string option \<Rightarrow> nat \<Rightarrow> nat \<Rightarrow> (int \<times> string) option res" where
  "compress_with fuel lib wbits data ndata nzdata =
     (case data of
        None \<Rightarrow> Inr (Some (-1, []))
      | Some d \<Rightarrow>
          if ndata = 0 then Inr (Some (-1, []))
          else case deflateInit2 lib wbits of
            None \<Rightarrow> Inr (Some (-1, []))
          | Some z \<Rightarrow>
              bindR (deflate_input fuel lib nzdata
                 \<lparr>z_state = z, next_in = d, avail_in = ndata, z_out = [], avail_out = nzdata, total_in = 0, total_out = 0\<rparr>) (\<lambda>r.
              case r of
                None \<Rightarrow> Inr None
              | Some (Inl c) \<Rightarrow> Inr (Some (c, []))
              | Some (Inr st) \<Rightarrow>
                  if avail_in st \<noteq> 0 then Inr (Some (int (avail_in st), z_out st))
                  else
                    bindR (deflate_finish fuel lib st) (\<lambda>r.
                    case r of
                      None \<Rightarrow> Inr None
                    | Some (Inl c) \<Rightarrow> Inr (Some (c, []))
                    | Some (Inr st) \<Rightarrow>
                        if \<not> deflateEnd lib (z_state st) then Inr (Some (-1, [])) else Inr (Some (0, z_out st)))))"

definition zcompress :: "nat \<Rightarrow> 'z zlib \<Rightarrow> string option \<Rightarrow> nat \<Rightarrow> nat \<Rightarrow> (int \<times> string) option res" where
  "zcompress fuel lib = compress_with fuel lib MAX_WBITS"

definition gzcompress :: "nat \<Rightarrow> 'z zlib \<Rightarrow> string option \<Rightarrow> nat \<Rightarrow> nat \<Rightarrow> (int \<times> string) option res" where
  "gzcompress fuel lib = compress_with fuel lib (- MAX_WBITS)"

section \<open>Decompressing\<close>

definition inflate_start :: "'z \<Rightarrow> string \<Rightarrow> 'z z_stream" where
  "inflate_start z zdata =
     \<lparr>z_state = z, next_in = zdata, avail_in = 0, z_out = [], avail_out = 0, total_in = 0, total_out = 0\<rparr>"

fun inflate_loop :: "nat \<Rightarrow> 'z zlib \<Rightarrow> nat \<Rightarrow> nat \<Rightarrow> 'z z_stream \<Rightarrow> (int + 'z z_stream) option res" where
  "inflate_loop 0 lib nzdata ndata st = Inr None"
| "inflate_loop (Suc fuel) lib nzdata ndata st =
     (if total_out st < ndata \<and> total_in st < nzdata then
        bindR (z_inflate lib (st\<lparr>avail_in := 1, avail_out := 1\<rparr>)) (\<lambda>(err, st).
          if err = Z_STREAM_END then Inr (Some (Inr st))
          else if err \<noteq> Z_OK then Inr (Some (Inl (-1)))
          else inflate_loop fuel lib nzdata ndata st)
      else Inr (Some (Inr st)))"

definition inflate_result :: "'z zlib \<Rightarrow> (int + 'z z_stream) option \<Rightarrow> (int \<times> string) option res" where
  "inflate_result lib r =
     (case r of
        None \<Rightarrow> Inr None
      | Some (Inl c) \<Rightarrow> Inr (Some (c, []))
      | Some (Inr st) \<Rightarrow> if \<not> inflateEnd lib (z_state st) then Inr (Some (-1, [])) else Inr (Some (0, z_out st)))"

definition zdecompress :: "nat \<Rightarrow> 'z zlib \<Rightarrow> string \<Rightarrow> nat \<Rightarrow> nat \<Rightarrow> (int \<times> string) option res" where
  "zdecompress fuel lib zdata nzdata ndata =
     (case inflateInit2 lib MAX_WBITS of
        None \<Rightarrow> Inr (Some (-1, []))
      | Some z \<Rightarrow> bindR (inflate_loop fuel lib nzdata ndata (inflate_start z zdata)) (inflate_result lib))"

definition dummy_head :: string where
  "dummy_head = map char_of [0x8 + 0x7 * 0x10, (((0x8 + 0x7 * 0x10) * 0x100 + 30) div 31 * 31) mod 0x100 :: nat]"

fun inflate_retry :: "nat \<Rightarrow> 'z zlib \<Rightarrow> nat \<Rightarrow> nat \<Rightarrow> 'z z_stream \<Rightarrow> (int + 'z z_stream) option res" where
  "inflate_retry 0 lib nzdata ndata st = Inr None"
| "inflate_retry (Suc fuel) lib nzdata ndata st =
     (if total_out st < ndata \<and> total_in st < nzdata then
        bindR (z_inflate lib (st\<lparr>avail_in := 1, avail_out := 1\<rparr>)) (\<lambda>(err, st).
          if err = Z_STREAM_END then Inr (Some (Inr st))
          else if err \<noteq> Z_OK then
            if err = Z_DATA_ERROR then
              bindR (z_inflate lib (st\<lparr>next_in := dummy_head, avail_in := length dummy_head\<rparr>)) (\<lambda>(err, st).
                if err \<noteq> Z_OK then Inr (Some (Inl (-1))) else inflate_retry fuel lib nzdata ndata st)
            else Inr (Some (Inl (-1)))
          else inflate_retry fuel lib nzdata ndata st)
      else Inr (Some (Inr st)))"

definition httpgzdecompress :: "nat \<Rightarrow> 'z zlib \<Rightarrow> string \<Rightarrow> nat \<Rightarrow> nat \<Rightarrow> (int \<times> string) option res" where
  "httpgzdecompress fuel lib zdata nzdata ndata =
     (case inflateInit2 lib 47 of
        None \<Rightarrow> Inr (Some (-1, []))
      | Some z \<Rightarrow> bindR (inflate_retry fuel lib nzdata ndata (inflate_start z zdata)) (inflate_result lib))"

definition gzdecompress :: "nat \<Rightarrow> 'z zlib \<Rightarrow> string \<Rightarrow> nat \<Rightarrow> nat \<Rightarrow> (int \<times> string) option res" where
  "gzdecompress fuel lib zdata nzdata ndata =
     (case inflateInit2 lib (- MAX_WBITS) of
        None \<Rightarrow> Inr (Some (-1, []))
      | Some z \<Rightarrow> bindR (inflate_retry fuel lib nzdata ndata (inflate_start z zdata)) (inflate_result lib))"

section \<open>A compressed chunk of an HTTP response\<close>

text \<open>
  \<^verbatim>\<open>strstr\<close> for a text that is not empty, in memory of which only the given characters can be read:
  the characters in front of the match, up to the null character.
\<close>

fun strstr :: "string \<Rightarrow> string \<Rightarrow> nat option res" where
  "strstr pat [] = Inl OutOfBounds"
| "strstr pat (c # cs) =
     (if c = CHR 0x00 then Inr None
      else if take (length pat) (c # cs) = pat then Inr (Some 0)
      else bindR (strstr pat cs) (\<lambda>r. Inr (map_option Suc r)))"

definition hex_digit :: "char \<Rightarrow> nat option" where
  "hex_digit c =
     (let n = of_char c :: nat in
      if 48 \<le> n \<and> n \<le> 57 then Some (n - 48)
      else if 97 \<le> n \<and> n \<le> 102 then Some (n - 87)
      else if 65 \<le> n \<and> n \<le> 70 then Some (n - 55)
      else None)"

text \<open>
  \<^verbatim>\<open>sscanf\<close> with \<^verbatim>\<open>%x\<close> into 32 bits: blanks, a sign, \<^verbatim>\<open>0x\<close> and the digits; \<open>None\<close> if there are none.
\<close>

definition scan_hex :: "string \<Rightarrow> nat option" where
  "scan_hex s =
     (let s = dropWhile (\<lambda>c. c \<in> {CHR 0x20, CHR 0x09, CHR 0x0A, CHR 0x0B, CHR 0x0C, CHR 0x0D}) s;
          neg = (take 1 s = ''-'');
          s = (if neg \<or> take 1 s = ''+'' then drop 1 s else s);
          s = (if (take 2 s = ''0x'' \<or> take 2 s = ''0X'') \<and> (\<exists>c \<in> set (take 1 (drop 2 s)). hex_digit c \<noteq> None) then drop 2 s else s);
          ds = takeWhile (\<lambda>c. hex_digit c \<noteq> None) s;
          v = foldl (\<lambda>v c. (v * 16 + int (the (hex_digit c))) mod 2 ^ 32) 0 ds
      in if ds = [] then None else Some (nat (if neg then - v mod 2 ^ 32 else v)))"

text \<open>
  The first part of \<^verbatim>\<open>inflateHTTPGzip\<close>: the size written in front of the first chunk and what can be
  read from the chunk on. \<^verbatim>\<open>sscanf\<close> looks for the null character before it starts.
\<close>

definition http_chunk :: "string \<Rightarrow> (nat \<times> string) option res" where
  "http_chunk src =
     bindR (strstr [CHR 0x0D, CHR 0x0A, CHR 0x0D, CHR 0x0A] src) (\<lambda>i. case i of
       None \<Rightarrow> Inr None
     | Some i \<Rightarrow>
         let pStart = drop (i + 4) src in
         if CHR 0x00 \<notin> set pStart then Inl OutOfBounds
         else
           (case scan_hex (takeWhile (\<lambda>c. c \<noteq> CHR 0x00) pStart) of
              None \<Rightarrow> Inr None
            | Some n \<Rightarrow>
                bindR (strstr [CHR 0x0D, CHR 0x0A] pStart) (\<lambda>j. case j of
                  None \<Rightarrow> Inr None
                | Some j \<Rightarrow> Inr (Some (n, drop (j + 2) pStart)))))"

definition SUCCESS :: int where "SUCCESS = 0"

definition INVALID_STRING :: int where "INVALID_STRING = 1"

definition ZLIB_ERROR :: int where "ZLIB_ERROR = 2"

text \<open>The module handle is kept between calls; \<open>load\<close> says which libraries the system can load.\<close>

definition loadZlib :: "(string \<Rightarrow> bool) \<Rightarrow> string \<Rightarrow> bool \<Rightarrow> bool \<times> bool" where
  "loadZlib load path hModule = (if \<not> hModule then (let hModule = load path in (hModule, hModule)) else (True, hModule))"

text \<open>
  \<open>src\<close> is what can be read from the pointer on. The code, and after success the bytes written (their
  number is stored in \<^verbatim>\<open>*outputLen\<close>). \<^verbatim>\<open>srcLen\<close> is never looked at, and \<^verbatim>\<open>destLen - 1\<close> wraps.
\<close>

definition inflateHTTPGzip :: "'z zlib \<Rightarrow> nat \<Rightarrow> string \<Rightarrow> nat \<Rightarrow> (int \<times> string) res" where
  "inflateHTTPGzip lib destLen src srcLen =
     bindR (http_chunk src) (\<lambda>r. case r of
       None \<Rightarrow> Inr (INVALID_STRING, [])
     | Some (n, pStart) \<Rightarrow>
         (case inflateInit2 lib 47 of
            None \<Rightarrow> Inr (ZLIB_ERROR, [])
          | Some z \<Rightarrow>
              bindR (z_inflate lib \<lparr>z_state = z, next_in = pStart, avail_in = n, z_out = [],
                  avail_out = nat ((int destLen - 1) mod 2 ^ 32), total_in = 0, total_out = 0\<rparr>) (\<lambda>(err, st).
              if err \<noteq> Z_STREAM_END then Inr (ZLIB_ERROR, [])
              else if \<not> inflateEnd lib (z_state st) then Inr (ZLIB_ERROR, [])
              else Inr (SUCCESS, z_out st))))"

section \<open>Scanning a response\<close>

lemma strstr_terminated:
  assumes "CHR 0x00 \<in> set s" and "CHR 0x00 \<notin> set pat"
  shows "\<exists>r. strstr pat s = Inr r \<and> (\<forall>i. r = Some i \<longrightarrow> CHR 0x00 \<in> set (drop (i + length pat) s))"
  using assms(1)
proof (induction s)
  case (Cons c cs)
  show ?case
  proof (cases "take (length pat) (c # cs) = pat")
    case True
    from Cons.prems have "CHR 0x00 \<in> set (take (length pat) (c # cs) @ drop (length pat) (c # cs))" by simp
    with True assms(2) show ?thesis by (auto simp del: append_take_drop_id)
  next
    case False
    with Cons show ?thesis by (cases "c = CHR 0x00") auto
  qed
qed simp

text \<open>A response that is terminated is scanned within its bounds.\<close>

lemma http_chunk_returns:
  assumes "CHR 0x00 \<in> set src"
  shows "\<exists>r. http_chunk src = Inr r"
proof -
  let ?h = "[CHR 0x0D, CHR 0x0A, CHR 0x0D, CHR 0x0A]"
  have n: "CHR 0x00 \<notin> set ?h" "CHR 0x00 \<notin> set [CHR 0x0D, CHR 0x0A]" by simp_all
  from strstr_terminated [OF assms n(1)] obtain r where r: "strstr ?h src = Inr r"
    "\<And>i. r = Some i \<Longrightarrow> CHR 0x00 \<in> set (drop (i + length ?h) src)" by blast
  show ?thesis
  proof (cases r)
    case None
    with r(1) show ?thesis by (simp add: http_chunk_def)
  next
    case (Some i)
    from r(2) [OF this] have t: "CHR 0x00 \<in> set (drop (i + 4) src)" by (simp add: eval_nat_numeral)
    from strstr_terminated [OF t n(2)] obtain q where "strstr [CHR 0x0D, CHR 0x0A] (drop (i + 4) src) = Inr q" by blast
    with r(1) Some t show ?thesis by (auto simp: http_chunk_def Let_def split: option.split)
  qed
qed

section \<open>What the wrappers rely on\<close>

text \<open>
  The documented behaviour of the library: it reads and writes no more than it is offered, and
  \<^verbatim>\<open>Z_OK\<close> means that some progress was made.
\<close>

locale zlib_laws =
  fixes lib :: "'z zlib"
  assumes deflate_bounds: "deflate lib z fl inp n m = (code, used, bytes, z') \<Longrightarrow> used \<le> n \<and> length bytes \<le> m"
    and deflate_progress: "deflate lib z fl inp n m = (Z_OK, used, bytes, z') \<Longrightarrow> 0 < used + length bytes"
    and inflate_bounds: "inflate lib z inp n m = (code, used, bytes, z') \<Longrightarrow> used \<le> n \<and> length bytes \<le> m"
    and inflate_progress: "inflate lib z inp n m = (Z_OK, used, bytes, z') \<Longrightarrow> 0 < used + length bytes"
begin

text \<open>The stream while compressing: what is offered can be read, and what was written fits.\<close>

definition deflating :: "nat \<Rightarrow> 'z z_stream \<Rightarrow> bool" where
  "deflating cap st \<longleftrightarrow> avail_in st \<le> length (next_in st) \<and> length (z_out st) + avail_out st = cap"

lemma deflate_call:
  assumes "deflating cap st"
  shows "\<exists>code st'. z_deflate lib fl st = Inr (code, st') \<and> deflating cap st' \<and>
     avail_in st' + avail_out st' \<le> avail_in st + avail_out st \<and>
     (code = Z_OK \<longrightarrow> avail_in st' + avail_out st' < avail_in st + avail_out st)"
proof -
  obtain code used bytes z where d: "deflate lib (z_state st) fl (next_in st) (avail_in st) (avail_out st) = (code, used, bytes, z)"
    by (metis prod.exhaust)
  from deflate_bounds [OF d] have b: "used \<le> avail_in st" "length bytes \<le> avail_out st" by auto
  have pr: "code = Z_OK \<Longrightarrow> 0 < used + length bytes" using deflate_progress d by blast
  define st' where "st' = st\<lparr>z_state := z, next_in := drop used (next_in st), avail_in := avail_in st - used,
       z_out := z_out st @ bytes, avail_out := avail_out st - length bytes,
       total_in := total_in st + used, total_out := total_out st + length bytes\<rparr>"
  have "avail_in st' = avail_in st - used" "avail_out st' = avail_out st - length bytes" by (simp_all add: st'_def)
  then have "avail_in st' + avail_out st' = avail_in st + avail_out st - (used + length bytes)" using b by linarith
  moreover have "z_deflate lib fl st = Inr (code, st')" "deflating cap st'"
    using d b assms by (auto simp: z_deflate_def z_advance_def deflating_def st'_def)
  ultimately show ?thesis using pr b by (intro exI [of _ code] exI [of _ st']) linarith
qed

lemma deflate_input_ends:
  "deflating cap st \<Longrightarrow> avail_in st + avail_out st < fuel \<Longrightarrow>
   \<exists>r. deflate_input fuel lib nz st = Inr (Some r) \<and>
     (\<forall>st'. r = Inr st' \<longrightarrow> deflating cap st' \<and> avail_in st' + avail_out st' \<le> avail_in st + avail_out st)"
proof (induction fuel arbitrary: st)
  case (Suc fuel)
  show ?case
  proof (cases "avail_in st \<noteq> 0 \<and> total_out st < nz")
    case True
    obtain code st' where c: "z_deflate lib Z_NO_FLUSH st = Inr (code, st')" "deflating cap st'"
      "avail_in st' + avail_out st' \<le> avail_in st + avail_out st"
      "code = Z_OK \<Longrightarrow> avail_in st' + avail_out st' < avail_in st + avail_out st"
      using deflate_call [OF Suc.prems(1)] by blast
    show ?thesis
    proof (cases "code = Z_OK")
      case ok: True
      from Suc.IH [OF c(2)] c(4) [OF ok] Suc.prems(2) obtain r where
        "deflate_input fuel lib nz st' = Inr (Some r)"
        "\<forall>st''. r = Inr st'' \<longrightarrow> deflating cap st'' \<and> avail_in st'' + avail_out st'' \<le> avail_in st' + avail_out st'" by auto
      with True c(1,3) ok show ?thesis by fastforce
    qed (use True c(1) in auto)
  qed (use Suc.prems in auto)
qed simp

lemma deflate_finish_ends:
  "deflating cap st \<Longrightarrow> avail_in st + avail_out st < fuel \<Longrightarrow>
   \<exists>r. deflate_finish fuel lib st = Inr (Some r) \<and> (\<forall>st'. r = Inr st' \<longrightarrow> deflating cap st')"
proof (induction fuel arbitrary: st)
  case (Suc fuel)
  obtain code st' where c: "z_deflate lib Z_FINISH st = Inr (code, st')" "deflating cap st'"
    "code = Z_OK \<Longrightarrow> avail_in st' + avail_out st' < avail_in st + avail_out st"
    using deflate_call [OF Suc.prems(1)] by blast
  show ?case
  proof (cases "code = Z_OK")
    case ok: True
    with Suc.IH [OF c(2)] c(1,3) Suc.prems(2) show ?thesis by auto
  qed (use c in auto)
qed simp

lemma compress_ends:
  assumes "ndata \<le> length d" and "ndata + nzdata < fuel"
  shows "\<exists>c out. compress_with fuel lib w (Some d) ndata nzdata = Inr (Some (c, out)) \<and> length out \<le> nzdata"
proof (cases "deflateInit2 lib w")
  case (Some z)
  let ?st = "\<lparr>z_state = z, next_in = d, avail_in = ndata, z_out = [], avail_out = nzdata, total_in = 0, total_out = 0\<rparr>"
  have st: "deflating nzdata ?st" "avail_in ?st + avail_out ?st < fuel" using assms by (simp_all add: deflating_def)
  obtain r where r: "deflate_input fuel lib nzdata ?st = Inr (Some r)"
    "\<And>st'. r = Inr st' \<Longrightarrow> deflating nzdata st' \<and> avail_in st' + avail_out st' \<le> ndata + nzdata"
    using deflate_input_ends [OF st, of nzdata] by auto
  show ?thesis
  proof (cases "ndata = 0")
    case False
    show ?thesis
    proof (cases r)
      case (Inr st1)
      from r(2) [OF Inr] have s1: "deflating nzdata st1" "avail_in st1 + avail_out st1 < fuel" using assms(2) by auto
      obtain r2 where r2: "deflate_finish fuel lib st1 = Inr (Some r2)" "\<And>st'. r2 = Inr st' \<Longrightarrow> deflating nzdata st'"
        using deflate_finish_ends [OF s1] by auto
      have "length (z_out st') \<le> nzdata" if "deflating nzdata st'" for st' using that by (simp add: deflating_def)
      with r(1) Inr r2 s1(1) False Some show ?thesis
        by (cases r2) (auto simp: compress_with_def)
    qed (use r(1) False Some in \<open>auto simp: compress_with_def\<close>)
  qed (simp add: compress_with_def)
qed (simp add: compress_with_def)

text \<open>Decompressing: every round offers one byte of what is left and room for one.\<close>

definition inflating :: "nat \<Rightarrow> nat \<Rightarrow> 'z z_stream \<Rightarrow> bool" where
  "inflating nzdata ndata st \<longleftrightarrow> total_in st \<le> nzdata \<and> nzdata - total_in st \<le> length (next_in st) \<and>
     total_out st = length (z_out st) \<and> total_out st \<le> ndata"

lemma inflate_call:
  assumes "inflating nz nd st" and "total_in st < nz" and "total_out st < nd"
  shows "\<exists>code st'. z_inflate lib (st\<lparr>avail_in := 1, avail_out := 1\<rparr>) = Inr (code, st') \<and> inflating nz nd st' \<and>
     (code = Z_OK \<longrightarrow> (nz - total_in st') + (nd - total_out st') < (nz - total_in st) + (nd - total_out st))"
proof -
  obtain code used bytes z where d: "inflate lib (z_state st) (next_in st) 1 1 = (code, used, bytes, z)" by (metis prod.exhaust)
  from inflate_bounds [OF d] have b: "used \<le> 1" "length bytes \<le> 1" by auto
  have pr: "code = Z_OK \<Longrightarrow> 0 < used + length bytes" using inflate_progress d by blast
  define st' where "st' = st\<lparr>avail_in := 1 - used, avail_out := 1 - length bytes, z_state := z, next_in := drop used (next_in st),
       z_out := z_out st @ bytes, total_in := total_in st + used, total_out := total_out st + length bytes\<rparr>"
  have t: "total_in st' = total_in st + used" "total_out st' = total_out st + length bytes" by (simp_all add: st'_def)
  have "z_inflate lib (st\<lparr>avail_in := 1, avail_out := 1\<rparr>) = Inr (code, st')" "inflating nz nd st'"
    using d b assms by (auto simp: z_inflate_def z_advance_def inflating_def st'_def)
  then show ?thesis using pr b assms(2,3) t by (intro exI [of _ code] exI [of _ st']) linarith
qed

lemma inflate_loop_ends:
  "inflating nz nd st \<Longrightarrow> (nz - total_in st) + (nd - total_out st) < fuel \<Longrightarrow>
   \<exists>r. inflate_loop fuel lib nz nd st = Inr (Some r) \<and> (\<forall>st'. r = Inr st' \<longrightarrow> inflating nz nd st')"
proof (induction fuel arbitrary: st)
  case (Suc fuel)
  show ?case
  proof (cases "total_out st < nd \<and> total_in st < nz")
    case True
    obtain code st' where c: "z_inflate lib (st\<lparr>avail_in := 1, avail_out := 1\<rparr>) = Inr (code, st')" "inflating nz nd st'"
      "code = Z_OK \<Longrightarrow> (nz - total_in st') + (nd - total_out st') < (nz - total_in st) + (nd - total_out st)"
      using inflate_call [OF Suc.prems(1)] True by blast
    show ?thesis
    proof (cases "code = Z_OK")
      case ok: True
      with Suc.IH [OF c(2)] c(1,3) True Suc.prems(2) show ?thesis by auto
    qed (use c True in auto)
  qed (use Suc.prems in auto)
qed simp

lemma zdecompress_ends:
  assumes "nzdata \<le> length zdata" and "nzdata + ndata < fuel"
  shows "\<exists>c out. zdecompress fuel lib zdata nzdata ndata = Inr (Some (c, out)) \<and> length out \<le> ndata"
proof (cases "inflateInit2 lib MAX_WBITS")
  case (Some z)
  have "inflating nzdata ndata (inflate_start z zdata)" using assms(1) by (simp add: inflating_def inflate_start_def)
  then obtain r where r: "inflate_loop fuel lib nzdata ndata (inflate_start z zdata) = Inr (Some r)"
    "\<And>st'. r = Inr st' \<Longrightarrow> inflating nzdata ndata st'"
    using inflate_loop_ends [of nzdata ndata "inflate_start z zdata" fuel] assms(2) by (auto simp: inflate_start_def)
  have "length (z_out st') \<le> ndata" if "r = Inr st'" for st' using r(2) [OF that] by (simp add: inflating_def)
  with r(1) Some show ?thesis by (cases r) (auto simp: zdecompress_def inflate_result_def)
qed (simp add: zdecompress_def)

text \<open>
  A chunk that is completely there is handled without a fault, and no more than the room for it is
  written, provided there is any.
\<close>

lemma inflateHTTPGzip_returns:
  assumes "http_chunk src = Inr (Some (n, rest))" and "n \<le> length rest" and "0 < destLen" and "destLen < 2 ^ 32"
  shows "\<exists>c out. inflateHTTPGzip lib destLen src srcLen = Inr (c, out) \<and> length out < destLen"
proof (cases "inflateInit2 lib 47")
  case (Some z)
  have room: "nat ((int destLen - 1) mod 2 ^ 32) = destLen - 1" "nat (int destLen - 1) = destLen - 1"
    using assms(3,4) by (simp_all add: of_nat_diff)
  obtain code used bytes z' where d: "inflate lib z rest n (destLen - 1) = (code, used, bytes, z')" by (metis prod.exhaust)
  from inflate_bounds [OF d] assms(2,3) have "used \<le> length rest" "length bytes < destLen" by auto
  with d room Some assms(1,3) show ?thesis by (simp add: inflateHTTPGzip_def z_inflate_def z_advance_def)
qed (use assms in \<open>simp add: inflateHTTPGzip_def\<close>)

end

section \<open>A library to try the laws on\<close>

text \<open>It stores the bytes as they are; its state counts the bytes that went through.\<close>

definition stored_deflate :: "nat \<Rightarrow> zflush \<Rightarrow> string \<Rightarrow> nat \<Rightarrow> nat \<Rightarrow> zcode \<times> nat \<times> string \<times> nat" where
  "stored_deflate z fl inp n m =
     (let k = min (min n m) (length inp) in
      (if fl = Z_FINISH \<and> k = n then Z_STREAM_END else if k = 0 then Z_BUF_ERROR else Z_OK, k, take k inp, z + k))"

definition stored_lib :: "nat zlib" where
  "stored_lib =
     \<lparr>deflateInit2 = (\<lambda>_. Some 0), deflate = stored_deflate, deflateEnd = (\<lambda>_. True),
      inflateInit2 = (\<lambda>_. Some 0), inflate = (\<lambda>z inp n m. stored_deflate z Z_NO_FLUSH inp n m), inflateEnd = (\<lambda>_. True)\<rparr>"

interpretation stored: zlib_laws stored_lib
  by unfold_locales (auto simp: stored_lib_def stored_deflate_def Let_def split: if_splits)

section \<open>Properties\<close>



text \<open>
  The retry of \<^verbatim>\<open>httpgzdecompress\<close> and \<^verbatim>\<open>gzdecompress\<close> with a made-up header leaves the input pointer
  in that header: if the library takes the two bytes and goes on, the next byte is read behind the
  end of the two-byte array instead of from the data.
\<close>

theorem dummy_head_overread:
  assumes "inflateInit2 lib 47 = Some z0" and "inflateInit2 lib (- MAX_WBITS) = Some z0"
    and "inflate lib z0 zdata 1 1 = (Z_DATA_ERROR, 1, [], z1)" and "inflate lib z1 dummy_head 2 1 = (Z_OK, 2, [], z2)"
    and "inflate lib z2 [] 1 1 = (code, 1, bytes, z3)"
    and "zdata \<noteq> []" and "3 < nzdata" and "0 < ndata" and "2 \<le> fuel"
  shows "httpgzdecompress fuel lib zdata nzdata ndata = Inl OutOfBounds \<and>
     gzdecompress fuel lib zdata nzdata ndata = Inl OutOfBounds"
proof -
  obtain f where f: "fuel = Suc (Suc f)" using assms(9) by (metis add_2_eq_Suc le_Suc_ex)
  have dh: "length dummy_head = 2" by (simp add: dummy_head_def)
  have "inflate_retry fuel lib nzdata ndata (inflate_start z0 zdata) = Inl OutOfBounds"
    using assms(3-8) dh by (simp add: f z_inflate_def z_advance_def inflate_start_def Suc_le_eq)
  with assms(1,2) show ?thesis by (simp add: httpgzdecompress_def gzdecompress_def)
qed

text \<open>A library that refuses the first byte, takes the header and then reads on.\<close>

definition stubborn_lib :: "nat zlib" where
  "stubborn_lib = stored_lib\<lparr>inflate := (\<lambda>z inp n m.
     if z = 0 then (Z_DATA_ERROR, 1, [], 1) else if z = 1 then (Z_OK, n, [], 2) else (Z_OK, 1, [], 3))\<rparr>"

lemma dummy_head_overread_witness:
  "httpgzdecompress 10 stubborn_lib ''abcdef'' 6 10 = Inl OutOfBounds"
  using dummy_head_overread [of stubborn_lib 0 "''abcdef''" 1 2 Z_OK "[]" 3 6 10 10]
  by (simp add: stubborn_lib_def stored_lib_def)

end
