(* ===== verification/Dispatcher.thy ===== *)
theory Dispatcher
  imports Locks "HOL-Library.Multiset"
begin

text \<open>
  The template \<^verbatim>\<open>svrutil::EventDispatcher\<close>: a queue of named events, a map from names to
  callbacks and a number of worker threads that take events from the queue and run the callback
  of their name. A worker is a program counter with its local variables; what it does between
  taking and releasing the dispatcher's lock is one step, everything it does without the lock is
  a step of its own. A step of the whole system is a step of one worker or a call of a client
  (a callback that calls its dispatcher is such a client), so that the interleavings are the
  sequences of steps. Pointers to callbacks and to arguments are addresses; an iterator is the
  number of the map node it points to, and a node's number is never given out again.
\<close>

section \<open>The dispatcher\<close>

datatype ed_status = RUNNING | SUSPEND | HALT

type_synonym event = "string \<times> addr"

record 'l EventDispatcher =
  ed_maxThreadNum :: int
  ed_sleepTime :: int
  ed_status :: ed_status
  ed_threadList :: "nat list"
  ed_eventList :: "event list"
  ed_callbackMap :: "(string, nat \<times> addr) smap"
  ed_nextNode :: nat
  ed_lock :: "'l SRWLock"

definition DEFAULT_MAXTHREAD_NUM :: int where
  "DEFAULT_MAXTHREAD_NUM = 16"

definition DEFAULT_SLEEP_TIME :: int where
  "DEFAULT_SLEEP_TIME = 100"

definition set_ed_lock :: "'l SRWLock \<Rightarrow> 'l EventDispatcher \<Rightarrow> 'l EventDispatcher" where
  "set_ed_lock l d = d\<lparr>ed_lock := l\<rparr>"

text \<open>The local variables of \<^verbatim>\<open>workThread\<close>, and the places where it can be interrupted.\<close>

datatype wpc = CheckHalt | CheckSuspend | GetEvent | FindCallback | RunCallback | Running | Finished

record worker =
  w_pc :: wpc
  w_name :: string
  w_arg :: addr
  w_it :: "nat option"
  w_runFlag :: bool

definition worker_start :: worker where
  "worker_start = \<lparr>w_pc = CheckHalt, w_name = [], w_arg = 0, w_it = None, w_runFlag = False\<rparr>"

definition get_event ::
  "'l srw_api \<Rightarrow> worker \<Rightarrow> 'l EventDispatcher \<Rightarrow> (worker \<times> 'l EventDispatcher) res" where
  "get_event api w =
     exclusive api ed_lock set_ed_lock (\<lambda>d.
       case ed_eventList d of
         (name, arg) # rest \<Rightarrow>
           Inr (w\<lparr>w_name := name, w_arg := arg, w_pc := FindCallback\<rparr>, d\<lparr>ed_eventList := rest\<rparr>)
       | [] \<Rightarrow> Inr (w\<lparr>w_pc := CheckHalt\<rparr>, d))"

definition find_callback ::
  "'l srw_api \<Rightarrow> worker \<Rightarrow> 'l EventDispatcher \<Rightarrow> (worker \<times> 'l EventDispatcher) res" where
  "find_callback api w =
     shared api ed_lock set_ed_lock (\<lambda>d.
       case map_of (ed_callbackMap d) (w_name w) of
         Some (node, _) \<Rightarrow> Inr (w\<lparr>w_it := Some node, w_runFlag := True, w_pc := RunCallback\<rparr>, d)
       | None \<Rightarrow> Inr (w\<lparr>w_it := None, w_pc := RunCallback\<rparr>, d))"

text \<open>\<^verbatim>\<open>it->second\<close>: reading through an iterator whose node was erased is undefined.\<close>

definition deref_it :: "nat option \<Rightarrow> 'l EventDispatcher \<Rightarrow> addr res" where
  "deref_it it d =
     (case it of
        None \<Rightarrow> Inl UseAfterFree
      | Some node \<Rightarrow>
          (case find (\<lambda>e. fst (snd e) = node) (ed_callbackMap d) of
             None \<Rightarrow> Inl UseAfterFree
           | Some (_, _, cb) \<Rightarrow> Inr cb))"

definition workThread ::
  "'l srw_api \<Rightarrow> worker \<Rightarrow> 'l EventDispatcher \<Rightarrow> (worker \<times> 'l EventDispatcher) res" where
  "workThread api w d =
     (case w_pc w of
        CheckHalt \<Rightarrow> Inr (w\<lparr>w_pc := (if ed_status d \<noteq> HALT then CheckSuspend else Finished)\<rparr>, d)
      | CheckSuspend \<Rightarrow> Inr (w\<lparr>w_pc := (if ed_status d = SUSPEND then CheckHalt else GetEvent)\<rparr>, d)
      | GetEvent \<Rightarrow> get_event api w d
      | FindCallback \<Rightarrow> find_callback api w d
      | RunCallback \<Rightarrow>
          (if w_runFlag w then bindR (deref_it (w_it w) d) (\<lambda>_. Inr (w\<lparr>w_pc := Running\<rparr>, d))
           else Inr (w\<lparr>w_pc := CheckHalt\<rparr>, d))
      | Running \<Rightarrow> Inr (w\<lparr>w_runFlag := False, w_pc := CheckHalt\<rparr>, d)
      | Finished \<Rightarrow> Inr (w, d))"

text \<open>The constructor starts the threads; the handle of a thread is its number.\<close>

definition EventDispatcher_create :: "'l srw_api \<Rightarrow> int \<Rightarrow> 'l EventDispatcher \<times> worker list" where
  "EventDispatcher_create api maxNum =
     (let maxNum = (if maxNum < 1 then 1 else maxNum) in
      (\<lparr>ed_maxThreadNum = maxNum, ed_sleepTime = DEFAULT_SLEEP_TIME, ed_status = RUNNING,
        ed_threadList = [0..<nat maxNum], ed_eventList = [], ed_callbackMap = [], ed_nextNode = 0,
        ed_lock = SRWLock_init api\<rparr>,
       replicate (nat maxNum) worker_start))"

text \<open>
  The destructor: it tells the workers to stop, closes their handles and sleeps for a moment;
  it does not wait for them.
\<close>

definition EventDispatcher_destroy :: "'l EventDispatcher \<Rightarrow> 'l EventDispatcher" where
  "EventDispatcher_destroy d = d\<lparr>ed_status := HALT\<rparr>"

definition addCallback ::
  "'l srw_api \<Rightarrow> string \<Rightarrow> addr \<Rightarrow> 'l EventDispatcher \<Rightarrow> (bool \<times> 'l EventDispatcher) res" where
  "addCallback api name pCallback d =
     (if name = [] \<or> pCallback = 0 then Inr (False, d)
      else exclusive api ed_lock set_ed_lock (\<lambda>d.
        Inr (True,
          if map_of (ed_callbackMap d) name = None
          then d\<lparr>ed_callbackMap := smap_put name (ed_nextNode d, pCallback) (ed_callbackMap d),
                 ed_nextNode := Suc (ed_nextNode d)\<rparr>
          else d)) d)"

definition removeCallback ::
  "'l srw_api \<Rightarrow> string \<Rightarrow> 'l EventDispatcher \<Rightarrow> (bool \<times> 'l EventDispatcher) res" where
  "removeCallback api name d =
     (if name = [] then Inr (False, d)
      else exclusive api ed_lock set_ed_lock (\<lambda>d.
        Inr (True,
          if map_of (ed_callbackMap d) name \<noteq> None
          then d\<lparr>ed_callbackMap := smap_erase name (ed_callbackMap d)\<rparr> else d)) d)"

definition submitEvent ::
  "'l srw_api \<Rightarrow> string \<Rightarrow> addr \<Rightarrow> 'l EventDispatcher \<Rightarrow> (bool \<times> 'l EventDispatcher) res" where
  "submitEvent api name pArg =
     exclusive api ed_lock set_ed_lock (\<lambda>d.
       Inr (True,
         if map_of (ed_callbackMap d) name \<noteq> None
         then d\<lparr>ed_eventList := ed_eventList d @ [(name, pArg)]\<rparr> else d))"

definition ed_setStatus :: "ed_status \<Rightarrow> 'l EventDispatcher \<Rightarrow> bool \<times> 'l EventDispatcher" where
  "ed_setStatus st d =
     (if st = RUNNING \<or> st = SUSPEND then (True, d\<lparr>ed_status := st\<rparr>) else (False, d))"

definition ed_getEventCount :: "'l EventDispatcher \<Rightarrow> nat" where
  "ed_getEventCount d = length (ed_eventList d)"

section \<open>The system\<close>

text \<open>
  The dispatcher with its threads, whether its memory is still there, and the history of the
  events accepted, taken from the queue, and handed to a callback.
\<close>

record 'l system =
  disp :: "'l EventDispatcher"
  alive :: bool
  workers :: "worker list"
  submitted :: "event list"
  taken :: "event list"
  started :: "event list"

definition system_start :: "'l srw_api \<Rightarrow> int \<Rightarrow> 'l system" where
  "system_start api maxNum =
     (case EventDispatcher_create api maxNum of (d, ws) \<Rightarrow>
       \<lparr>disp = d, alive = True, workers = ws, submitted = [], taken = [], started = []\<rparr>)"

datatype ed_label =
    Worker nat
  | AddCallback string addr
  | RemoveCallback string
  | SubmitEvent string addr
  | SetStatus ed_status
  | Destroy
  | Free

definition client :: "('l EventDispatcher \<Rightarrow> (bool \<times> 'l EventDispatcher) res) \<Rightarrow> 'l system \<Rightarrow> 'l system res" where
  "client f s =
     (if alive s then bindR (f (disp s)) (\<lambda>(_, d). Inr (s\<lparr>disp := d\<rparr>)) else Inl UseAfterFree)"

definition worker_event :: "worker \<Rightarrow> event" where
  "worker_event w = (w_name w, w_arg w)"

definition worker_step :: "'l srw_api \<Rightarrow> nat \<Rightarrow> 'l system \<Rightarrow> 'l system res" where
  "worker_step api i s =
     (if length (workers s) \<le> i \<or> w_pc (workers s ! i) = Finished then Inr s
      else if w_pc (workers s ! i) \<noteq> Running \<and> \<not> alive s then Inl UseAfterFree
      else
        bindR (workThread api (workers s ! i) (disp s)) (\<lambda>(w, d).
          Inr (s\<lparr>disp := d, workers := (workers s)[i := w],
            taken := taken s @ (if w_pc w = FindCallback then [worker_event w] else []),
            started := started s @ (if w_pc w = Running then [worker_event w] else [])\<rparr>)))"

fun sys_step :: "'l srw_api \<Rightarrow> ed_label \<Rightarrow> 'l system \<Rightarrow> 'l system res" where
  "sys_step api (Worker i) s = worker_step api i s"
| "sys_step api (AddCallback name cb) s = client (addCallback api name cb) s"
| "sys_step api (RemoveCallback name) s = client (removeCallback api name) s"
| "sys_step api (SubmitEvent name arg) s =
     bindR (client (submitEvent api name arg) s) (\<lambda>s'.
       Inr (s'\<lparr>submitted := submitted s' @ drop (length (ed_eventList (disp s))) (ed_eventList (disp s'))\<rparr>))"
| "sys_step api (SetStatus st) s = client (\<lambda>d. Inr (ed_setStatus st d)) s"
| "sys_step api Destroy s = client (\<lambda>d. Inr (True, EventDispatcher_destroy d)) s"
| "sys_step api Free s = Inr (s\<lparr>alive := False\<rparr>)"

text \<open>The states that sequences of allowed steps lead to.\<close>

inductive sys_reach :: "'l srw_api \<Rightarrow> (ed_label \<Rightarrow> bool) \<Rightarrow> 'l system \<Rightarrow> 'l system \<Rightarrow> bool"
  for api :: "'l srw_api" and allowed :: "ed_label \<Rightarrow> bool" and s0 :: "'l system" where
  start: "sys_reach api allowed s0 s0"
| step: "sys_reach api allowed s0 s \<Longrightarrow> allowed l \<Longrightarrow> sys_step api l s = Inr s' \<Longrightarrow> sys_reach api allowed s0 s'"

lemma sys_reach_run:
  "sys_reach api allowed s0 s \<Longrightarrow> list_all allowed ls \<Longrightarrow> foldR (sys_step api) ls s = Inr s' \<Longrightarrow>
     sys_reach api allowed s0 s'"
proof (induction ls arbitrary: s)
  case (Cons l ls)
  then obtain s1 where "sys_step api l s = Inr s1" "foldR (sys_step api) ls s1 = Inr s'"
    by (auto simp: bindR_eq_Inr)
  with Cons show ?case by (auto intro: sys_reach.step)
qed simp

section \<open>Invariants\<close>

text \<open>The event a worker has taken and not yet handed to a callback.\<close>

definition held_by :: "worker \<Rightarrow> event multiset" where
  "held_by w = (if w_pc w = FindCallback \<or> w_pc w = RunCallback then {#worker_event w#} else {#})"

definition held :: "'l system \<Rightarrow> event multiset" where
  "held s = sum_list (map held_by (workers s))"

text \<open>What every interleaving keeps.\<close>

definition sys_ok :: "'l srw_api \<Rightarrow> 'l system \<Rightarrow> bool" where
  "sys_ok api s \<longleftrightarrow>
     idle api (ed_lock (disp s)) \<and> smap_ok (ed_callbackMap (disp s)) \<and>
     submitted s = taken s @ ed_eventList (disp s) \<and>
     mset (started s) + held s \<subseteq># mset (taken s)"

text \<open>What interleavings keep in which no callback is removed and the memory is not freed.\<close>

definition worker_ok :: "'l EventDispatcher \<Rightarrow> worker \<Rightarrow> bool" where
  "worker_ok d w \<longleftrightarrow>
     (w_pc w = FindCallback \<longrightarrow> map_of (ed_callbackMap d) (w_name w) \<noteq> None) \<and>
     (w_pc w = RunCallback \<longrightarrow> w_runFlag w \<and>
       (\<exists>node cb. w_it w = Some node \<and> map_of (ed_callbackMap d) (w_name w) = Some (node, cb)))"

definition sys_safe :: "'l srw_api \<Rightarrow> 'l system \<Rightarrow> bool" where
  "sys_safe api s \<longleftrightarrow>
     sys_ok api s \<and> alive s \<and> list_all (worker_ok (disp s)) (workers s) \<and>
     (\<forall>e \<in> set (ed_eventList (disp s)). map_of (ed_callbackMap (disp s)) (fst e) \<noteq> None) \<and>
     mset (started s) + held s = mset (taken s)"

lemma sum_list_update_mset:
  "i < length ws \<Longrightarrow>
     sum_list (map f (ws[i := w])) + f (ws ! i) = sum_list (map f ws) + (f w :: 'b multiset)"
proof (induction ws arbitrary: i)
  case (Cons x ws)
  then show ?case by (cases i) (auto simp: ac_simps)
qed simp

lemma mset_exchange:
  fixes A :: "'b multiset"
  assumes "A' + h = A + h'" and "h' + x \<subseteq># h + y"
  shows "A' + x \<subseteq># A + y"
proof -
  have "(A' + x) + h = A + (h' + x)" using assms(1) by (simp add: ac_simps)
  also have "\<dots> \<subseteq># A + (h + y)" using assms(2) by simp
  also have "A + (h + y) = (A + y) + h" by (simp add: ac_simps)
  finally show ?thesis by simp
qed

lemma mset_exchange_eq:
  fixes A :: "'b multiset"
  assumes "A' + h = A + h'" and "h' + x = h + y"
  shows "A' + x = A + y"
proof -
  have "(A' + x) + h = A + (h' + x)" using assms(1) by (simp add: ac_simps)
  also have "\<dots> = (A + y) + h" unfolding assms(2) by (simp add: ac_simps)
  finally show ?thesis by simp
qed

lemma held_update:
  "i < length (workers s) \<Longrightarrow>
     held (s\<lparr>disp := d, workers := (workers s)[i := w], taken := t, started := st\<rparr>) + held_by (workers s ! i) =
       held s + held_by w"
  by (simp add: held_def sum_list_update_mset)

lemma find_node:
  "map_of m k = Some (node, cb) \<Longrightarrow> find (\<lambda>e. fst (snd e) = node) m \<noteq> None"
  by (induction m) (auto split: if_splits)

context srw_laws
begin

lemma ed_exclusive:
  assumes "idle api (ed_lock d)"
    and "\<And>l. body (d\<lparr>ed_lock := l\<rparr>) = Inr (r, d'\<lparr>ed_lock := l\<rparr>)" and "ed_lock d' = ed_lock d"
  shows "exclusive api ed_lock set_ed_lock body d = Inr (r, d')"
  by (rule exclusive_eq) (use assms in \<open>simp_all add: set_ed_lock_def\<close>)

lemma ed_shared:
  assumes "idle api (ed_lock d)"
    and "\<And>l. body (d\<lparr>ed_lock := l\<rparr>) = Inr (r, d'\<lparr>ed_lock := l\<rparr>)" and "ed_lock d' = ed_lock d"
  shows "shared api ed_lock set_ed_lock body d = Inr (r, d')"
  by (rule shared_eq) (use assms in \<open>simp_all add: set_ed_lock_def\<close>)

lemma get_event_eq:
  assumes "idle api (ed_lock d)"
  shows "get_event api w d =
     Inr (case ed_eventList d of
        e # rest \<Rightarrow> (w\<lparr>w_name := fst e, w_arg := snd e, w_pc := FindCallback\<rparr>, d\<lparr>ed_eventList := rest\<rparr>)
      | [] \<Rightarrow> (w\<lparr>w_pc := CheckHalt\<rparr>, d))"
  unfolding get_event_def using assms
  by (cases "ed_eventList d") (auto intro!: ed_exclusive)

lemma find_callback_eq:
  assumes "idle api (ed_lock d)"
  shows "find_callback api w d =
     Inr (case map_of (ed_callbackMap d) (w_name w) of
        Some e \<Rightarrow> w\<lparr>w_it := Some (fst e), w_runFlag := True, w_pc := RunCallback\<rparr>
      | None \<Rightarrow> w\<lparr>w_it := None, w_pc := RunCallback\<rparr>, d)"
  unfolding find_callback_def using assms
  by (cases "map_of (ed_callbackMap d) (w_name w)") (auto intro!: ed_shared)

lemma addCallback_eq:
  assumes "idle api (ed_lock d)"
  shows "addCallback api name cb d =
     Inr (name \<noteq> [] \<and> cb \<noteq> 0,
       if name \<noteq> [] \<and> cb \<noteq> 0 \<and> map_of (ed_callbackMap d) name = None
       then d\<lparr>ed_callbackMap := smap_put name (ed_nextNode d, cb) (ed_callbackMap d),
              ed_nextNode := Suc (ed_nextNode d)\<rparr>
       else d)"
  unfolding addCallback_def using assms by (auto intro!: ed_exclusive)

lemma removeCallback_eq:
  assumes "idle api (ed_lock d)"
  shows "removeCallback api name d =
     Inr (name \<noteq> [],
       if name \<noteq> [] \<and> map_of (ed_callbackMap d) name \<noteq> None
       then d\<lparr>ed_callbackMap := smap_erase name (ed_callbackMap d)\<rparr> else d)"
  unfolding removeCallback_def using assms by (auto intro!: ed_exclusive)

lemma submitEvent_eq:
  assumes "idle api (ed_lock d)"
  shows "submitEvent api name arg d =
     Inr (True, if map_of (ed_callbackMap d) name \<noteq> None
       then d\<lparr>ed_eventList := ed_eventList d @ [(name, arg)]\<rparr> else d)"
  unfolding submitEvent_def using assms by (auto intro!: ed_exclusive)

text \<open>A worker's step changes the queue only by taking its front, and never loses what it holds.\<close>

lemma workThread_eq:
  assumes "idle api (ed_lock d)" and "workThread api w d = Inr (w', d')"
  shows "ed_lock d' = ed_lock d \<and> ed_callbackMap d' = ed_callbackMap d \<and>
     (if w_pc w' = FindCallback
      then w_pc w = GetEvent \<and> ed_eventList d = worker_event w' # ed_eventList d'
      else ed_eventList d' = ed_eventList d) \<and>
     held_by w' + (if w_pc w' = Running then {#worker_event w'#} else {#}) \<subseteq>#
       held_by w + (if w_pc w' = FindCallback then {#worker_event w'#} else {#})"
  using assms
  by (cases "w_pc w")
    (auto simp: workThread_def get_event_eq find_callback_eq bindR_eq_Inr held_by_def worker_event_def
      split: list.splits option.splits if_splits)

lemma worker_step_ok:
  assumes "sys_ok api s" and "worker_step api i s = Inr s'"
  shows "sys_ok api s'"
proof (cases "length (workers s) \<le> i \<or> w_pc (workers s ! i) = Finished")
  case True
  with assms show ?thesis by (auto simp: worker_step_def)
next
  case False
  let ?w = "workers s ! i"
  obtain w d where w: "workThread api ?w (disp s) = Inr (w, d)"
    and s': "s' = s\<lparr>disp := d, workers := (workers s)[i := w],
            taken := taken s @ (if w_pc w = FindCallback then [worker_event w] else []),
            started := started s @ (if w_pc w = Running then [worker_event w] else [])\<rparr>"
    using assms(2) False by (auto simp: worker_step_def bindR_eq_Inr split: if_splits)
  have idle: "idle api (ed_lock (disp s))" using assms(1) by (simp add: sys_ok_def)
  note eq = workThread_eq [OF idle w]
  have "held s' + held_by ?w = held s + held_by w"
    unfolding s' using False by (intro held_update) simp
  moreover have "held_by w + (if w_pc w = Running then {#worker_event w#} else {#}) \<subseteq>#
      held_by ?w + (if w_pc w = FindCallback then {#worker_event w#} else {#})"
    using eq by blast
  ultimately have "held s' + (if w_pc w = Running then {#worker_event w#} else {#}) \<subseteq>#
      held s + (if w_pc w = FindCallback then {#worker_event w#} else {#})"
    by (rule mset_exchange)
  then have "mset (started s') + held s' \<subseteq># mset (started s) + held s +
      (if w_pc w = FindCallback then {#worker_event w#} else {#})"
    unfolding s' by (simp add: ac_simps split: if_splits)
  also have "\<dots> \<subseteq># mset (taken s')"
    using assms(1) by (simp add: s' sys_ok_def)
  finally show ?thesis using assms(1) eq by (auto simp: sys_ok_def s' split: if_splits)
qed

lemma sys_step_ok:
  assumes "sys_ok api s" and "sys_step api l s = Inr s'"
  shows "sys_ok api s'"
proof (cases l)
  case (Worker i)
  with assms worker_step_ok show ?thesis by simp
qed (use assms in \<open>auto simp: client_def sys_ok_def held_def addCallback_eq removeCallback_eq submitEvent_eq
      ed_setStatus_def EventDispatcher_destroy_def smap.ok_put smap.ok_erase split: if_splits\<close>)

lemma sys_reach_ok: "sys_reach api allowed s0 s \<Longrightarrow> sys_ok api s0 \<Longrightarrow> sys_ok api s"
  by (induction rule: sys_reach.induct) (auto intro: sys_step_ok)

lemma workThread_safe:
  assumes "idle api (ed_lock d)" and "worker_ok d w"
    and "\<forall>e \<in> set (ed_eventList d). map_of (ed_callbackMap d) (fst e) \<noteq> None"
  shows "\<exists>w' d'. workThread api w d = Inr (w', d') \<and> worker_ok d w' \<and>
     held_by w' + (if w_pc w' = Running then {#worker_event w'#} else {#}) =
       held_by w + (if w_pc w' = FindCallback then {#worker_event w'#} else {#})"
proof (cases "w_pc w")
  case GetEvent
  with assms show ?thesis
    by (cases "ed_eventList d")
      (auto simp: workThread_def get_event_eq worker_ok_def held_by_def worker_event_def)
next
  case FindCallback
  with assms(2) obtain node cb where "map_of (ed_callbackMap d) (w_name w) = Some (node, cb)"
    by (auto simp: worker_ok_def)
  with FindCallback assms(1) show ?thesis
    by (auto simp: workThread_def find_callback_eq worker_ok_def held_by_def worker_event_def)
next
  case RunCallback
  with assms(2) obtain node cb where it: "w_runFlag w" "w_it w = Some node"
    "map_of (ed_callbackMap d) (w_name w) = Some (node, cb)"
    by (auto simp: worker_ok_def)
  from find_node [OF this(3)] obtain k n c where "find (\<lambda>e. fst (snd e) = node) (ed_callbackMap d) = Some (k, n, c)"
    by (metis not_None_eq prod.exhaust)
  with it RunCallback show ?thesis
    by (simp add: workThread_def deref_it_def worker_ok_def held_by_def worker_event_def)
qed (use assms in \<open>auto simp: workThread_def worker_ok_def held_by_def worker_event_def\<close>)

lemma worker_ok_cong: "ed_callbackMap d' = ed_callbackMap d \<Longrightarrow> worker_ok d' = worker_ok d"
  by (simp add: worker_ok_def fun_eq_iff)

lemma worker_step_safe:
  assumes "sys_safe api s"
  shows "\<exists>s'. worker_step api i s = Inr s' \<and> sys_safe api s'"
proof (cases "length (workers s) \<le> i \<or> w_pc (workers s ! i) = Finished")
  case True
  with assms show ?thesis by (auto simp: worker_step_def)
next
  case False
  let ?w = "workers s ! i"
  have idle: "idle api (ed_lock (disp s))" and alive: "alive s" and ok: "sys_ok api s"
    and ws: "list_all (worker_ok (disp s)) (workers s)"
    and reg: "\<forall>e \<in> set (ed_eventList (disp s)). map_of (ed_callbackMap (disp s)) (fst e) \<noteq> None"
    and eq: "mset (started s) + held s = mset (taken s)"
    using assms by (simp_all add: sys_safe_def sys_ok_def)
  have "worker_ok (disp s) ?w" using ws False by (simp add: list_all_length)
  from workThread_safe [OF idle this reg] obtain w d where w: "workThread api ?w (disp s) = Inr (w, d)"
    "worker_ok (disp s) w"
    "held_by w + (if w_pc w = Running then {#worker_event w#} else {#}) =
       held_by ?w + (if w_pc w = FindCallback then {#worker_event w#} else {#})" by blast
  define s' where "s' = s\<lparr>disp := d, workers := (workers s)[i := w],
            taken := taken s @ (if w_pc w = FindCallback then [worker_event w] else []),
            started := started s @ (if w_pc w = Running then [worker_event w] else [])\<rparr>"
  have step: "worker_step api i s = Inr s'"
    using False alive w(1) by (simp add: worker_step_def s'_def)
  note d = workThread_eq [OF idle w(1)]
  have "held s' + held_by ?w = held s + held_by w"
    unfolding s'_def using False by (intro held_update) simp
  then have "held s' + (if w_pc w = Running then {#worker_event w#} else {#}) =
      held s + (if w_pc w = FindCallback then {#worker_event w#} else {#})"
    using w(3) by (rule mset_exchange_eq)
  then have "mset (started s') + held s' = mset (taken s')"
    using eq by (simp add: s'_def ac_simps split: if_splits) (metis add.commute union_mset_add_mset_left)
  moreover have "list_all (worker_ok (disp s')) (workers s')"
    using ws w(2) d worker_ok_cong [of d "disp s"]
    by (auto simp: s'_def list_all_iff dest!: set_update_subset_insert [THEN subsetD])
  moreover have "set (ed_eventList d) \<subseteq> set (ed_eventList (disp s))" using d by (auto split: if_splits)
  ultimately have "sys_safe api s'"
    using worker_step_ok [OF ok step] alive reg d by (auto simp: sys_safe_def s'_def)
  with step show ?thesis by blast
qed

lemma sys_safe_client:
  assumes "sys_safe api s" and "sys_ok api s'"
    and "workers s' = workers s" "alive s'" "started s' = started s" "taken s' = taken s"
    and "\<And>k v. map_of (ed_callbackMap (disp s)) k = Some v \<Longrightarrow> map_of (ed_callbackMap (disp s')) k = Some v"
    and "\<And>e. e \<in> set (ed_eventList (disp s')) \<Longrightarrow>
      e \<in> set (ed_eventList (disp s)) \<or> map_of (ed_callbackMap (disp s')) (fst e) \<noteq> None"
  shows "sys_safe api s'"
proof -
  have "worker_ok (disp s) w \<Longrightarrow> worker_ok (disp s') w" for w
    using assms(7) by (fastforce simp: worker_ok_def)
  moreover have "\<forall>e \<in> set (ed_eventList (disp s')). map_of (ed_callbackMap (disp s')) (fst e) \<noteq> None"
  proof
    fix e assume "e \<in> set (ed_eventList (disp s'))"
    from assms(8) [OF this] show "map_of (ed_callbackMap (disp s')) (fst e) \<noteq> None"
      using assms(1) assms(7) [of "fst e"] by (auto simp: sys_safe_def)
  qed
  ultimately show ?thesis
    using assms(1-6) by (simp add: sys_safe_def held_def list_all_iff)
qed

lemma sys_step_safe:
  assumes "sys_safe api s" and "l \<noteq> Free" and "\<And>name. l \<noteq> RemoveCallback name"
  shows "\<exists>s'. sys_step api l s = Inr s' \<and> sys_safe api s'"
proof -
  have idle: "idle api (ed_lock (disp s))" and alive: "alive s" and ok: "smap_ok (ed_callbackMap (disp s))"
    using assms(1) by (simp_all add: sys_safe_def sys_ok_def)
  have "\<exists>s'. sys_step api l s = Inr s'"
    using idle alive assms worker_step_safe [OF assms(1)]
    by (cases l) (auto simp: client_def addCallback_eq submitEvent_eq split: prod.split)
  then obtain s' where s': "sys_step api l s = Inr s'" ..
  have ok': "sys_ok api s'" using sys_step_ok [OF _ s'] assms(1) by (simp add: sys_safe_def)
  have "sys_safe api s'"
  proof (cases l)
    case (Worker i)
    with worker_step_safe [OF assms(1), of i] s' show ?thesis by auto
  next
    case (AddCallback name cb)
    show ?thesis
      by (rule sys_safe_client [OF assms(1) ok'])
        (use s' AddCallback idle alive ok in \<open>auto simp: client_def addCallback_eq smap.find_put split: if_splits\<close>)
  next
    case (SubmitEvent name arg)
    show ?thesis
      by (rule sys_safe_client [OF assms(1) ok'])
        (use s' SubmitEvent idle alive in \<open>auto simp: client_def submitEvent_eq split: if_splits\<close>)
  next
    case (SetStatus st)
    show ?thesis
      by (rule sys_safe_client [OF assms(1) ok'])
        (use s' SetStatus alive in \<open>auto simp: client_def ed_setStatus_def split: if_splits\<close>)
  next
    case Destroy
    show ?thesis
      by (rule sys_safe_client [OF assms(1) ok'])
        (use s' Destroy alive in \<open>auto simp: client_def EventDispatcher_destroy_def\<close>)
  qed (use assms in auto)
  with s' show ?thesis by blast
qed

lemma sys_reach_safe:
  "sys_reach api allowed s0 s \<Longrightarrow> sys_safe api s0 \<Longrightarrow> (\<And>l. allowed l \<Longrightarrow> l \<noteq> Free \<and> (\<forall>name. l \<noteq> RemoveCallback name)) \<Longrightarrow>
     sys_safe api s"
proof (induction rule: sys_reach.induct)
  case (step s l s')
  then show ?case using sys_step_safe [of s l] by auto
qed simp

lemma sum_list_replicate_empty: "sum_list (replicate k {#}) = {#}"
  by (induction k) simp_all

lemma system_start_safe: "sys_safe api (system_start api n)"
proof -
  have "held (system_start api n) = {#}"
    by (simp add: held_def system_start_def EventDispatcher_create_def Let_def held_by_def worker_start_def sum_list_replicate_empty)
  then show ?thesis
    by (simp add: sys_safe_def sys_ok_def system_start_def EventDispatcher_create_def Let_def idle_def SRWLock_init_def
        smap_ok_def list_all_iff worker_ok_def worker_start_def)
qed

lemma system_start_ok: "sys_ok api (system_start api n)"
  using system_start_safe by (simp add: sys_safe_def)

text \<open>One worker, left alone with a running dispatcher, works off the queue in order.\<close>

lemma worker_round:
  assumes "sys_safe api s" and "i < length (workers s)" and "w_pc (workers s ! i) = CheckHalt"
    and "ed_status (disp s) = RUNNING" and "ed_eventList (disp s) = e # es"
  shows "\<exists>s'. foldR (sys_step api) (replicate 6 (Worker i)) s = Inr s' \<and> sys_safe api s' \<and>
     length (workers s') = length (workers s) \<and> w_pc (workers s' ! i) = CheckHalt \<and>
     ed_status (disp s') = RUNNING \<and> ed_eventList (disp s') = es \<and> started s' = started s @ [e]"
proof -
  have idle: "idle api (ed_lock (disp s))" and alive: "alive s"
    and reg: "map_of (ed_callbackMap (disp s)) (fst e) \<noteq> None"
    using assms(1,5) by (auto simp: sys_safe_def sys_ok_def)
  from reg obtain node cb where m: "map_of (ed_callbackMap (disp s)) (fst e) = Some (node, cb)" by auto
  from find_node [OF this] obtain k n c where f: "find (\<lambda>e. fst (snd e) = node) (ed_callbackMap (disp s)) = Some (k, n, c)"
    by (metis not_None_eq prod.exhaust)
  have six: "replicate 6 x = [x, x, x, x, x, x]" for x :: ed_label by (simp add: numeral_eq_Suc)
  obtain s' where s': "foldR (sys_step api) (replicate 6 (Worker i)) s = Inr s'"
    "length (workers s') = length (workers s)" "w_pc (workers s' ! i) = CheckHalt"
    "ed_status (disp s') = RUNNING" "ed_eventList (disp s') = es" "started s' = started s @ [e]"
    unfolding six using idle alive assms(2-5) m f
    by (simp add: worker_step_def workThread_def get_event_eq find_callback_eq deref_it_def worker_event_def)
  have "sys_reach api (\<lambda>l. l = Worker i) s s'"
    by (rule sys_reach_run [OF sys_reach.start _ s'(1)]) (simp add: six)
  then have "sys_safe api s'" by (rule sys_reach_safe [OF _ assms(1)]) auto
  with s' show ?thesis by blast
qed

lemma worker_drains:
  "sys_safe api s \<Longrightarrow> i < length (workers s) \<Longrightarrow> w_pc (workers s ! i) = CheckHalt \<Longrightarrow>
     ed_status (disp s) = RUNNING \<Longrightarrow>
     \<exists>s'. foldR (sys_step api) (replicate (6 * length (ed_eventList (disp s))) (Worker i)) s = Inr s' \<and>
       ed_eventList (disp s') = [] \<and> started s' = started s @ ed_eventList (disp s)"
proof (induction "ed_eventList (disp s)" arbitrary: s)
  case Nil
  then show ?case by simp
next
  case (Cons e es)
  from worker_round [OF Cons.prems Cons.hyps(2) [symmetric]] obtain s1 where s1:
    "foldR (sys_step api) (replicate 6 (Worker i)) s = Inr s1" "sys_safe api s1"
    "i < length (workers s1)" "w_pc (workers s1 ! i) = CheckHalt" "ed_status (disp s1) = RUNNING"
    "ed_eventList (disp s1) = es" "started s1 = started s @ [e]"
    using Cons.prems(2) by auto
  have "replicate (6 * length (e # es)) (Worker i) = replicate 6 (Worker i) @ replicate (6 * length es) (Worker i)"
    by (simp flip: replicate_add)
  with Cons.hyps(1) [OF s1(6) [symmetric] s1(2-5)] s1 show ?case
    unfolding Cons.hyps(2) [symmetric] by (auto simp: foldR_append)
qed

end

section \<open>Properties\<close>


definition one_event_run :: "ed_label list" where
  "one_event_run =
     [AddCallback ''a'' 1, SubmitEvent ''a'' 7, Worker 0, Worker 0, Worker 0, Worker 0]"

lemma one_event_reach:
  assumes "list_all P one_event_run"
  shows "\<exists>s. sys_reach srw_ref P (system_start srw_ref 2) s \<and> foldR (sys_step srw_ref) one_event_run (system_start srw_ref 2) = Inr s \<and>
     taken s = [(''a'', 7)]"
proof -
  have "case foldR (sys_step srw_ref) one_event_run (system_start srw_ref 2) of Inl _ \<Rightarrow> False | Inr s \<Rightarrow> taken s = [(''a'', 7)]"
    by code_simp
  then obtain s where s: "foldR (sys_step srw_ref) one_event_run (system_start srw_ref 2) = Inr s" "taken s = [(''a'', 7)]"
    by (auto split: sum.splits)
  from sys_reach_run [OF sys_reach.start assms s(1)] s show ?thesis by blast
qed


text \<open>
  C12. As long as no callback is removed and the dispatcher is not freed, no interleaving faults: every
  step of every worker and client succeeds, and every event taken from the queue was handed to its
  callback or is held by a worker that is about to.
\<close>

definition tame :: "ed_label \<Rightarrow> bool" where
  "tame l \<longleftrightarrow> (case l of Free \<Rightarrow> False | RemoveCallback _ \<Rightarrow> False | _ \<Rightarrow> True)"

theorem dispatcher_safe_without_removal:
  assumes "srw_laws api" and "sys_reach api tame (system_start api n) s" and "tame l"
  shows "(\<exists>s'. sys_step api l s = Inr s') \<and> mset (taken s) = mset (started s) + held s"
proof -
  have tame: "l \<noteq> Free \<and> (\<forall>name. l \<noteq> RemoveCallback name)" if "tame l" for l
    using that by (auto simp: tame_def)
  have "sys_safe api s"
    by (rule srw_laws.sys_reach_safe [OF assms(1,2) srw_laws.system_start_safe [OF assms(1)] tame])
  with srw_laws.sys_step_safe [OF assms(1), of s l] tame [OF assms(3)] show ?thesis
    by (auto simp: sys_safe_def)
qed

lemma dispatcher_safe_without_removal_witness:
  "\<exists>s s'. sys_step srw_ref (Worker 0) s = Inr s' \<and> mset (taken s) = {#(''a'', 7)#} \<and>
     mset (taken s) = mset (started s) + held s"
proof -
  obtain s where s: "sys_reach srw_ref tame (system_start srw_ref 2) s" "taken s = [(''a'', 7)]"
    using one_event_reach [of tame] by (auto simp: one_event_run_def tame_def)
  from dispatcher_safe_without_removal [OF srw_ref.srw_laws_axioms s(1), of "Worker 0"] s(2)
  show ?thesis by (auto simp: tame_def)
qed



text \<open>
  C24. Progress: a worker at the head of its loop, left alone with a running dispatcher, empties the
  queue in six steps per event and hands all events to their callbacks in queue order.
\<close>

theorem worker_drains_queue:
  assumes "srw_laws api" and "sys_reach api tame (system_start api n) s"
    and "i < length (workers s)" and "w_pc (workers s ! i) = CheckHalt" and "ed_status (disp s) = RUNNING"
  shows "\<exists>s'. foldR (sys_step api) (replicate (6 * length (ed_eventList (disp s))) (Worker i)) s = Inr s' \<and>
     ed_eventList (disp s') = [] \<and> started s' = started s @ ed_eventList (disp s)"
proof -
  have "sys_safe api s"
    by (rule srw_laws.sys_reach_safe [OF assms(1,2) srw_laws.system_start_safe [OF assms(1)]])
      (auto simp: tame_def)
  from srw_laws.worker_drains [OF assms(1) this assms(3-5)] show ?thesis .
qed

lemma worker_drains_queue_witness:
  "\<exists>s s'. ed_eventList (disp s) = [(''a'', 7), (''a'', 8)] \<and>
     foldR (sys_step srw_ref) (replicate 12 (Worker 0)) s = Inr s' \<and> started s' = [(''a'', 7), (''a'', 8)]"
proof -
  let ?ls = "[AddCallback ''a'' 1, SubmitEvent ''a'' 7, SubmitEvent ''a'' 8]"
  have "case foldR (sys_step srw_ref) ?ls (system_start srw_ref 1) of Inl _ \<Rightarrow> False | Inr s \<Rightarrow>
      ed_eventList (disp s) = [(''a'', 7), (''a'', 8)] \<and> 0 < length (workers s) \<and>
      w_pc (workers s ! 0) = CheckHalt \<and> ed_status (disp s) = RUNNING \<and> started s = []"
    by code_simp
  then obtain s where s: "foldR (sys_step srw_ref) ?ls (system_start srw_ref 1) = Inr s"
    "ed_eventList (disp s) = [(''a'', 7), (''a'', 8)]" "0 < length (workers s)"
    "w_pc (workers s ! 0) = CheckHalt" "ed_status (disp s) = RUNNING" "started s = []" by (auto split: sum.splits)
  have "sys_reach srw_ref tame (system_start srw_ref 1) s"
    by (rule sys_reach_run [OF sys_reach.start _ s(1)]) (simp add: tame_def)
  from worker_drains_queue [OF srw_ref.srw_laws_axioms this s(3-5)] s(2,6) show ?thesis by auto
qed

text \<open>
  What clients are told: \<^verbatim>\<open>submitEvent\<close> answers true whether or not the event was accepted, and
  accepts it only for a name that has a callback; \<^verbatim>\<open>setStatus\<close> refuses to halt the dispatcher,
  so that nothing but the destructor ever stops the workers.
\<close>

theorem dispatcher_client_answers:
  assumes "srw_laws api" and "idle api (ed_lock d)"
  shows "\<exists>d'. submitEvent api name arg d = Inr (True, d') \<and>
       ed_eventList d' = ed_eventList d @ (if map_of (ed_callbackMap d) name = None then [] else [(name, arg)]) \<and>
     ed_setStatus HALT d = (False, d) \<and> (st \<noteq> HALT \<longrightarrow> ed_setStatus st d = (True, d\<lparr>ed_status := st\<rparr>))"
  using srw_laws.submitEvent_eq [OF assms] by (cases st) (auto simp: ed_setStatus_def)

lemma dispatcher_client_answers_witness:
  "\<exists>d'. submitEvent srw_ref ''nobody'' 3 (fst (EventDispatcher_create srw_ref 1)) = Inr (True, d') \<and> ed_eventList d' = []"
  using dispatcher_client_answers [OF srw_ref.srw_laws_axioms, of "fst (EventDispatcher_create srw_ref 1)" "''nobody''" 3 RUNNING]
  by (auto simp: EventDispatcher_create_def idle_def SRWLock_init_def)

end
