(* ===== verification/Crawler_Http.thy ===== *)
theory Crawler_Http
  imports Dispatcher
begin

text \<open>
  The HTTP part both crawlers have in a copy of their own: building a request, receiving the
  response into an array and removing the chunk marks. The regular expressions of boost are
  parameters: \<open>host\<close> finds the host in a URL, \<open>chunked\<close> says whether a response announces
  chunks, \<open>dechunk\<close> replaces the chunks of a body by their contents.
\<close>

definition crlf :: string where
  "crlf = [CHR 0x0D, CHR 0x0A]"

definition HTTPRequest_create :: "(string \<Rightarrow> string option) \<Rightarrow> string \<Rightarrow> string \<Rightarrow> string \<Rightarrow> string \<Rightarrow> string" where
  "HTTPRequest_create host url content cookie method =
     (let request = (if take 7 url \<noteq> ''http://'' then ''http://'' else []) in
      case host url of
        None \<Rightarrow> []
      | Some h \<Rightarrow>
          request @ method @ '' '' @ url @ '' HTTP/1.1'' @ crlf @ ''Host: '' @ h @ crlf @ ''Connection: keep-alive'' @ crlf @
          (if content \<noteq> [] then ''Content-Length: '' @ print_int (int (length content)) @ crlf @
             ''Content-Type: application/x-www-form-urlencoded; charset=UTF-8'' @ crlf else []) @
          ''Accept: */*;'' @ crlf @ ''Accept-Language: zh-CN,zh;q=0.8'' @ crlf @
          (if cookie \<noteq> [] then cookie @ crlf else []) @ crlf @ (if content \<noteq> [] then content else []))"

text \<open>The text up to the null character of an array, and the place of the first occurrence of a text.\<close>

definition c_text :: "string \<Rightarrow> string" where
  "c_text buf = takeWhile (\<lambda>c. c \<noteq> CHR 0x00) buf"

fun find_text :: "string \<Rightarrow> string \<Rightarrow> nat option" where
  "find_text pat [] = (if pat = [] then Some 0 else None)"
| "find_text pat (c # s) = (if take (length pat) (c # s) = pat then Some 0 else map_option Suc (find_text pat s))"

text \<open>
  \<^verbatim>\<open>combineChunk\<close> on the whole array; \<^verbatim>\<open>memcpy_s\<close> refuses more bytes than fit and stops the program.
\<close>

definition combineChunk :: "(string \<Rightarrow> bool) \<Rightarrow> (string \<Rightarrow> string) \<Rightarrow> string \<Rightarrow> int \<Rightarrow> (int \<times> string) res" where
  "combineChunk chunked dechunk data len =
     (if \<not> chunked (c_text data) then Inr (len, data)
      else case find_text (crlf @ crlf) (c_text data) of
        None \<Rightarrow> Inr (len, data)
      | Some i \<Rightarrow>
          let prevLen = i + 4; str = dechunk (c_text (drop prevLen data)); newLength = length str in
          if len - int prevLen < int newLength then Inl OutOfBounds
          else
            let data = take prevLen data @ str @ drop (prevLen + newLength) data in
            if length data \<le> newLength + prevLen then Inl OutOfBounds
            else Inr (int (newLength + prevLen), data[newLength + prevLen := CHR 0x00]))"

text \<open>
  What the network does during one request: whether connecting works, how many bytes of the request
  are sent, whether shutting down works, and the chunks the receives bring, followed by the end of
  the stream or an error. A receive brings at most as much as there is room for; with no room
  it brings nothing.
\<close>

record net =
  net_connect :: bool
  net_send :: "string \<Rightarrow> int"
  net_shutdown :: bool
  net_recv :: "string list"
  net_error :: bool

fun recv_loop :: "bool \<Rightarrow> nat \<Rightarrow> string list \<Rightarrow> string \<times> bool" where
  "recv_loop err room [] = ([], err \<and> 0 < room)"
| "recv_loop err room (c # cs) =
     (if room = 0 \<or> c = [] then ([], False)
      else if length c \<le> room then (case recv_loop err (room - length c) cs of (d, e) \<Rightarrow> (c @ d, e))
      else (take room c, False))"

text \<open>
  The result is what \<^verbatim>\<open>getData\<close> returns, the array afterwards and the number of sockets open: only a
  failed shutdown closes the socket.
\<close>

definition getData ::
  "(string \<Rightarrow> string option) \<Rightarrow> (string \<Rightarrow> bool) \<Rightarrow> (string \<Rightarrow> string) \<Rightarrow> net \<Rightarrow> string \<Rightarrow> nat \<Rightarrow> int
     \<Rightarrow> ((int \<times> string) \<times> int) res" where
  "getData host chunked dechunk net url limit socks =
     (let output = replicate limit (CHR 0x00); socks = socks + 1 in
      if \<not> net_connect net then Inr ((-1, output), socks)
      else
        let request = HTTPRequest_create host url [] [] ''GET'' in
        if net_send net request \<noteq> int (length request) then Inr ((-1, output), socks)
        else if \<not> net_shutdown net then Inr ((-1, output), socks - 1)
        else
          (case recv_loop (net_error net) limit (net_recv net) of (d, err) \<Rightarrow>
             let output = d @ drop (length d) output in
             if err then Inr ((-1, output), socks)
             else if limit \<le> length d then Inl OutOfBounds
             else bindR (combineChunk chunked dechunk (output[length d := CHR 0x00]) (int (length d))) (\<lambda>r. Inr (r, socks))))"

section \<open>Receiving\<close>

lemma recv_loop_length: "length (fst (recv_loop err room cs)) \<le> room"
proof (induction err room cs rule: recv_loop.induct)
  case (2 err room c cs)
  then show ?case by (cases "recv_loop err (room - length c) cs") auto
qed simp

text \<open>A stream of non-empty chunks that is longer than the room fills it completely.\<close>

lemma recv_loop_fills:
  "list_all (\<lambda>c. c \<noteq> []) cs \<Longrightarrow> room \<le> length (concat cs) \<Longrightarrow> 0 < room \<Longrightarrow>
     recv_loop False room cs = (take room (concat cs), False)"
proof (induction cs arbitrary: room)
  case (Cons c cs)
  consider "length c < room" | "length c = room" | "room < length c" by linarith
  then show ?case
  proof cases
    case 1
    with Cons show ?thesis by simp
  next
    case 2
    have "recv_loop False 0 cs = ([], False)" by (cases cs) simp_all
    with 2 Cons.prems show ?thesis by simp
  next
    case 3
    with Cons.prems show ?thesis by simp
  qed
qed simp

section \<open>Properties\<close>



end
