(* ===== verification/Crawler3.thy ===== *)
theory Crawler3
  imports Crawler_Http
begin

text \<open>
  The crawler \<^verbatim>\<open>Indexer3\<close>: events with a URL go through an event dispatcher; the callback fetches
  the URL, writes what it got to a log and submits the next URL until the last id is reached. The
  argument objects live in a store, so that deleting one and using it again shows.
\<close>

definition maxDataSize :: nat where
  "maxDataSize = 0x1000"

text \<open>
  The indexer with its dispatcher, the argument objects (their URL), the number of arrays not
  deleted and of sockets not closed, and what went to the two log files.
\<close>

record 'l Indexer3 =
  ix_currentID :: int
  ix_endID :: int
  ix_lock :: "'l SRWLock"
  ix_disp :: "'l EventDispatcher"
  ix_args :: "addr \<rightharpoonup> string"
  ix_next :: addr
  ix_arrays :: int
  ix_socks :: int
  ix_log :: "string list"
  ix_errors :: "string list"

record fetcher =
  f_host :: "string \<Rightarrow> string option"
  f_chunked :: "string \<Rightarrow> bool"
  f_dechunk :: "string \<Rightarrow> string"

definition set_ix_lock :: "'l SRWLock \<Rightarrow> 'l Indexer3 \<Rightarrow> 'l Indexer3" where
  "set_ix_lock l s = s\<lparr>ix_lock := l\<rparr>"

definition aid_url :: "int \<Rightarrow> string" where
  "aid_url i = ''http://api.bilibili.com/archive_stat/stat?aid='' @ print_int i @ ''&type=jsonp''"

definition ix_submit :: "'l srw_api \<Rightarrow> addr \<Rightarrow> 'l Indexer3 \<Rightarrow> 'l Indexer3 res" where
  "ix_submit api p s = bindR (submitEvent api ''func'' p (ix_disp s)) (\<lambda>(_, d). Inr (s\<lparr>ix_disp := d\<rparr>))"

text \<open>\<^verbatim>\<open>parse\<close> writes the data to the log file and answers true.\<close>

definition parse3 :: "string \<Rightarrow> 'l Indexer3 \<Rightarrow> bool \<times> 'l Indexer3" where
  "parse3 data s = (True, s\<lparr>ix_log := ix_log s @ [c_text data]\<rparr>)"

text \<open>The part of \<^verbatim>\<open>run\<close> that makes the next event, under the indexer's lock.\<close>

definition next_event :: "'l srw_api \<Rightarrow> addr \<Rightarrow> 'l Indexer3 \<Rightarrow> (unit \<times> 'l Indexer3) res" where
  "next_event api pItem =
     exclusive api ix_lock set_ix_lock (\<lambda>s.
       if ix_currentID s < ix_endID s then
         let s = s\<lparr>ix_currentID := ix_currentID s + 1\<rparr>;
             s = s\<lparr>ix_args := (ix_args s)(pItem \<mapsto> aid_url (ix_currentID s))\<rparr>
         in bindR (ix_submit api pItem s) (\<lambda>s. Inr ((), s))
       else Inr ((), s))"

definition run3 :: "'l srw_api \<Rightarrow> fetcher \<Rightarrow> net \<Rightarrow> addr \<Rightarrow> 'l Indexer3 \<Rightarrow> 'l Indexer3 res" where
  "run3 api f net parg s =
     (case ix_args s parg of
        None \<Rightarrow> Inl UseAfterFree
      | Some url \<Rightarrow>
          bindR (getData (f_host f) (f_chunked f) (f_dechunk f) net url maxDataSize (ix_socks s)) (\<lambda>((count, output), socks).
          let s = s\<lparr>ix_arrays := ix_arrays s + 1, ix_socks := socks\<rparr> in
          if count = 0 then ix_submit api parg (s\<lparr>ix_errors := ix_errors s @ [url]\<rparr>)
          else
            bindR (if count = -1 then ix_submit api parg s else Inr s) (\<lambda>s.
            let (ok, s) = parse3 output s;
                s = (if ok then s else s\<lparr>ix_errors := ix_errors s @ [url]\<rparr>);
                pItem = ix_next s;
                s = s\<lparr>ix_next := Suc pItem, ix_args := (ix_args s)(pItem \<mapsto> [])\<rparr>
            in bindR (next_event api pItem s) (\<lambda>(_, s).
               Inr (s\<lparr>ix_args := (ix_args s)(parg := None), ix_arrays := ix_arrays s - 1\<rparr>)))))"

text \<open>
  \<^verbatim>\<open>deployIndexer\<close> up to the endless loop that flushes the log: the dispatcher is told to halt (which
  it refuses), gets its callback and the first events, one per thread, and is told to run.
\<close>

definition first_event :: "'l srw_api \<Rightarrow> int \<Rightarrow> 'l Indexer3 \<Rightarrow> 'l Indexer3 res" where
  "first_event api i s =
     (let p = ix_next s in ix_submit api p (s\<lparr>ix_next := Suc p, ix_args := (ix_args s)(p \<mapsto> aid_url i)\<rparr>))"

definition deployIndexer3 :: "'l srw_api \<Rightarrow> addr \<Rightarrow> int \<Rightarrow> int \<Rightarrow> int \<Rightarrow> 'l Indexer3 res" where
  "deployIndexer3 api callback start end' threadNum =
     (let d = fst (EventDispatcher_create api threadNum); d = snd (ed_setStatus HALT d) in
      bindR (addCallback api ''func'' callback d) (\<lambda>(_, d).
      bindR (foldR (first_event api) [1..threadNum]
        \<lparr>ix_currentID = start, ix_endID = end', ix_lock = SRWLock_init api, ix_disp = d, ix_args = Map.empty,
         ix_next = 1, ix_arrays = 0, ix_socks = 0, ix_log = [], ix_errors = []\<rparr>) (\<lambda>s.
      Inr (s\<lparr>ix_currentID := threadNum, ix_disp := snd (ed_setStatus RUNNING (ix_disp s))\<rparr>))))"

text \<open>
  Events handled one after another: the first event of the queue is taken and its callback run.
  The result has the URLs in the order they were fetched.
\<close>

fun crawl :: "nat \<Rightarrow> 'l srw_api \<Rightarrow> fetcher \<Rightarrow> (nat \<Rightarrow> net) \<Rightarrow> 'l Indexer3 \<Rightarrow> (string list \<times> 'l Indexer3) res" where
  "crawl 0 api f nets s = Inr ([], s)"
| "crawl (Suc n) api f nets s =
     (case ed_eventList (ix_disp s) of
        [] \<Rightarrow> Inr ([], s)
      | (name, p) # rest \<Rightarrow>
          (case ix_args s p of
             None \<Rightarrow> Inl UseAfterFree
           | Some url \<Rightarrow>
               bindR (run3 api f (nets n) p (s\<lparr>ix_disp := (ix_disp s)\<lparr>ed_eventList := rest\<rparr>\<rparr>)) (\<lambda>s.
               bindR (crawl n api f nets s) (\<lambda>(urls, s). Inr (url # urls, s)))))"

section \<open>A crawl without failures\<close>

definition good_net :: "fetcher \<Rightarrow> net \<Rightarrow> bool" where
  "good_net f net \<longleftrightarrow> (\<forall>url socks. \<exists>n out. 0 < n \<and>
     getData (f_host f) (f_chunked f) (f_dechunk f) net url maxDataSize socks = Inr ((n, out), socks + 1))"

text \<open>
  The queue holds the ids after \<open>k\<close> up to the current one, each in an argument object of its own.
\<close>

definition crawling :: "'l srw_api \<Rightarrow> int \<Rightarrow> addr list \<Rightarrow> 'l Indexer3 \<Rightarrow> bool" where
  "crawling api k ps s \<longleftrightarrow>
     idle api (ix_lock s) \<and> idle api (ed_lock (ix_disp s)) \<and> map_of (ed_callbackMap (ix_disp s)) ''func'' \<noteq> None \<and>
     ed_eventList (ix_disp s) = map (Pair ''func'') ps \<and> distinct ps \<and> (\<forall>p \<in> set ps. p < ix_next s) \<and>
     map (ix_args s) ps = map (Some \<circ> aid_url) [k + 1..ix_currentID s] \<and> ix_currentID s \<le> ix_endID s"

context srw_laws
begin

lemma ix_submit_eq:
  assumes "idle api (ed_lock (ix_disp s))" and "map_of (ed_callbackMap (ix_disp s)) ''func'' \<noteq> None"
  shows "ix_submit api p s = Inr (s\<lparr>ix_disp := (ix_disp s)\<lparr>ed_eventList := ed_eventList (ix_disp s) @ [(''func'', p)]\<rparr>\<rparr>)"
  using submitEvent_eq [OF assms(1)] assms(2) by (simp add: ix_submit_def)

lemma next_event_eq:
  assumes "idle api (ix_lock s)" and "idle api (ed_lock (ix_disp s))" and "map_of (ed_callbackMap (ix_disp s)) ''func'' \<noteq> None"
  shows "next_event api q s = Inr ((),
     if ix_currentID s < ix_endID s
     then s\<lparr>ix_currentID := ix_currentID s + 1, ix_args := (ix_args s)(q \<mapsto> aid_url (ix_currentID s + 1)),
            ix_disp := (ix_disp s)\<lparr>ed_eventList := ed_eventList (ix_disp s) @ [(''func'', q)]\<rparr>\<rparr>
     else s)"
proof -
  have sub: "ix_submit api p t = Inr (t\<lparr>ix_disp := (ix_disp t)\<lparr>ed_eventList := ed_eventList (ix_disp t) @ [(''func'', p)]\<rparr>\<rparr>)"
    if "ix_disp t = ix_disp s" for p t
    by (rule ix_submit_eq) (use assms that in simp_all)
  show ?thesis
    unfolding next_event_def using assms(1)
    by (rule exclusive_eq) (auto simp: set_ix_lock_def sub)
qed

lemma run3_good:
  assumes "idle api (ix_lock s)" and "idle api (ed_lock (ix_disp s))" and "map_of (ed_callbackMap (ix_disp s)) ''func'' \<noteq> None"
    and "ix_args s p = Some url" and "good_net f net"
  shows "\<exists>s'. run3 api f net p s = Inr s' \<and> ix_lock s' = ix_lock s \<and> ix_endID s' = ix_endID s \<and> ix_next s' = Suc (ix_next s) \<and>
     ix_disp s' = (ix_disp s)\<lparr>ed_eventList := ed_eventList (ix_disp s) @
       (if ix_currentID s < ix_endID s then [(''func'', ix_next s)] else [])\<rparr> \<and>
     ix_currentID s' = (if ix_currentID s < ix_endID s then ix_currentID s + 1 else ix_currentID s) \<and>
     ix_args s' = (ix_args s)(ix_next s \<mapsto> if ix_currentID s < ix_endID s then aid_url (ix_currentID s + 1) else [], p := None)"
proof -
  obtain n out where g: "0 < n" "getData (f_host f) (f_chunked f) (f_dechunk f) net url maxDataSize (ix_socks s) = Inr ((n, out), ix_socks s + 1)"
    using assms(5) unfolding good_net_def by blast
  let ?t = "s\<lparr>ix_arrays := ix_arrays s + 1, ix_socks := ix_socks s + 1, ix_log := ix_log s @ [c_text out],
      ix_next := Suc (ix_next s), ix_args := (ix_args s)(ix_next s \<mapsto> [])\<rparr>"
  have ne: "next_event api (ix_next s) ?t = Inr ((),
     if ix_currentID ?t < ix_endID ?t
     then ?t\<lparr>ix_currentID := ix_currentID ?t + 1, ix_args := (ix_args ?t)(ix_next s \<mapsto> aid_url (ix_currentID ?t + 1)),
            ix_disp := (ix_disp ?t)\<lparr>ed_eventList := ed_eventList (ix_disp ?t) @ [(''func'', ix_next s)]\<rparr>\<rparr>
     else ?t)"
    by (rule next_event_eq) (use assms(1-3) in simp_all)
  have "run3 api f net p s = bindR (next_event api (ix_next s) ?t) (\<lambda>(_, s). Inr (s\<lparr>ix_args := (ix_args s)(p := None), ix_arrays := ix_arrays s - 1\<rparr>))"
    using g assms(4) by (simp add: run3_def parse3_def Let_def)
  then show ?thesis unfolding ne by auto
qed

lemma crawling_step:
  assumes "crawling api k (p # ps) s" and "good_net f net" and "k < ix_endID s"
  shows "\<exists>s' ps'. run3 api f net p (s\<lparr>ix_disp := (ix_disp s)\<lparr>ed_eventList := map (Pair ''func'') ps\<rparr>\<rparr>) = Inr s' \<and>
     crawling api (k + 1) ps' s' \<and> ix_endID s' = ix_endID s \<and> (k + 1 < ix_endID s \<longrightarrow> ps' \<noteq> []) \<and>
     ix_currentID s' = (if ix_currentID s < ix_endID s then ix_currentID s + 1 else ix_currentID s)"
proof -
  let ?s = "s\<lparr>ix_disp := (ix_disp s)\<lparr>ed_eventList := map (Pair ''func'') ps\<rparr>\<rparr>" and ?q = "ix_next s"
  let ?c = "ix_currentID s" and ?e = "ix_endID s"
  have inv: "idle api (ix_lock s)" "idle api (ed_lock (ix_disp s))" "map_of (ed_callbackMap (ix_disp s)) ''func'' \<noteq> None"
    "distinct (p # ps)" "\<forall>r \<in> set (p # ps). r < ?q" "?c \<le> ?e"
    "map (ix_args s) (p # ps) = map (Some \<circ> aid_url) [k + 1..?c]"
    using assms(1) by (simp_all add: crawling_def)
  have kc: "k + 1 \<le> ?c" using inv(7) by (cases "k + 1 \<le> ?c") simp_all
  have up: "[k + 1..?c] = (k + 1) # [k + 1 + 1..?c]" using kc by (rule upto_rec1)
  have args: "ix_args s p = Some (aid_url (k + 1))" "map (ix_args s) ps = map (Some \<circ> aid_url) [k + 1 + 1..?c]"
    using inv(7) unfolding up by simp_all
  from run3_good [of ?s p "aid_url (k + 1)" f net] inv(1-3) args(1) assms(2) obtain s' where s':
    "run3 api f net p ?s = Inr s'" "ix_lock s' = ix_lock s" "ix_endID s' = ?e" "ix_next s' = Suc ?q"
    "ix_disp s' = (ix_disp s)\<lparr>ed_eventList := map (Pair ''func'') ps @ (if ?c < ?e then [(''func'', ?q)] else [])\<rparr>"
    "ix_currentID s' = (if ?c < ?e then ?c + 1 else ?c)"
    "ix_args s' = (ix_args s)(?q \<mapsto> if ?c < ?e then aid_url (?c + 1) else [], p := None)"
    by auto
  define ps' where "ps' = ps @ (if ?c < ?e then [?q] else [])"
  have new: "p \<noteq> ?q" "?q \<notin> set ps" "p \<notin> set ps" using inv(4,5) by auto
  have old: "map (ix_args s') ps = map (ix_args s) ps" unfolding s'(7) using new by (intro map_cong) auto
  have "map (ix_args s') ps' = map (Some \<circ> aid_url) [k + 1 + 1..ix_currentID s']"
  proof (cases "?c < ?e")
    case True
    have "[k + 1 + 1..?c + 1] = [k + 1 + 1..?c] @ [?c + 1]" using kc upto_rec2 [of "k + 1 + 1" "?c + 1"] by simp
    with True show ?thesis using old args(2) new(1) by (simp add: ps'_def s'(6) s'(7))
  next
    case False
    then show ?thesis using old args(2) by (simp add: ps'_def s'(6))
  qed
  then have "crawling api (k + 1) ps' s'"
    using inv new s'(2-6) by (auto simp: crawling_def ps'_def)
  moreover have "ps' \<noteq> []" if "k + 1 < ?e"
  proof (cases "?c < ?e")
    case False
    with inv(6) that have "k + 1 < ?c" by simp
    then have "map (Some \<circ> aid_url) [k + 1 + 1..?c] \<noteq> []" by simp
    then show ?thesis using args(2) by (auto simp: ps'_def)
  qed (simp add: ps'_def)
  ultimately show ?thesis using s'(1,3,6) by blast
qed

lemma crawl_all:
  "crawling api k ps s \<Longrightarrow> (\<And>i. good_net f (nets i)) \<Longrightarrow> k \<le> ix_endID s \<Longrightarrow> (k < ix_endID s \<Longrightarrow> ps \<noteq> []) \<Longrightarrow>
   n = nat (ix_endID s - k) \<Longrightarrow>
   \<exists>s'. crawl n api f nets s = Inr (map aid_url [k + 1..ix_endID s], s') \<and> ed_eventList (ix_disp s') = []"
proof (induction n arbitrary: k ps s)
  case 0
  then have "k = ix_endID s" by simp
  moreover have "ps = []"
  proof -
    have "map (ix_args s) ps = map (Some \<circ> aid_url) [k + 1..ix_currentID s]" "ix_currentID s \<le> ix_endID s"
      using 0(1) by (simp_all add: crawling_def)
    with \<open>k = ix_endID s\<close> show ?thesis by simp
  qed
  ultimately show ?case using 0(1) by (simp add: crawling_def)
next
  case (Suc n)
  then have ke: "k < ix_endID s" by simp
  then obtain p qs where ps: "ps = p # qs" using Suc.prems(4) by (cases ps) auto
  obtain s' ps' where s': "run3 api f (nets n) p (s\<lparr>ix_disp := (ix_disp s)\<lparr>ed_eventList := map (Pair ''func'') qs\<rparr>\<rparr>) = Inr s'"
    "crawling api (k + 1) ps' s'" "ix_endID s' = ix_endID s" "k + 1 < ix_endID s \<Longrightarrow> ps' \<noteq> []"
    using crawling_step [OF Suc.prems(1) [unfolded ps] Suc.prems(2) ke] by blast
  have "\<exists>s''. crawl n api f nets s' = Inr (map aid_url [k + 1 + 1..ix_endID s'], s'') \<and> ed_eventList (ix_disp s'') = []"
    by (rule Suc.IH [OF s'(2) Suc.prems(2)]) (use s'(3,4) ke Suc.prems(5) in simp_all)
  moreover have "ix_args s p = Some (aid_url (k + 1))" "ed_eventList (ix_disp s) = (''func'', p) # map (Pair ''func'') qs"
  proof -
    have "map (ix_args s) (p # qs) = map (Some \<circ> aid_url) [k + 1..ix_currentID s]" "ed_eventList (ix_disp s) = map (Pair ''func'') (p # qs)"
      using Suc.prems(1) by (simp_all add: crawling_def ps)
    moreover from this(1) have "k + 1 \<le> ix_currentID s" by (cases "k + 1 \<le> ix_currentID s") simp_all
    ultimately show "ix_args s p = Some (aid_url (k + 1))" "ed_eventList (ix_disp s) = (''func'', p) # map (Pair ''func'') qs"
      by (simp_all add: upto_rec1)
  qed
  moreover have "[k + 1..ix_endID s] = (k + 1) # [k + 1 + 1..ix_endID s]" using ke by (intro upto_rec1) simp
  ultimately show ?case using s'(1,3) by auto
qed

lemma first_events:
  assumes "idle api (ed_lock (ix_disp s))" and "map_of (ed_callbackMap (ix_disp s)) ''func'' \<noteq> None" and "ed_eventList (ix_disp s) = []"
  shows "\<exists>s'. foldR (first_event api) xs s = Inr s' \<and> ix_next s' = ix_next s + length xs \<and> ix_lock s' = ix_lock s \<and> ix_endID s' = ix_endID s \<and>
     ix_disp s' = (ix_disp s)\<lparr>ed_eventList := map (Pair ''func'') [ix_next s..<ix_next s + length xs]\<rparr> \<and>
     map (ix_args s') [ix_next s..<ix_next s + length xs] = map (Some \<circ> aid_url) xs"
proof (induction xs rule: rev_induct)
  case Nil
  show ?case using assms(3) by (cases "ix_disp s") simp
next
  case (snoc x xs)
  then obtain s' where s': "foldR (first_event api) xs s = Inr s'" "ix_next s' = ix_next s + length xs" "ix_lock s' = ix_lock s"
    "ix_endID s' = ix_endID s" "ix_disp s' = (ix_disp s)\<lparr>ed_eventList := map (Pair ''func'') [ix_next s..<ix_next s + length xs]\<rparr>"
    "map (ix_args s') [ix_next s..<ix_next s + length xs] = map (Some \<circ> aid_url) xs" by blast
  let ?t = "s'\<lparr>ix_next := Suc (ix_next s'), ix_args := (ix_args s')(ix_next s' \<mapsto> aid_url x)\<rparr>"
  have "ix_submit api (ix_next s') ?t = Inr (?t\<lparr>ix_disp := (ix_disp ?t)\<lparr>ed_eventList := ed_eventList (ix_disp ?t) @ [(''func'', ix_next s')]\<rparr>\<rparr>)"
    by (rule ix_submit_eq) (use assms s'(5) in simp_all)
  then have "first_event api x s' = Inr (?t\<lparr>ix_disp := (ix_disp ?t)\<lparr>ed_eventList := ed_eventList (ix_disp ?t) @ [(''func'', ix_next s')]\<rparr>\<rparr>)"
    by (simp add: first_event_def Let_def)
  moreover have "map ((ix_args s')(ix_next s' \<mapsto> aid_url x)) [ix_next s..<ix_next s + length xs] = map (Some \<circ> aid_url) xs"
    unfolding s'(6) [symmetric] using s'(2) by (intro map_cong) auto
  ultimately show ?case
    using s' by (simp add: foldR_append)
qed

lemma deploy_crawling:
  assumes "callback \<noteq> 0" and "1 \<le> t" and "t \<le> e"
  shows "\<exists>s. deployIndexer3 api callback 1 e t = Inr s \<and> crawling api 0 [1..<1 + nat t] s \<and> ix_endID s = e \<and> ix_currentID s = t"
proof -
  let ?d = "fst (EventDispatcher_create api t)"
  have d: "idle api (ed_lock ?d)" "ed_callbackMap ?d = []" "ed_eventList ?d = []" "snd (ed_setStatus HALT ?d) = ?d"
    by (simp_all add: EventDispatcher_create_def Let_def idle_def SRWLock_init_def ed_setStatus_def)
  let ?d1 = "?d\<lparr>ed_callbackMap := [(''func'', ed_nextNode ?d, callback)], ed_nextNode := Suc (ed_nextNode ?d)\<rparr>"
  have add: "addCallback api ''func'' callback ?d = Inr (True, ?d1)"
    using addCallback_eq [OF d(1), of "''func''" callback] assms(1) d(2) by simp
  let ?s0 = "\<lparr>ix_currentID = 1, ix_endID = e, ix_lock = SRWLock_init api, ix_disp = ?d1, ix_args = Map.empty,
         ix_next = 1, ix_arrays = 0, ix_socks = 0, ix_log = [], ix_errors = []\<rparr>"
  have "length [1..t] = nat t" by simp
  with first_events [of ?s0 "[1..t]"] d obtain s' where s': "foldR (first_event api) [1..t] ?s0 = Inr s'" "ix_next s' = 1 + nat t"
    "ix_lock s' = SRWLock_init api" "ix_endID s' = e" "ix_disp s' = ?d1\<lparr>ed_eventList := map (Pair ''func'') [1..<1 + nat t]\<rparr>"
    "map (ix_args s') [1..<1 + nat t] = map (Some \<circ> aid_url) [1..t]" by auto
  let ?s = "s'\<lparr>ix_currentID := t, ix_disp := snd (ed_setStatus RUNNING (ix_disp s'))\<rparr>"
  have "deployIndexer3 api callback 1 e t = Inr ?s"
    using add s'(1) d(4) by (simp add: deployIndexer3_def Let_def)
  moreover have "crawling api 0 [1..<1 + nat t] ?s"
    using s' d(1) assms(3) by (auto simp: crawling_def ed_setStatus_def idle_def SRWLock_init_def)
  ultimately show ?thesis using s'(4) by auto
qed

text \<open>A failed fetch puts the event back and then deletes it.\<close>

lemma run3_failed:
  assumes "idle api (ix_lock s)" and "idle api (ed_lock (ix_disp s))" and "map_of (ed_callbackMap (ix_disp s)) ''func'' \<noteq> None"
    and "ix_args s p = Some url" and "getData (f_host f) (f_chunked f) (f_dechunk f) net url maxDataSize (ix_socks s) = Inr ((-1, out), socks)"
  shows "\<exists>s'. run3 api f net p s = Inr s' \<and> (''func'', p) \<in> set (ed_eventList (ix_disp s')) \<and> ix_args s' p = None"
proof -
  let ?t0 = "s\<lparr>ix_arrays := ix_arrays s + 1, ix_socks := socks\<rparr>"
  let ?t1 = "?t0\<lparr>ix_disp := (ix_disp ?t0)\<lparr>ed_eventList := ed_eventList (ix_disp ?t0) @ [(''func'', p)]\<rparr>\<rparr>"
  have sub: "ix_submit api p ?t0 = Inr ?t1" by (rule ix_submit_eq) (use assms(2,3) in simp_all)
  let ?t = "?t1\<lparr>ix_log := ix_log s @ [c_text out], ix_next := Suc (ix_next s), ix_args := (ix_args s)(ix_next s \<mapsto> [])\<rparr>"
  have ne: "next_event api (ix_next s) ?t = Inr ((),
     if ix_currentID ?t < ix_endID ?t
     then ?t\<lparr>ix_currentID := ix_currentID ?t + 1, ix_args := (ix_args ?t)(ix_next s \<mapsto> aid_url (ix_currentID ?t + 1)),
            ix_disp := (ix_disp ?t)\<lparr>ed_eventList := ed_eventList (ix_disp ?t) @ [(''func'', ix_next s)]\<rparr>\<rparr>
     else ?t)"
    by (rule next_event_eq) (use assms(1-3) in simp_all)
  have "run3 api f net p s = bindR (next_event api (ix_next s) ?t) (\<lambda>(_, s). Inr (s\<lparr>ix_args := (ix_args s)(p := None), ix_arrays := ix_arrays s - 1\<rparr>))"
    using sub assms(4,5) by (simp add: run3_def parse3_def Let_def)
  then show ?thesis unfolding ne by auto
qed

end

section \<open>Properties\<close>

text \<open>
  Without failures the crawler fetches every id exactly once, in order: with one event per
  thread at the start and at least as many ids as threads, handling the events one after another
  fetches the ids 1 up to the last one and then leaves the queue empty.
\<close>

theorem crawl_visits_each_once:
  assumes "srw_laws api" and "callback \<noteq> 0" and "1 \<le> t" and "t \<le> e" and "\<And>i. good_net f (nets i)"
  shows "\<exists>s s'. deployIndexer3 api callback 1 e t = Inr s \<and> crawl (nat e) api f nets s = Inr (map aid_url [1..e], s') \<and>
     ed_eventList (ix_disp s') = []"
proof -
  obtain s where s: "deployIndexer3 api callback 1 e t = Inr s" "crawling api 0 [1..<1 + nat t] s" "ix_endID s = e"
    using srw_laws.deploy_crawling [OF assms(1-4)] by blast
  have "\<exists>s'. crawl (nat e) api f nets s = Inr (map aid_url [0 + 1..ix_endID s], s') \<and> ed_eventList (ix_disp s') = []"
    by (rule srw_laws.crawl_all [OF assms(1) s(2) assms(5)]) (use assms(3,4) s(3) in simp_all)
  with s show ?thesis by auto
qed

definition small_net :: net where
  "small_net = \<lparr>net_connect = True, net_send = (\<lambda>r. int (length r)), net_shutdown = True, net_recv = [''ok''], net_error = False\<rparr>"

definition plain_fetcher :: fetcher where
  "plain_fetcher = \<lparr>f_host = (\<lambda>_. Some ''api.bilibili.com''), f_chunked = (\<lambda>_. False), f_dechunk = id\<rparr>"

lemma small_net_good: "good_net plain_fetcher small_net"
  by (auto simp: good_net_def plain_fetcher_def small_net_def getData_def combineChunk_def maxDataSize_def Let_def)

lemma crawl_visits_each_once_witness:
  "\<exists>s s'. deployIndexer3 srw_ref 1 1 20 8 = Inr s \<and> crawl 20 srw_ref plain_fetcher (\<lambda>_. small_net) s = Inr (map aid_url [1..20], s')"
  using crawl_visits_each_once [OF srw_ref.srw_laws_axioms, of 1 8 20 plain_fetcher "\<lambda>_. small_net"] small_net_good by auto

text \<open>
  C35. A failed fetch submits the same event again and nevertheless deletes its argument: handling
  that event uses freed memory.
\<close>

theorem failed_fetch_uses_freed:
  assumes "srw_laws api" and "idle api (ix_lock s)" and "idle api (ed_lock (ix_disp s))"
    and "map_of (ed_callbackMap (ix_disp s)) ''func'' \<noteq> None" and "ix_args s p = Some url"
    and "getData (f_host f) (f_chunked f) (f_dechunk f) net url maxDataSize (ix_socks s) = Inr ((-1, out), socks)"
  shows "\<exists>s'. run3 api f net p s = Inr s' \<and> (''func'', p) \<in> set (ed_eventList (ix_disp s')) \<and>
     (\<forall>net'. run3 api f net' p s' = Inl UseAfterFree)"
  using srw_laws.run3_failed [OF assms] by (auto simp: run3_def)

lemma failed_fetch_uses_freed_witness:
  "\<exists>s s'. deployIndexer3 srw_ref 1 1 20 8 = Inr s \<and>
     run3 srw_ref plain_fetcher (small_net\<lparr>net_connect := False\<rparr>) 1 s = Inr s' \<and> run3 srw_ref plain_fetcher small_net 1 s' = Inl UseAfterFree"
proof -
  obtain s where s: "deployIndexer3 srw_ref 1 1 20 8 = Inr s" "crawling srw_ref 0 [1..<1 + nat 8] s"
    using srw_ref.deploy_crawling [of 1 8 20] by auto
  have "map (ix_args s) [1..<1 + nat 8] = map (Some \<circ> aid_url) [0 + 1..ix_currentID s]" using s(2) by (simp add: crawling_def)
  then have "ix_args s 1 \<in> (Some \<circ> aid_url) ` set [0 + 1..ix_currentID s]"
    by (metis (no_types, lifting) image_eqI list.set_map atLeastLessThan_upt add_le_same_cancel1 atLeastLessThan_iff le_numeral_extra(4)
        less_add_same_cancel1 nat_numeral set_upt zero_less_numeral)
  then obtain url where url: "ix_args s 1 = Some url" by auto
  have g: "getData (f_host plain_fetcher) (f_chunked plain_fetcher) (f_dechunk plain_fetcher) (small_net\<lparr>net_connect := False\<rparr>) url
      maxDataSize (ix_socks s) = Inr ((-1, replicate maxDataSize (CHR 0x00)), ix_socks s + 1)"
    by (simp add: getData_def small_net_def Let_def)
  from failed_fetch_uses_freed [OF srw_ref.srw_laws_axioms _ _ _ url g] s show ?thesis by (auto simp: crawling_def)
qed

end
