(* ===== verification/Crawler.thy ===== *)
theory Crawler
  imports Crawler_Http
begin

text \<open>
  The crawler of \<^verbatim>\<open>Indexer2.cpp\<close>: it walks from the pages of an index over seasons to videos. An
  event carries an operation and a URL; the callback fetches the URL once, takes what it needs out
  of the response with regular expressions, writes it to log files and to the database, and submits
  events for what it found. The regular expressions and the database are parameters, the argument
  objects live in a store.
\<close>

section \<open>State\<close>

datatype Operation = GetBangumiList | GetSeasonList | GetSeasonDetail | GetVideoID | GetVideoDetail

record ArgItem =
  bangumiID :: string
  seasonID :: string
  episodeID :: string
  videoID :: string
  currentURL :: string
  operation :: Operation

text \<open>
  A search gives the groups of the first match (the whole match is group 0) and the text behind it.
\<close>

type_synonym search = "string \<Rightarrow> (string list \<times> string) option"

record patterns =
  bangumiIndexPattern :: search
  seasonIndexPattern :: search
  currentSeasonPattern :: search
  episodeIndexPattern :: search
  videoIDPattern :: search
  videoDetailPattern :: search
  seasonParsePattern :: search
  hostPattern :: "string \<Rightarrow> string option"
  chunkedPattern :: "string \<Rightarrow> bool"
  replacePattern :: "string \<Rightarrow> string"

text \<open>
  The state: the visited URLs, the lock, the dispatcher, the argument objects, the arrays not deleted
  and sockets not closed, the lines of the log files (which file, what is printed) and the
  statements given to the database. The sets of marked seasons and episodes are never used.
\<close>

record 'l Indexer =
  visitedURL :: "string set"
  cr_lock :: "'l SRWLock"
  cr_disp :: "'l EventDispatcher"
  cr_args :: "addr \<rightharpoonup> ArgItem"
  cr_next :: addr
  cr_arrays :: int
  cr_socks :: int
  cr_log :: "(string \<times> string list) list"
  cr_sql :: "string list"
  cr_ip :: string

definition cr_maxDataSize :: nat where
  "cr_maxDataSize = 0x100000"

definition set_cr_lock :: "'l SRWLock \<Rightarrow> 'l Indexer \<Rightarrow> 'l Indexer" where
  "set_cr_lock l s = s\<lparr>cr_lock := l\<rparr>"

definition grp :: "string list \<Rightarrow> nat \<Rightarrow> string" where
  "grp results i = (if i < length results then results ! i else [])"

text \<open>
  The loops \<^verbatim>\<open>while (regex_search(start, end, results, pattern))\<close>: all matches one after another. Every
  pattern of the program matches at least its own punctuation, so the rest gets shorter.
\<close>

function search_all :: "search \<Rightarrow> string \<Rightarrow> string list list" where
  "search_all pat s =
     (case pat s of
        None \<Rightarrow> []
      | Some (results, rest) \<Rightarrow> results # (if length rest < length s then search_all pat rest else []))"
  by pat_completeness auto

termination by (relation "measure (\<lambda>(pat, s). length s)") auto

declare search_all.simps [simp del]

definition add_log :: "string \<Rightarrow> string list \<Rightarrow> 'l Indexer \<Rightarrow> 'l Indexer" where
  "add_log file xs s = s\<lparr>cr_log := cr_log s @ [(file, xs)]\<rparr>"

text \<open>\<^verbatim>\<open>new ArgItem\<close>, filled and submitted.\<close>

definition submit_item :: "'l srw_api \<Rightarrow> ArgItem \<Rightarrow> 'l Indexer \<Rightarrow> 'l Indexer res" where
  "submit_item api item s =
     (let p = cr_next s; s = s\<lparr>cr_next := Suc p, cr_args := (cr_args s)(p \<mapsto> item)\<rparr> in
      bindR (submitEvent api ''callback'' p (cr_disp s)) (\<lambda>(_, d). Inr (s\<lparr>cr_disp := d\<rparr>)))"

definition get_arg :: "addr \<Rightarrow> 'l Indexer \<Rightarrow> ArgItem res" where
  "get_arg p s = (case cr_args s p of None \<Rightarrow> Inl UseAfterFree | Some a \<Rightarrow> Inr a)"

section \<open>Fetching\<close>

text \<open>
  \<^verbatim>\<open>Indexer2.cpp\<close> has its own copies of the request builder, of \<^verbatim>\<open>combineChunk\<close> and of \<^verbatim>\<open>getData\<close>; the
  first two are letter by letter those of \<^verbatim>\<open>Indexer3.cpp\<close>. Here \<^verbatim>\<open>getData\<close> also logs its failures (the
  codes of \<^verbatim>\<open>GetLastError\<close> are left out) and is given an argument that keeps the URL.
\<close>

definition cr_HTTPRequest_create :: "(string \<Rightarrow> string option) \<Rightarrow> string \<Rightarrow> string \<Rightarrow> string \<Rightarrow> string \<Rightarrow> string" where
  "cr_HTTPRequest_create host url content cookie httpMethod = HTTPRequest_create host url content cookie httpMethod"

definition cr_combineChunk :: "patterns \<Rightarrow> string \<Rightarrow> int \<Rightarrow> (int \<times> string) res" where
  "cr_combineChunk pt data n = combineChunk (chunkedPattern pt) (replacePattern pt) data n"

definition cr_failed :: "string \<Rightarrow> string list \<Rightarrow> 'l Indexer \<Rightarrow> 'l Indexer" where
  "cr_failed what xs s = add_log ''LogError'' (what # xs) (add_log ''Log'' [what] s)"

definition cr_getData :: "patterns \<Rightarrow> net \<Rightarrow> ArgItem \<Rightarrow> nat \<Rightarrow> 'l Indexer \<Rightarrow> ((int \<times> string) \<times> 'l Indexer) res" where
  "cr_getData pt net arg limit s =
     (let output = replicate limit (CHR 0x00); s = s\<lparr>cr_socks := cr_socks s + 1\<rparr> in
      if \<not> net_connect net then Inr ((-1, output), cr_failed ''connect failed'' [] s)
      else
        let request = cr_HTTPRequest_create (hostPattern pt) (currentURL arg) [] [] ''GET'' in
        if net_send net request \<noteq> int (length request) then Inr ((-1, output), cr_failed ''send error'' [request] s)
        else if \<not> net_shutdown net then
          Inr ((-1, output), cr_failed ''shutdown error'' [request] (s\<lparr>cr_socks := cr_socks s - 1\<rparr>))
        else
          (case recv_loop (net_error net) limit (net_recv net) of (d, err) \<Rightarrow>
             let output = d @ drop (length d) output in
             if err then Inr ((-1, output), cr_failed ''recv error'' [request] s)
             else if limit \<le> length d then Inl OutOfBounds
             else bindR (cr_combineChunk pt (output[length d := CHR 0x00]) (int (length d))) (\<lambda>r. Inr (r, s))))"

section \<open>Parsing responses\<close>

definition season_url :: "string \<Rightarrow> string" where
  "season_url i = ''http://bangumi.bilibili.com/jsonp/seasoninfo/'' @ i @ ''.ver?callback=seasonListCallback&jsonp=jsonp''"

definition video_url :: "string \<Rightarrow> string" where
  "video_url i = ''http://api.bilibili.com/archive_stat/stat?aid='' @ i @ ''&type=jsonp''"

definition getBangumiList :: "'l srw_api \<Rightarrow> patterns \<Rightarrow> addr \<Rightarrow> string \<Rightarrow> 'l Indexer \<Rightarrow> 'l Indexer res" where
  "getBangumiList api pt p data s =
     bindR (get_arg p s) (\<lambda>arg.
       let found = search_all (bangumiIndexPattern pt) (c_text data);
           s = fold (\<lambda>results. add_log ''BangumiFile'' [grp results 0]) found s
       in
       if found = [] then Inr (add_log ''LogFile'' [''empty bangumi list.'', currentURL arg] (add_log ''Log'' [''empty bangumi list.''] s))
       else
         foldR (\<lambda>results. submit_item api
           \<lparr>bangumiID = grp results 6, seasonID = [], episodeID = [], videoID = [],
            currentURL = season_url (grp results 6), operation = GetSeasonList\<rparr>) found s)"

definition getSeasonList :: "'l srw_api \<Rightarrow> patterns \<Rightarrow> addr \<Rightarrow> string \<Rightarrow> 'l Indexer \<Rightarrow> 'l Indexer res" where
  "getSeasonList api pt p data s =
     bindR (get_arg p s) (\<lambda>arg.
       let str = c_text data in
       case currentSeasonPattern pt str of
         None \<Rightarrow> Inr (add_log ''LogError'' [''cannot get current season,'', currentURL arg] (add_log ''Log'' [''cannot get current season''] s))
       | Some (results, _) \<Rightarrow>
           let s = add_log ''SeasonFile'' ([bangumiID arg, grp results 6] @ map (grp results) [1..<10]) s;
               arg = arg\<lparr>operation := GetSeasonDetail, seasonID := bangumiID arg\<rparr>;
               s = s\<lparr>cr_args := (cr_args s)(p \<mapsto> arg)\<rparr>;
               found = search_all (seasonIndexPattern pt) str;
               s = fold (\<lambda>results. add_log ''SeasonFile'' [bangumiID arg, grp results 6, grp results 0]) found s
           in
           foldR (\<lambda>results. submit_item api
             \<lparr>bangumiID = bangumiID arg, seasonID = grp results 6, episodeID = [], videoID = [],
              currentURL = season_url (grp results 6), operation = GetSeasonDetail\<rparr>) found s)"

definition quoted :: "string \<Rightarrow> string" where
  "quoted v = [CHR 0x27] @ v @ [CHR 0x27]"

text \<open>\<open>db\<close> says whether the database executes a statement.\<close>

definition ExecuteSQL :: "(string \<Rightarrow> bool) \<Rightarrow> string \<Rightarrow> 'l Indexer \<Rightarrow> bool \<times> 'l Indexer" where
  "ExecuteSQL db sql s = (db sql, s\<lparr>cr_sql := cr_sql s @ [sql]\<rparr>)"

definition season_sql :: "ArgItem \<Rightarrow> string list \<Rightarrow> string" where
  "season_sql arg results =
     ''insert into seasonParse values('' @ quoted (seasonID arg) @ '','' @ quoted (grp results 1) @ '','' @ quoted (grp results 2) @ '','' @
     quoted (grp results 3) @ '','' @ quoted (grp results 4) @ '','' @ quoted (grp results 5) @ '')''"

definition getSeasonDetail :: "'l srw_api \<Rightarrow> patterns \<Rightarrow> (string \<Rightarrow> bool) \<Rightarrow> addr \<Rightarrow> string \<Rightarrow> 'l Indexer \<Rightarrow> 'l Indexer res" where
  "getSeasonDetail api pt db p data s =
     bindR (get_arg p s) (\<lambda>arg.
       if seasonID arg = [] then Inr s
       else
         let str = c_text data;
             s = (case seasonParsePattern pt str of
                    Some (results, _) \<Rightarrow>
                      (let s = add_log ''SeasonDetailFile'' ([bangumiID arg, seasonID arg] @ map (grp results) [1..<6] @ [str]) s;
                           (ok, s) = ExecuteSQL db (season_sql arg results) s
                       in if ok then s else add_log ''LogError'' [''cannot write parse data to sql server'', currentURL arg] s)
                  | None \<Rightarrow>
                      add_log ''LogError'' [''cannot parse season'', currentURL arg]
                        (add_log ''SeasonDetailFile'' [bangumiID arg, seasonID arg, str] s));
             found = search_all (episodeIndexPattern pt) str
         in
         if found = [] then Inr (add_log ''LogFile'' [''empty episode list.'', currentURL arg] (add_log ''Log'' [''empty episode list.''] s))
         else
           foldR (\<lambda>results. submit_item api
             \<lparr>bangumiID = bangumiID arg, seasonID = seasonID arg, episodeID = [], videoID = grp results 1,
              currentURL = video_url (grp results 1), operation = GetVideoDetail\<rparr>) found s)"

definition getVideoID :: "'l srw_api \<Rightarrow> patterns \<Rightarrow> addr \<Rightarrow> string \<Rightarrow> 'l Indexer \<Rightarrow> 'l Indexer res" where
  "getVideoID api pt p data s =
     bindR (get_arg p s) (\<lambda>arg.
       case videoIDPattern pt (c_text data) of
         Some (results, _) \<Rightarrow>
           submit_item api
             \<lparr>bangumiID = bangumiID arg, seasonID = seasonID arg, episodeID = episodeID arg, videoID = grp results 1,
              currentURL = video_url (grp results 1), operation = GetVideoDetail\<rparr> s
       | None \<Rightarrow> Inr s)"

definition video_sql :: "ArgItem \<Rightarrow> string list \<Rightarrow> string" where
  "video_sql arg results =
     ''insert into video values('' @ quoted (videoID arg) @ '','' @ quoted (bangumiID arg) @ '','' @ quoted (seasonID arg) @ '','' @
     concat (map (\<lambda>i. quoted (grp results i) @ '','') [1..<9]) @ quoted [] @ '')''"

definition getVideoDetail :: "patterns \<Rightarrow> (string \<Rightarrow> bool) \<Rightarrow> addr \<Rightarrow> string \<Rightarrow> 'l Indexer \<Rightarrow> 'l Indexer res" where
  "getVideoDetail pt db p data s =
     bindR (get_arg p s) (\<lambda>arg.
       case videoDetailPattern pt (c_text data) of
         Some (results, _) \<Rightarrow>
           (let s = add_log ''VideoFile'' [bangumiID arg, seasonID arg, videoID arg, grp results 0] s;
                (ok, s) = ExecuteSQL db (video_sql arg results) s
            in Inr (if ok then s else add_log ''LogError'' [''cannot write video parse data to sql server'', currentURL arg] s))
       | None \<Rightarrow> Inr (add_log ''LogError'' [''cannot get video detail,'', currentURL arg] s))"

section \<open>The callback\<close>

text \<open>The look into the set of visited URLs at the start, and taking the URL out again after a failure.\<close>

definition mark_url :: "'l srw_api \<Rightarrow> string \<Rightarrow> 'l Indexer \<Rightarrow> (bool \<times> 'l Indexer) res" where
  "mark_url api url =
     exclusive api cr_lock set_cr_lock (\<lambda>s.
       if url \<in> visitedURL s then Inr (False, s) else Inr (True, s\<lparr>visitedURL := insert url (visitedURL s)\<rparr>))"

definition unmark_url :: "'l srw_api \<Rightarrow> string \<Rightarrow> 'l Indexer \<Rightarrow> (unit \<times> 'l Indexer) res" where
  "unmark_url api url =
     exclusive api cr_lock set_cr_lock (\<lambda>s. Inr ((), s\<lparr>visitedURL := visitedURL s - {url}\<rparr>))"

text \<open>The switch; the case of a season list goes on with the season's details.\<close>

definition process :: "'l srw_api \<Rightarrow> patterns \<Rightarrow> (string \<Rightarrow> bool) \<Rightarrow> addr \<Rightarrow> Operation \<Rightarrow> string \<Rightarrow> 'l Indexer \<Rightarrow> 'l Indexer res" where
  "process api pt db p op' output s =
     (case op' of
        GetBangumiList \<Rightarrow> getBangumiList api pt p output s
      | GetSeasonList \<Rightarrow> bindR (getSeasonList api pt p output s) (getSeasonDetail api pt db p output)
      | GetSeasonDetail \<Rightarrow> getSeasonDetail api pt db p output s
      | GetVideoID \<Rightarrow> getVideoID api pt p output s
      | GetVideoDetail \<Rightarrow> getVideoDetail pt db p output s)"

definition delete_arg :: "addr \<Rightarrow> 'l Indexer \<Rightarrow> 'l Indexer" where
  "delete_arg p s = s\<lparr>cr_args := (cr_args s)(p := None), cr_arrays := cr_arrays s - 1\<rparr>"

text \<open>
  \<open>delete\<close> on the array is taken as \<open>delete[]\<close>. The first result says whether the response was processed.
\<close>

definition cr_run ::
  "'l srw_api \<Rightarrow> patterns \<Rightarrow> (string \<Rightarrow> bool) \<Rightarrow> net \<Rightarrow> addr \<Rightarrow> 'l Indexer \<Rightarrow> (bool \<times> 'l Indexer) res" where
  "cr_run api pt db net p s =
     bindR (get_arg p s) (\<lambda>arg.
     bindR (mark_url api (currentURL arg) s) (\<lambda>(fresh, s).
     if \<not> fresh then Inr (False, s)
     else
       let s = s\<lparr>cr_arrays := cr_arrays s + 1\<rparr> in
       if currentURL arg = [] then Inr (False, delete_arg p s)
       else
         bindR (cr_getData pt net arg cr_maxDataSize s) (\<lambda>((len, output), s).
         let s = add_log ''Log'' [bangumiID arg, seasonID arg, videoID arg, currentURL arg] s in
         if len \<le> 0 then
           bindR (unmark_url api (currentURL arg) s) (\<lambda>(_, s).
           bindR (submitEvent api ''callback'' p (cr_disp s)) (\<lambda>(_, d).
             Inr (False, add_log ''LogError'' [bangumiID arg, seasonID arg, videoID arg, currentURL arg]
               (add_log ''LogError'' [''in run, length <= 0, event reset.''] (s\<lparr>cr_disp := d, cr_arrays := cr_arrays s - 1\<rparr>)))))
         else if length output \<le> nat len then Inl OutOfBounds
         else
           bindR (process api pt db p (operation arg) (output[nat len := CHR 0x00]) s) (\<lambda>s.
             Inr (True, delete_arg p s)))))"

text \<open>
  \<^verbatim>\<open>deployIndexer\<close>: the dispatcher is suspended, gets the callback and one event for each page of the
  index, and is told to run. \<open>ips\<close> are the addresses of the host, \<open>db_open\<close> says whether the
  database could be opened; without either the program ends.
\<close>

definition page_url :: "int \<Rightarrow> string" where
  "page_url n = ''http://bangumi.bilibili.com/web_api/season/index?page='' @ print_int n @
     ''&page_size=20&version=0&is_finish=0&start_year=0&quarter=0&tag_id=&index_type=1&index_sort=0''"

definition Indexer_create :: "'l srw_api \<Rightarrow> string list \<Rightarrow> bool \<Rightarrow> 'l EventDispatcher \<Rightarrow> 'l Indexer res" where
  "Indexer_create api ips db_open d =
     (case ips of
        [] \<Rightarrow> Inl (ExitProcess 0)
      | ip # _ \<Rightarrow>
          if \<not> db_open then Inl (ExitProcess 0)
          else Inr \<lparr>visitedURL = {}, cr_lock = SRWLock_init api, cr_disp = d, cr_args = Map.empty, cr_next = 1, cr_arrays = 0,
                 cr_socks = 0, cr_log = [], cr_sql = [], cr_ip = ip\<rparr>)"

definition deployIndexer :: "'l srw_api \<Rightarrow> string list \<Rightarrow> bool \<Rightarrow> addr \<Rightarrow> 'l Indexer res" where
  "deployIndexer api ips db_open callback =
     bindR (Indexer_create api ips db_open (fst (EventDispatcher_create api 32))) (\<lambda>s.
     bindR (addCallback api ''callback'' callback (snd (ed_setStatus SUSPEND (cr_disp s)))) (\<lambda>(_, d).
     bindR (foldR (\<lambda>n. submit_item api
       \<lparr>bangumiID = [], seasonID = [], episodeID = [], videoID = [], currentURL = page_url n, operation = GetBangumiList\<rparr>)
       [1..144] (s\<lparr>cr_disp := d\<rparr>)) (\<lambda>s.
     Inr (s\<lparr>cr_disp := snd (ed_setStatus RUNNING (cr_disp s))\<rparr>))))"

section \<open>What the steps do to the set of visited URLs\<close>

lemma visited_add_log [simp]: "visitedURL (add_log f xs s) = visitedURL s" "cr_lock (add_log f xs s) = cr_lock s"
  by (simp_all add: add_log_def)

lemma visited_fold_log [simp]: "visitedURL (fold (\<lambda>r. add_log f (g r)) rs s) = visitedURL s"
  by (induction rs arbitrary: s) simp_all

lemma visited_ExecuteSQL: "ExecuteSQL db sql s = (ok, s') \<Longrightarrow> visitedURL s' = visitedURL s"
  by (auto simp: ExecuteSQL_def)

lemma submit_item_keeps: "visitedURL s = V \<Longrightarrow> returns (\<lambda>s'. visitedURL s' = V) (submit_item api item s)"
  unfolding submit_item_def Let_def by (rule returns_bind [OF returns_any]) auto

lemma submit_items_keeps:
  "visitedURL s = V \<Longrightarrow> returns (\<lambda>s'. visitedURL s' = V) (foldR (\<lambda>r. submit_item api (g r)) rs s)"
  by (rule returns_foldR) (rule submit_item_keeps)

lemma parsers_keep:
  "returns (\<lambda>s'. visitedURL s' = visitedURL s) (getBangumiList api pt p data s)"
  "returns (\<lambda>s'. visitedURL s' = visitedURL s) (getSeasonList api pt p data s)"
  "returns (\<lambda>s'. visitedURL s' = visitedURL s) (getSeasonDetail api pt db p data s)"
  "returns (\<lambda>s'. visitedURL s' = visitedURL s) (getVideoID api pt p data s)"
  "returns (\<lambda>s'. visitedURL s' = visitedURL s) (getVideoDetail pt db p data s)"
proof -
  show "returns (\<lambda>s'. visitedURL s' = visitedURL s) (getBangumiList api pt p data s)"
    unfolding getBangumiList_def Let_def
    by (rule returns_bind [OF returns_any]) (auto intro!: submit_items_keeps)
  show "returns (\<lambda>s'. visitedURL s' = visitedURL s) (getSeasonList api pt p data s)"
    unfolding getSeasonList_def Let_def
    by (rule returns_bind [OF returns_any]) (auto split: option.split intro!: submit_items_keeps)
  show "returns (\<lambda>s'. visitedURL s' = visitedURL s) (getSeasonDetail api pt db p data s)"
    unfolding getSeasonDetail_def Let_def
    by (rule returns_bind [OF returns_any])
      (auto split: option.split prod.split dest: visited_ExecuteSQL intro!: submit_items_keeps)
  show "returns (\<lambda>s'. visitedURL s' = visitedURL s) (getVideoID api pt p data s)"
    unfolding getVideoID_def Let_def
    by (rule returns_bind [OF returns_any]) (auto split: option.split intro!: submit_item_keeps)
  show "returns (\<lambda>s'. visitedURL s' = visitedURL s) (getVideoDetail pt db p data s)"
    unfolding getVideoDetail_def Let_def
    by (rule returns_bind [OF returns_any]) (auto split: option.split prod.split dest: visited_ExecuteSQL)
qed

lemma process_keeps: "returns (\<lambda>s'. visitedURL s' = visitedURL s) (process api pt db p op' data s)"
proof (cases op')
  case GetSeasonList
  have "returns (\<lambda>s'. visitedURL s' = visitedURL s) (bindR (getSeasonList api pt p data s) (getSeasonDetail api pt db p data))"
  proof (rule returns_bind [OF parsers_keep(2)])
    fix x :: "'a Indexer" assume "visitedURL x = visitedURL s"
    with parsers_keep(3) [of x api pt db p data]
    show "returns (\<lambda>s'. visitedURL s' = visitedURL s) (getSeasonDetail api pt db p data x)" by simp
  qed
  then show ?thesis using GetSeasonList by (simp add: process_def)
qed (simp_all add: process_def parsers_keep)

lemma mark_url_keeps:
  "returns (\<lambda>(fresh, s'). fresh = (url \<notin> visitedURL s) \<and> visitedURL s' = insert url (visitedURL s)) (mark_url api url s)"
  unfolding mark_url_def exclusive_def
  by (rule returns_bind [OF returns_any]) (auto simp: set_cr_lock_def)

lemma unmark_url_keeps: "returns (\<lambda>(u, s'). visitedURL s' = visitedURL s - {url}) (unmark_url api url s)"
  unfolding unmark_url_def exclusive_def
  by (rule returns_bind [OF returns_any]) (auto simp: set_cr_lock_def)

lemma visited_delete_arg [simp]: "visitedURL (delete_arg p s) = visitedURL s"
  by (simp add: delete_arg_def)

text \<open>Up to the log this is the routine of the other crawler, so what is proved there holds here.\<close>

lemma cr_getData_is_getData:
  "bindR (cr_getData pt net arg limit s) (\<lambda>(r, s'). Inr (r, cr_socks s')) =
     getData (hostPattern pt) (chunkedPattern pt) (replacePattern pt) net (currentURL arg) limit (cr_socks s)"
  by (simp add: cr_getData_def getData_def cr_failed_def add_log_def cr_HTTPRequest_create_def cr_combineChunk_def Let_def
      bindR_assoc split: prod.split)

lemma visited_cr_failed [simp]: "visitedURL (cr_failed w xs s) = visitedURL s"
  by (simp add: cr_failed_def)

lemma cr_getData_keeps: "returns (\<lambda>(r, s'). visitedURL s' = visitedURL s) (cr_getData pt net arg limit s)"
  unfolding cr_getData_def Let_def by (auto split: prod.split intro!: returns_bind [OF returns_any])

lemma cr_run_visited:
  assumes "cr_args s p = Some arg"
  shows "returns (\<lambda>(ok, s'). visitedURL s \<subseteq> visitedURL s' \<and>
     (ok \<longrightarrow> currentURL arg \<notin> visitedURL s \<and> currentURL arg \<in> visitedURL s')) (cr_run api pt db net p s)"
proof -
  have proc: "returns (\<lambda>(ok, s'). V \<subseteq> visitedURL s' \<and> (ok \<longrightarrow> url \<in> visitedURL s'))
      (bindR (process api pt db p op' out t) (\<lambda>s. Inr (True, delete_arg p s)))"
    if "visitedURL t = insert url V" for V t url op' out
    by (rule returns_bind [OF process_keeps]) (use that in auto)
  have retry: "returns (\<lambda>(ok, s'). V \<subseteq> visitedURL s' \<and> (ok \<longrightarrow> url \<in> visitedURL s'))
      (bindR (unmark_url api url t) (\<lambda>(_, s). bindR (submitEvent api ''callback'' p (cr_disp s)) (\<lambda>(_, d).
         Inr (False, add_log f xs (add_log f' xs' (s\<lparr>cr_disp := d, cr_arrays := cr_arrays s - 1\<rparr>))))))"
    if "visitedURL t = insert url V" "url \<notin> V" for V t url f xs f' xs'
    by (rule returns_bind [OF unmark_url_keeps]) (use that in \<open>auto intro!: returns_bind [OF returns_any]\<close>)
  have arg: "returns (\<lambda>a. a = arg) (get_arg p s)" using assms by (simp add: get_arg_def)
  show ?thesis
    unfolding cr_run_def Let_def
    by (rule returns_bind [OF arg], rule returns_bind [OF mark_url_keeps]) (auto intro!: returns_bind [OF cr_getData_keeps] proc retry)
qed

context srw_laws
begin

lemma mark_url_eq:
  assumes "idle api (cr_lock s)"
  shows "mark_url api url s =
     Inr (if url \<in> visitedURL s then (False, s) else (True, s\<lparr>visitedURL := insert url (visitedURL s)\<rparr>))"
proof (cases "url \<in> visitedURL s")
  case True
  have "mark_url api url s = Inr (False, s)"
    unfolding mark_url_def using assms by (rule exclusive_eq) (use True in \<open>simp_all add: set_cr_lock_def\<close>)
  with True show ?thesis by simp
next
  case False
  have "mark_url api url s = Inr (True, s\<lparr>visitedURL := insert url (visitedURL s)\<rparr>)"
    unfolding mark_url_def using assms by (rule exclusive_eq) (use False in \<open>simp_all add: set_cr_lock_def\<close>)
  with False show ?thesis by simp
qed

end

section \<open>Properties\<close>

text \<open>
  Callbacks run one after another, on whatever arguments the workers took, with whatever the network
  does: the URLs whose response was processed, in this order.
\<close>

fun cr_runs ::
  "'l srw_api \<Rightarrow> patterns \<Rightarrow> (string \<Rightarrow> bool) \<Rightarrow> (net \<times> addr) list \<Rightarrow> 'l Indexer \<Rightarrow> (string list \<times> 'l Indexer) res" where
  "cr_runs api pt db [] s = Inr ([], s)"
| "cr_runs api pt db ((net, p) # xs) s =
     bindR (get_arg p s) (\<lambda>arg.
     bindR (cr_run api pt db net p s) (\<lambda>(ok, s).
     bindR (cr_runs api pt db xs s) (\<lambda>(urls, s). Inr ((if ok then [currentURL arg] else []) @ urls, s))))"

lemma cr_runs_visited:
  "returns (\<lambda>(urls, s'). distinct urls \<and> set urls \<inter> visitedURL s = {} \<and> visitedURL s \<union> set urls \<subseteq> visitedURL s')
     (cr_runs api pt db xs s)"
proof (induction xs arbitrary: s)
  case (Cons x xs)
  obtain net p where x: "x = (net, p)" by (cases x)
  show ?case
  proof (cases "cr_args s p")
    case None
    then show ?thesis by (simp add: x get_arg_def)
  next
    case (Some arg)
    have "returns (\<lambda>(urls, s'). distinct urls \<and> set urls \<inter> visitedURL s = {} \<and> visitedURL s \<union> set urls \<subseteq> visitedURL s')
        (bindR (cr_runs api pt db xs t) (\<lambda>(urls, s). Inr ((if ok then [currentURL arg] else []) @ urls, s)))"
      if "visitedURL s \<subseteq> visitedURL t \<and> (ok \<longrightarrow> currentURL arg \<notin> visitedURL s \<and> currentURL arg \<in> visitedURL t)" for ok t
      by (rule returns_bind [OF Cons.IH]) (use that in \<open>auto; blast\<close>)
    then show ?thesis
      using Some by (auto simp: x get_arg_def intro!: returns_bind [OF cr_run_visited [OF Some]])
  qed
qed simp

text \<open>
  C31. The crawler processes no page twice: in whatever order events are handled and however often
  fetches fail and are repeated, the URLs whose response is processed are pairwise different, none of
  them was visited before, and all of them are marked as visited.
\<close>

theorem crawler_fetches_at_most_once:
  assumes "cr_runs api pt db xs s = Inr (urls, s')"
  shows "distinct urls \<and> set urls \<inter> visitedURL s = {} \<and> visitedURL s \<union> set urls \<subseteq> visitedURL s'"
  using returnsD [OF cr_runs_visited assms] by simp

text \<open>Two events with the same URL.\<close>

definition no_patterns :: patterns where
  "no_patterns =
     \<lparr>bangumiIndexPattern = (\<lambda>_. None), seasonIndexPattern = (\<lambda>_. None), currentSeasonPattern = (\<lambda>_. None), episodeIndexPattern = (\<lambda>_. None),
      videoIDPattern = (\<lambda>_. None), videoDetailPattern = (\<lambda>_. None), seasonParsePattern = (\<lambda>_. None), hostPattern = (\<lambda>_. Some ''h''),
      chunkedPattern = (\<lambda>_. False), replacePattern = id\<rparr>"

definition two_events :: "srw_state Indexer" where
  "two_events =
     (let item = \<lparr>bangumiID = [], seasonID = [], episodeID = [], videoID = [], currentURL = ''http://h/'', operation = GetVideoID\<rparr> in
      \<lparr>visitedURL = {}, cr_lock = SRWLock_init srw_ref, cr_disp = fst (EventDispatcher_create srw_ref 1),
       cr_args = [1 \<mapsto> item, 2 \<mapsto> item], cr_next = 3, cr_arrays = 0, cr_socks = 0, cr_log = [], cr_sql = [], cr_ip = []\<rparr>)"

definition ok_net :: net where
  "ok_net = \<lparr>net_connect = True, net_send = (\<lambda>r. int (length r)), net_shutdown = True, net_recv = [''ok''], net_error = False\<rparr>"

lemma ok_net_get:
  "\<exists>out. cr_getData no_patterns ok_net arg cr_maxDataSize s = Inr ((2, out), s\<lparr>cr_socks := cr_socks s + 1\<rparr>) \<and>
     length out = cr_maxDataSize"
  by (auto simp: no_patterns_def ok_net_def cr_getData_def cr_combineChunk_def combineChunk_def cr_maxDataSize_def Let_def)

lemma two_events_run:
  "\<exists>s'. cr_runs srw_ref no_patterns (\<lambda>_. True) [(ok_net, 1), (ok_net, 2)] two_events = Inr ([''http://h/''], s')"
proof -
  let ?item = "\<lparr>bangumiID = [], seasonID = [], episodeID = [], videoID = [], currentURL = ''http://h/'', operation = GetVideoID\<rparr>"
  let ?u = "''http://h/''"
  have init: "cr_args two_events 1 = Some ?item" "cr_args two_events 2 = Some ?item" "idle srw_ref (cr_lock two_events)"
    "visitedURL two_events = {}" "cr_socks two_events = 0"
    by (simp_all add: two_events_def Let_def idle_def SRWLock_init_def)
  let ?s1 = "two_events\<lparr>visitedURL := {?u}, cr_arrays := cr_arrays two_events + 1\<rparr>"
  obtain out where g: "cr_getData no_patterns ok_net ?item cr_maxDataSize ?s1 = Inr ((2, out), ?s1\<lparr>cr_socks := cr_socks ?s1 + 1\<rparr>)"
    "length out = cr_maxDataSize" using ok_net_get [of ?item ?s1] by blast
  let ?s2 = "delete_arg 1 (add_log ''Log'' [[], [], [], ?u] (?s1\<lparr>cr_socks := 1\<rparr>))"
  have "mark_url srw_ref ?u two_events = Inr (True, two_events\<lparr>visitedURL := {?u}\<rparr>)"
    using srw_ref.mark_url_eq [OF init(3), of ?u] init(4) by simp
  then have r1: "cr_run srw_ref no_patterns (\<lambda>_. True) ok_net 1 two_events = Inr (True, ?s2)"
    using init g by (simp add: cr_run_def get_arg_def Let_def process_def getVideoID_def cr_maxDataSize_def)
      (simp add: no_patterns_def add_log_def)
  have s2: "cr_args ?s2 2 = Some ?item" "idle srw_ref (cr_lock ?s2)" "visitedURL ?s2 = {?u}"
    using init by (simp_all add: delete_arg_def add_log_def)
  have "mark_url srw_ref ?u ?s2 = Inr (False, ?s2)" using srw_ref.mark_url_eq [OF s2(2), of ?u] s2(3) by simp
  then have r2: "cr_run srw_ref no_patterns (\<lambda>_. True) ok_net 2 ?s2 = Inr (False, ?s2)"
    using s2(1) by (simp add: cr_run_def get_arg_def)
  show ?thesis using init(1) r1 r2 s2(1) by (simp add: get_arg_def)
qed

lemma crawler_fetches_at_most_once_witness:
  "\<exists>s'. cr_runs srw_ref no_patterns (\<lambda>_. True) [(ok_net, 1), (ok_net, 2)] two_events = Inr ([''http://h/''], s') \<and>
     ''http://h/'' \<in> visitedURL s'"
  using two_events_run crawler_fetches_at_most_once [of srw_ref no_patterns "\<lambda>_. True" "[(ok_net, 1), (ok_net, 2)]" two_events] by fastforce

end
