(* ===== verification/Crawler_Mains.thy ===== *)
theory Crawler_Mains
  imports Crawler3 Crawler Sysutil
begin

text \<open>
  The programs around the two crawlers: \<^verbatim>\<open>main\<close> with the endless loop at the end of \<^verbatim>\<open>deployIndexer\<close>,
  during whose sleep the dispatcher's threads work. Since the loops never end, the socket library is
  never unloaded.
\<close>

section \<open>Indexer3\<close>

text \<open>
  Turns of the loop that flushes the log and writes the number of waiting events; the list says how
  many events the threads handle in each turn's sleep. The result has the URLs that were fetched and
  the numbers that were written.
\<close>

fun log_turns ::
  "'l srw_api \<Rightarrow> fetcher \<Rightarrow> (nat \<Rightarrow> net) \<Rightarrow> nat list \<Rightarrow> 'l Indexer3 \<Rightarrow> ((string list \<times> nat list) \<times> 'l Indexer3) res" where
  "log_turns api f nets [] s = Inr (([], []), s)"
| "log_turns api f nets (m # ms) s =
     (let n = ed_getEventCount (ix_disp s) in
      bindR (crawl m api f nets s) (\<lambda>(urls, s).
      bindR (log_turns api f nets ms s) (\<lambda>((urls', ns), s). Inr ((urls @ urls', n # ns), s))))"

text \<open>\<^verbatim>\<open>main\<close> up to the given turns; \<open>startup\<close> is what \<^verbatim>\<open>WSAStartup\<close> gives, and is not looked at.\<close>

definition crawler3_main ::
  "'l srw_api \<Rightarrow> fetcher \<Rightarrow> (nat \<Rightarrow> net) \<Rightarrow> (nat \<times> nat) option \<Rightarrow> addr \<Rightarrow> nat list \<Rightarrow> ((string list \<times> nat list) \<times> 'l Indexer3) res" where
  "crawler3_main api f nets startup callback ms =
     (case SocketLibrary_load startup 0 of (_, _) \<Rightarrow>
      bindR (deployIndexer3 api callback 1 20 8) (log_turns api f nets ms))"

section \<open>Indexer2\<close>

text \<open>\<^verbatim>\<open>main\<close> up to the loop that only sleeps.\<close>

definition crawler2_main ::
  "'l srw_api \<Rightarrow> (nat \<times> nat) option \<Rightarrow> string list \<Rightarrow> bool \<Rightarrow> addr \<Rightarrow> 'l Indexer res" where
  "crawler2_main api startup ips db_open callback =
     (case SocketLibrary_load startup 0 of (_, _) \<Rightarrow> deployIndexer api ips db_open callback)"

section \<open>How far the crawl is\<close>

context srw_laws
begin

lemma crawling_count:
  assumes "crawling api k ps s" and "ix_currentID s = min (ix_endID s) (k + t)" and "k \<le> ix_endID s"
  shows "ed_getEventCount (ix_disp s) = nat (min t (ix_endID s - k))"
proof -
  have "length ps = length [k + 1..ix_currentID s]"
    using assms(1) map_eq_imp_length_eq unfolding crawling_def by blast
  moreover have "ed_getEventCount (ix_disp s) = length ps" using assms(1) by (simp add: crawling_def ed_getEventCount_def)
  ultimately show ?thesis using assms(2,3) by (cases "k + t \<le> ix_endID s") auto
qed

lemma crawl_some:
  assumes "crawling api k ps s" and "\<And>i. good_net f (nets i)" and "0 < t" and "k \<le> ix_endID s"
    and "ix_currentID s = min (ix_endID s) (k + t)"
  shows "\<exists>s' ps'. crawl m api f nets s = Inr (map aid_url [k + 1..min (ix_endID s) (k + int m)], s') \<and>
     crawling api (min (ix_endID s) (k + int m)) ps' s' \<and> ix_endID s' = ix_endID s \<and>
     ix_currentID s' = min (ix_endID s) (min (ix_endID s) (k + int m) + t)"
  using assms(1,4,5)
proof (induction m arbitrary: k ps s)
  case 0
  then show ?case by auto
next
  case (Suc m)
  let ?e = "ix_endID s"
  have len: "map (ix_args s) ps = map (Some \<circ> aid_url) [k + 1..ix_currentID s]"
    "ed_eventList (ix_disp s) = map (Pair ''func'') ps"
    using Suc.prems(1) by (simp_all add: crawling_def)
  show ?case
  proof (cases "k < ?e")
    case False
    then have "ix_currentID s = k" "k = ?e" using Suc.prems(2,3) assms(3) by auto
    moreover from this(1) len have "ps = []" by simp
    moreover have "min ?e (k + int (Suc m)) = k" using \<open>k = ?e\<close> by simp
    ultimately have "crawl (Suc m) api f nets s = Inr ([], s)" "crawling api (min ?e (k + int (Suc m))) [] s"
      "[k + 1..min ?e (k + int (Suc m))] = []" "ix_currentID s = min ?e (min ?e (k + int (Suc m)) + t)"
      using Suc.prems(1) len(2) \<open>k = ?e\<close> assms(3) by simp_all
    then show ?thesis by (intro exI [of _ s] exI [of _ "[] :: nat list"]) simp
  next
    case True
    then have up: "[k + 1..ix_currentID s] = (k + 1) # [k + 1 + 1..ix_currentID s]"
      using Suc.prems(3) assms(3) by (intro upto_rec1) auto
    with len(1) obtain p qs where ps: "ps = p # qs" "ix_args s p = Some (aid_url (k + 1))" by (cases ps) auto
    obtain s1 ps1 where s1: "run3 api f (nets m) p (s\<lparr>ix_disp := (ix_disp s)\<lparr>ed_eventList := map (Pair ''func'') qs\<rparr>\<rparr>) = Inr s1"
      "crawling api (k + 1) ps1 s1" "ix_endID s1 = ?e"
      "ix_currentID s1 = (if ix_currentID s < ?e then ix_currentID s + 1 else ix_currentID s)"
      using crawling_step [OF Suc.prems(1) [unfolded ps(1)] assms(2) True] by blast
    have c1: "k + 1 \<le> ix_endID s1" "ix_currentID s1 = min (ix_endID s1) (k + 1 + t)"
      using True Suc.prems(3) s1(3,4) by (auto simp: min_def)
    obtain s2 ps2 where s2: "crawl m api f nets s1 = Inr (map aid_url [k + 1 + 1..min ?e (k + 1 + int m)], s2)"
      "crawling api (min ?e (k + 1 + int m)) ps2 s2" "ix_endID s2 = ?e"
      "ix_currentID s2 = min ?e (min ?e (k + 1 + int m) + t)"
      using Suc.IH [OF s1(2) c1] s1(3) by auto
    have "[k + 1..min ?e (k + 1 + int m)] = (k + 1) # [k + 1 + 1..min ?e (k + 1 + int m)]"
      using True by (intro upto_rec1) simp
    then have "crawl (Suc m) api f nets s = Inr (map aid_url [k + 1..min ?e (k + 1 + int m)], s2)"
      using s1(1) s2(1) ps len(2) by simp
    moreover have "k + int (Suc m) = k + 1 + int m" by simp
    ultimately show ?thesis using s2(2-4) by (simp only:) blast
  qed
qed

lemma log_turns_progress:
  assumes "crawling api k ps s" and "\<And>i. good_net f (nets i)" and "0 < t" and "k \<le> ix_endID s"
    and "ix_currentID s = min (ix_endID s) (k + t)"
  shows "\<exists>ns s'. log_turns api f nets ms s = Inr ((map aid_url [k + 1..min (ix_endID s) (k + int (sum_list ms))], ns), s') \<and>
     ns = map (\<lambda>i. nat (min t (ix_endID s - min (ix_endID s) (k + int (sum_list (take i ms)))))) [0..<length ms]"
  using assms(1,4,5)
proof (induction ms arbitrary: k ps s)
  case Nil
  then show ?case by simp
next
  case (Cons m ms)
  let ?e = "ix_endID s" and ?k = "min (ix_endID s) (k + int m)"
  obtain s1 ps1 where s1: "crawl m api f nets s = Inr (map aid_url [k + 1..?k], s1)" "crawling api ?k ps1 s1"
    "ix_endID s1 = ?e" "ix_currentID s1 = min ?e (?k + t)"
    using crawl_some [where nets = nets and m = m, OF Cons.prems(1) assms(2,3) Cons.prems(2,3)] by blast
  obtain ns s2 where s2: "log_turns api f nets ms s1 = Inr ((map aid_url [?k + 1..min ?e (?k + int (sum_list ms))], ns), s2)"
    "ns = map (\<lambda>i. nat (min t (?e - min ?e (?k + int (sum_list (take i ms)))))) [0..<length ms]"
    using Cons.IH [OF s1(2)] s1(3,4) by auto
  have k: "min ?e (?k + j) = min ?e (k + int m + j)" if "0 \<le> j" for j using that by (simp add: min_def)
  have "[k + 1..?k] @ [?k + 1..min ?e (k + int m + int (sum_list ms))] = [k + 1..min ?e (k + int m + int (sum_list ms))]"
  proof (cases "m = 0")
    case False
    then show ?thesis
      using Cons.prems(2) upto_split2 [of "k + 1" ?k "min ?e (k + int m + int (sum_list ms))"] by (cases "k = ?e") auto
  qed (use Cons.prems(2) in simp)
  then have "map aid_url [k + 1..?k] @ map aid_url [?k + 1..min ?e (?k + int (sum_list ms))] =
      map aid_url [k + 1..min ?e (k + int (sum_list (m # ms)))]"
    using k [of "int (sum_list ms)"] by (simp add: add.assoc flip: map_append)
  moreover have "ns = map (\<lambda>i. nat (min t (?e - min ?e (k + int (sum_list (take i (m # ms))))))) [1..<Suc (length ms)]"
    unfolding s2(2) by (simp add: k map_Suc_upt [symmetric] add.assoc comp_def del: upt_Suc)
  ultimately show ?case
    using s1(1) s2(1) crawling_count [OF Cons.prems(1,3,2)] Cons.prems(2)
    by (simp add: Let_def upt_conv_Cons del: upt_Suc)
qed

end

section \<open>Properties\<close>




end
