(* ===== verification/Pool_Demo.thy ===== *)
theory Pool_Demo
  imports Prelude
begin

text \<open>
  The demonstration program \<^verbatim>\<open>ThreadPoolTest/threadPool.cpp\<close>: objects of the system are created one
  after another, and when one cannot be created the program jumps to a clean-up that releases, by a
  number called \<^verbatim>\<open>rollback\<close>, what exists by then. What the system answers is an argument; a run
  is the list of calls it makes (printing and sleeping are left out).
\<close>

section \<open>The program\<close>

datatype demo_call =
    InitializeThreadpoolEnvironment
  | CreatePool bool
  | SetMaximum nat
  | SetMinimum nat bool
  | CreateGroup bool
  | SetCallbackPool
  | SetCallbackCleanupGroup
  | CreateWork bool
  | SubmitWork
  | CreateTimer bool
  | SetTimer "64 word"
  | CloseGroupMembers
  | CloseGroup
  | ClosePool
  | CreateEventObj bool
  | CreateWait bool
  | SetWait bool
  | SetEventObj
  | WaitForCallbacks
  | CloseWait
  | CloseEventObj

text \<open>The switch at \<^verbatim>\<open>main_cleanup\<close>: its cases fall through.\<close>

definition main_cleanup :: "nat \<Rightarrow> demo_call list" where
  "main_cleanup rollback =
     (if rollback \<in> {3, 4} then [CloseGroupMembers] else []) @
     (if rollback \<in> {2, 3, 4} then [CloseGroup] else []) @
     (if rollback \<in> {1, 2, 3, 4} then [ClosePool] else [])"

definition DemoCleanupPersistentWorkTimer :: "bool \<Rightarrow> bool \<Rightarrow> bool \<Rightarrow> bool \<Rightarrow> bool \<Rightarrow> demo_call list" where
  "DemoCleanupPersistentWorkTimer pool minimum group' work timer =
     (let c = [InitializeThreadpoolEnvironment, CreatePool pool] in
      if \<not> pool then c @ main_cleanup 0
      else let c = c @ [SetMaximum 1, SetMinimum 1 minimum] in
      if \<not> minimum then c @ main_cleanup 1
      else let c = c @ [CreateGroup group'] in
      if \<not> group' then c @ main_cleanup 1
      else let c = c @ [SetCallbackPool, SetCallbackCleanupGroup, CreateWork work] in
      if \<not> work then c @ main_cleanup 2
      else let c = c @ [SubmitWork, CreateTimer timer] in
      if \<not> timer then c @ main_cleanup 3
      else c @ [SetTimer (- (1 * 10 * 1000 * 1000)), CloseGroupMembers] @ main_cleanup 2)"

definition new_wait_cleanup :: "nat \<Rightarrow> demo_call list" where
  "new_wait_cleanup rollback =
     (if rollback = 2 then [SetWait False, CloseWait] else []) @
     (if rollback \<in> {1, 2} then [CloseEventObj] else [])"

definition DemoNewRegisterWait :: "bool \<Rightarrow> bool \<Rightarrow> demo_call list" where
  "DemoNewRegisterWait event wait =
     (let c = [CreateEventObj event] in
      if \<not> event then c
      else let c = c @ [CreateWait wait] in
      if \<not> wait then c @ new_wait_cleanup 1
      else c @ concat (map (\<lambda>i. [SetWait True, SetEventObj, WaitForCallbacks]) [0..<5]) @ new_wait_cleanup 2)"

definition demo_main :: "bool \<Rightarrow> bool \<Rightarrow> demo_call list" where
  "demo_main event wait = DemoNewRegisterWait event wait"

section \<open>What the system allows\<close>

text \<open>
  The objects that exist: a pool, a cleanup group, the work and timer objects that are members of the
  group, an event and a wait object, whether the wait object is registered on the event. A call is
  allowed only on what exists; a group is closed when it has no members, the pool after the group.
\<close>

record objects =
  o_pool :: bool
  o_group :: bool
  o_work :: bool
  o_timer :: bool
  o_event :: bool
  o_wait :: bool
  o_registered :: bool

definition no_objects :: objects where
  "no_objects = \<lparr>o_pool = False, o_group = False, o_work = False, o_timer = False, o_event = False, o_wait = False,
     o_registered = False\<rparr>"

fun allowed :: "demo_call \<Rightarrow> objects \<Rightarrow> objects option" where
  "allowed InitializeThreadpoolEnvironment s = Some s"
| "allowed (CreatePool ok) s = (if o_pool s then None else Some (s\<lparr>o_pool := ok\<rparr>))"
| "allowed (SetMaximum n) s = (if o_pool s then Some s else None)"
| "allowed (SetMinimum n ok) s = (if o_pool s then Some s else None)"
| "allowed (CreateGroup ok) s = (if o_group s then None else Some (s\<lparr>o_group := ok\<rparr>))"
| "allowed SetCallbackPool s = (if o_pool s then Some s else None)"
| "allowed SetCallbackCleanupGroup s = (if o_group s then Some s else None)"
| "allowed (CreateWork ok) s = (if o_group s \<and> o_pool s \<and> \<not> o_work s then Some (s\<lparr>o_work := ok\<rparr>) else None)"
| "allowed SubmitWork s = (if o_work s then Some s else None)"
| "allowed (CreateTimer ok) s = (if o_group s \<and> o_pool s \<and> \<not> o_timer s then Some (s\<lparr>o_timer := ok\<rparr>) else None)"
| "allowed (SetTimer due) s = (if o_timer s then Some s else None)"
| "allowed CloseGroupMembers s = (if o_group s then Some (s\<lparr>o_work := False, o_timer := False\<rparr>) else None)"
| "allowed CloseGroup s = (if o_group s \<and> \<not> o_work s \<and> \<not> o_timer s then Some (s\<lparr>o_group := False\<rparr>) else None)"
| "allowed ClosePool s = (if o_pool s \<and> \<not> o_group s then Some (s\<lparr>o_pool := False\<rparr>) else None)"
| "allowed (CreateEventObj ok) s = (if o_event s then None else Some (s\<lparr>o_event := ok\<rparr>))"
| "allowed (CreateWait ok) s = (if o_wait s then None else Some (s\<lparr>o_wait := ok\<rparr>))"
| "allowed (SetWait on) s = (if o_wait s \<and> (on \<longrightarrow> o_event s) then Some (s\<lparr>o_registered := on\<rparr>) else None)"
| "allowed SetEventObj s = (if o_event s then Some s else None)"
| "allowed WaitForCallbacks s = (if o_wait s then Some s else None)"
| "allowed CloseWait s = (if o_wait s \<and> \<not> o_registered s then Some (s\<lparr>o_wait := False\<rparr>) else None)"
| "allowed CloseEventObj s = (if o_event s \<and> \<not> o_registered s then Some (s\<lparr>o_event := False\<rparr>) else None)"

fun allowed_all :: "demo_call list \<Rightarrow> objects \<Rightarrow> objects option" where
  "allowed_all [] s = Some s"
| "allowed_all (c # cs) s = (case allowed c s of None \<Rightarrow> None | Some s \<Rightarrow> allowed_all cs s)"

section \<open>Properties\<close>

text \<open>
  Whatever the system answers, each call the two demonstrations make is allowed at its place, and in
  the end no object is left: every object that was created was released exactly once, after the
  objects that depend on it.
\<close>

theorem demos_release_everything:
  "allowed_all (DemoCleanupPersistentWorkTimer pool minimum group' work timer) no_objects = Some no_objects \<and>
   allowed_all (DemoNewRegisterWait event wait) no_objects = Some no_objects"
proof
  show "allowed_all (DemoCleanupPersistentWorkTimer pool minimum group' work timer) no_objects = Some no_objects"
    by (cases pool; cases minimum; cases group'; cases work; cases timer;
        simp add: DemoCleanupPersistentWorkTimer_def main_cleanup_def no_objects_def)
  show "allowed_all (DemoNewRegisterWait event wait) no_objects = Some no_objects"
    by (cases event; cases wait; simp add: DemoNewRegisterWait_def new_wait_cleanup_def no_objects_def upt_rec)
qed

end
