(* ===== verification/Svrutil_Parts.thy ===== *)
theory Svrutil_Parts
  imports Complex_Main Prelude
begin

text \<open>
  Three small classes of \<^verbatim>\<open>svrutil.h\<close>: \<^verbatim>\<open>Timer\<close>, \<^verbatim>\<open>RegexEx\<close> and the connection of
  \<^verbatim>\<open>SQLServerADO\<close>. The performance counter, the regular expressions, COM and the arithmetic of
  floating-point numbers are parameters.
\<close>

section \<open>Timer\<close>

definition TIMER_MODULE_ERROR :: int where
  "TIMER_MODULE_ERROR = 502"

text \<open>\<open>tm_time\<close> has no value before the first \<^verbatim>\<open>start\<close> or \<^verbatim>\<open>record\<close>.\<close>

record Timer =
  tm_freq :: int
  tm_time :: "int option"

text \<open>The arguments \<open>frequency\<close> and \<open>now\<close> are what the system's counter gives, \<open>None\<close> if it fails.\<close>

definition Timer_create :: "int option \<Rightarrow> Timer res" where
  "Timer_create frequency =
     (case frequency of None \<Rightarrow> Inl (ExitProcess TIMER_MODULE_ERROR) | Some f \<Rightarrow> Inr \<lparr>tm_freq = f, tm_time = None\<rparr>)"

definition Timer_start :: "int option \<Rightarrow> Timer \<Rightarrow> Timer res" where
  "Timer_start now tm =
     (case now of None \<Rightarrow> Inl (ExitProcess TIMER_MODULE_ERROR) | Some t \<Rightarrow> Inr (tm\<lparr>tm_time := Some t\<rparr>))"

definition Timer_record :: "int option \<Rightarrow> Timer \<Rightarrow> Timer res" where
  "Timer_record now tm =
     (case now of None \<Rightarrow> Inl (ExitProcess TIMER_MODULE_ERROR) | Some t \<Rightarrow> Inr (tm\<lparr>tm_time := Some t\<rparr>))"

text \<open>
  The dividend \<^verbatim>\<open>(large_interger - time) * 1000\<close> in 64 bits; \<open>fdiv x f\<close> is the quotient of the two
  converted to floating point.
\<close>

definition elapsed :: "int \<Rightarrow> int \<Rightarrow> int" where
  "elapsed now time = signed_take_bit 63 ((now - time) * 1000)"

definition stopInDouble :: "(int \<Rightarrow> int \<Rightarrow> 'd) \<Rightarrow> int option \<Rightarrow> Timer \<Rightarrow> ('d \<times> Timer) res" where
  "stopInDouble fdiv now tm =
     (case now of
        None \<Rightarrow> Inl (ExitProcess TIMER_MODULE_ERROR)
      | Some t \<Rightarrow>
          (case tm_time tm of
             None \<Rightarrow> Inl Uninitialised
           | Some t0 \<Rightarrow> Inr (fdiv (elapsed t t0) (tm_freq tm), tm)))"

text \<open>\<open>trunc\<close> is the conversion to \<^verbatim>\<open>unsigned long long\<close>.\<close>

definition Timer_stop :: "(int \<Rightarrow> int \<Rightarrow> 'd) \<Rightarrow> ('d \<Rightarrow> int) \<Rightarrow> int option \<Rightarrow> Timer \<Rightarrow> (int \<times> Timer) res" where
  "Timer_stop fdiv trunc now tm =
     (case now of
        None \<Rightarrow> Inl (ExitProcess TIMER_MODULE_ERROR)
      | Some t \<Rightarrow>
          (case tm_time tm of
             None \<Rightarrow> Inl Uninitialised
           | Some t0 \<Rightarrow> Inr (trunc (fdiv (elapsed t t0) (tm_freq tm)), tm)))"

definition getInterval :: "(int \<Rightarrow> int \<Rightarrow> 'd) \<Rightarrow> ('d \<Rightarrow> int) \<Rightarrow> int option \<Rightarrow> Timer \<Rightarrow> (int \<times> Timer) res" where
  "getInterval fdiv trunc now tm =
     (case now of
        None \<Rightarrow> Inl (ExitProcess TIMER_MODULE_ERROR)
      | Some t \<Rightarrow>
          (case tm_time tm of
             None \<Rightarrow> Inl Uninitialised
           | Some t0 \<Rightarrow> Inr (trunc (fdiv (elapsed t t0) (tm_freq tm)), tm)))"

text \<open>
  The law of the double arithmetic: for integers below \<open>2 ^ 53\<close>, which are represented exactly, the
  truncated quotient is that of the integers.
\<close>

locale double_division =
  fixes fdiv :: "int \<Rightarrow> int \<Rightarrow> 'd" and trunc :: "'d \<Rightarrow> int"
  assumes exact: "0 \<le> x \<Longrightarrow> x < 2 ^ 53 \<Longrightarrow> 0 < f \<Longrightarrow> f < 2 ^ 53 \<Longrightarrow> trunc (fdiv x f) = x div f"
begin

lemma interval_exact:
  assumes "t0 \<le> t" and "(t - t0) * 1000 < 2 ^ 53" and "0 < tm_freq tm" and "tm_freq tm < 2 ^ 53" and "tm_time tm = Some t0"
  shows "getInterval fdiv trunc (Some t) tm = Inr ((t - t0) * 1000 div tm_freq tm, tm)"
    and "Timer_stop fdiv trunc (Some t) tm = Inr ((t - t0) * 1000 div tm_freq tm, tm)"
proof -
  have "elapsed t t0 = (t - t0) * 1000" using assms(1,2) by (simp add: elapsed_def signed_take_bit_int_eq_self)
  then show "getInterval fdiv trunc (Some t) tm = Inr ((t - t0) * 1000 div tm_freq tm, tm)"
    "Timer_stop fdiv trunc (Some t) tm = Inr ((t - t0) * 1000 div tm_freq tm, tm)"
    using assms exact by (simp_all add: getInterval_def Timer_stop_def)
qed

end

text \<open>Rational numbers satisfy it.\<close>

interpretation rational: double_division "\<lambda>x f. rat_of_int x / rat_of_int f" floor
  by unfold_locales (rule floor_divide_of_int_eq)

section \<open>RegexEx\<close>

text \<open>
  \<open>matches pattern data\<close> are the matches of a regular expression from left to right, \<open>None\<close> if the
  pattern is not one and \<^verbatim>\<open>std::regex\<close> throws. \<open>pList\<close> is the list behind the pointer.
\<close>

datatype regex_error = Regex_error

definition RegexEx_getList ::
  "(string \<Rightarrow> string \<Rightarrow> string list option) \<Rightarrow> string \<Rightarrow> string \<Rightarrow> string list option \<Rightarrow> regex_error + bool \<times> string list option" where
  "RegexEx_getList matches data pattern pList =
     (case pList of
        None \<Rightarrow> Inr (False, None)
      | Some l \<Rightarrow>
          (case matches pattern data of
             None \<Rightarrow> Inl Regex_error
           | Some ms \<Rightarrow> Inr (True, Some (l @ ms))))"

section \<open>The connection of SQLServerADO\<close>

text \<open>The smart pointer: null, a connection that is not open, an open one.\<close>

datatype ado_connection = NoConnection | ClosedConnection | OpenConnection

datatype com_result = Succeeded | Failed | Raised

text \<open>The exit code of a program that is aborted.\<close>

definition ABORT :: int where
  "ABORT = 3"

text \<open>The constructor; \<^verbatim>\<open>assert\<close> looks at the result of \<^verbatim>\<open>CoInitialize\<close> in a debug build only.\<close>

definition SQLServerADO_create :: "bool \<Rightarrow> bool \<Rightarrow> ado_connection res" where
  "SQLServerADO_create ndebug coInitialize =
     (if \<not> ndebug \<and> \<not> coInitialize then Inl (ExitProcess ABORT) else Inr NoConnection)"

text \<open>
  \<^verbatim>\<open>init\<close>: \<open>created\<close> says whether the instance could be created (what the pointer held before is
  released), \<open>timeout\<close> whether setting the timeout raises, \<open>opened\<close> what \<^verbatim>\<open>Open\<close> gives.
\<close>

definition SQLServerADO_init :: "com_result \<Rightarrow> com_result \<Rightarrow> com_result \<Rightarrow> ado_connection \<Rightarrow> bool \<times> ado_connection" where
  "SQLServerADO_init created timeout opened p =
     (case created of
        Succeeded \<Rightarrow>
          if timeout = Raised then (False, ClosedConnection)
          else (case opened of
                  Succeeded \<Rightarrow> (True, OpenConnection)
                | Failed \<Rightarrow> (False, ClosedConnection)
                | Raised \<Rightarrow> (False, ClosedConnection))
      | Failed \<Rightarrow> (False, NoConnection)
      | Raised \<Rightarrow> (False, NoConnection))"

text \<open>
  The destructor closes a connection that is there; \<open>close\<close> says of a connection whether \<^verbatim>\<open>Close\<close>
  returns. An error that leaves a destructor ends the program.
\<close>

definition SQLServerADO_destroy :: "(ado_connection \<Rightarrow> bool) \<Rightarrow> ado_connection \<Rightarrow> unit res" where
  "SQLServerADO_destroy close p =
     (if p \<noteq> NoConnection then if close p then Inr () else Inl (ExitProcess ABORT) else Inr ())"

text \<open>The documented behaviour of \<^verbatim>\<open>Close\<close>: an open connection is closed, a closed one raises an error.\<close>

locale ado_laws =
  fixes close :: "ado_connection \<Rightarrow> bool"
  assumes close_open: "close OpenConnection" and close_closed: "\<not> close ClosedConnection"
begin

lemma destroy_result: "SQLServerADO_destroy close p = (if p = ClosedConnection then Inl (ExitProcess ABORT) else Inr ())"
  using close_open close_closed by (cases p) (simp_all add: SQLServerADO_destroy_def)

end

interpretation open_only: ado_laws "\<lambda>p. p = OpenConnection"
  by unfold_locales simp_all

section \<open>Properties\<close>

text \<open>
  A started timer measures: as long as less than \<open>2 ^ 53\<close> thousandths of ticks have passed,
  \<^verbatim>\<open>getInterval\<close> and \<^verbatim>\<open>stop\<close> give the whole milliseconds since the start, later readings are not
  smaller, and neither changes the timer, so \<^verbatim>\<open>stop\<close> does not stop it. A timer that was not
  started is read uninitialised.
\<close>

theorem timer_measures:
  assumes "double_division fdiv trunc" and "Timer_create (Some f) = Inr tm0" and "0 < f" and "f < 2 ^ 53"
    and "t0 \<le> t1" and "t1 \<le> t2" and "(t2 - t0) * 1000 < 2 ^ 53"
  shows "\<exists>tm m1 m2. Timer_start (Some t0) tm0 = Inr tm \<and> Timer_record (Some t0) tm0 = Inr tm \<and>
     Timer_stop fdiv trunc (Some t1) tm = Inr (m1, tm) \<and> getInterval fdiv trunc (Some t2) tm = Inr (m2, tm) \<and>
     m1 = (t1 - t0) * 1000 div f \<and> m2 = (t2 - t0) * 1000 div f \<and> 0 \<le> m1 \<and> m1 \<le> m2 \<and>
     getInterval fdiv trunc (Some t1) tm0 = Inl Uninitialised"
proof -
  let ?tm = "\<lparr>tm_freq = f, tm_time = Some t0\<rparr>"
  have tm0: "tm0 = \<lparr>tm_freq = f, tm_time = None\<rparr>" using assms(2) by (simp add: Timer_create_def)
  note I = double_division.interval_exact [OF assms(1), of t0 _ ?tm]
  have "(t1 - t0) * 1000 < 2 ^ 53" "(t1 - t0) * 1000 div f \<le> (t2 - t0) * 1000 div f"
    using assms(3,6,7) by (simp_all add: zdiv_mono1)
  moreover have "0 \<le> (t1 - t0) * 1000 div f" using assms(3,5) by (simp add: pos_imp_zdiv_nonneg_iff)
  ultimately show ?thesis
    using I(1) [of t2] I(2) [of t1] assms(3-7)
    by (simp add: tm0 Timer_start_def Timer_record_def getInterval_def [of fdiv trunc _ "\<lparr>tm_freq = f, tm_time = None\<rparr>"])
qed

lemma timer_measures_witness:
  "\<exists>tm. Timer_start (Some 500) \<lparr>tm_freq = 10000000, tm_time = None\<rparr> = Inr tm \<and>
     Timer_stop (\<lambda>x f. rat_of_int x / rat_of_int f) floor (Some 30000500) tm = Inr (3000, tm)"
  using timer_measures [OF rational.double_division_axioms, of 10000000 "\<lparr>tm_freq = 10000000, tm_time = None\<rparr>" 500 30000500 30000500]
  by (auto simp: Timer_create_def)

text \<open>
  C40. A connection to the database that was created but could not be opened ends the program: \<^verbatim>\<open>init\<close>
  answers false, and the destructor then closes a connection that is not open, whose error leaves the
  destructor. After every other outcome the object can be destroyed.
\<close>

theorem ado_failed_open_aborts:
  assumes "ado_laws close" and "SQLServerADO_create ndebug True = Inr p0"
    and "SQLServerADO_init created timeout opened p0 = (ok, p)"
  shows "(ok \<longleftrightarrow> p = OpenConnection) \<and>
     SQLServerADO_destroy close p =
       (if created = Succeeded \<and> (timeout = Raised \<or> opened \<noteq> Succeeded) then Inl (ExitProcess ABORT) else Inr ())"
proof -
  have "SQLServerADO_destroy close p = (if p = ClosedConnection then Inl (ExitProcess ABORT) else Inr ())"
    by (rule ado_laws.destroy_result [OF assms(1)])
  moreover have "p = ClosedConnection \<longleftrightarrow> created = Succeeded \<and> (timeout = Raised \<or> opened \<noteq> Succeeded)"
    "ok \<longleftrightarrow> p = OpenConnection"
    using assms(3) by (auto simp: SQLServerADO_init_def split: com_result.splits if_splits)
  ultimately show ?thesis by simp
qed

lemma ado_failed_open_aborts_witness:
  "SQLServerADO_init Succeeded Succeeded Raised NoConnection = (False, ClosedConnection) \<and>
   SQLServerADO_destroy (\<lambda>p. p = OpenConnection) ClosedConnection = Inl (ExitProcess 3)"
  using ado_failed_open_aborts [OF open_only.ado_laws_axioms, of True NoConnection Succeeded Succeeded Raised False ClosedConnection]
  by (simp add: SQLServerADO_create_def SQLServerADO_init_def ABORT_def)

end
