(* ===== verification/Cluster_Echo.thy ===== *)
theory Cluster_Echo
  imports Prelude
begin

text \<open>
  The program \<^verbatim>\<open>Cluster\<close>: a server on libevent that prints what a client sends and answers with a
  greeting. libevent is a parameter; \<open>'b\<close> stands for its bufferevents.
\<close>

section \<open>The library\<close>

text \<open>
  \<open>be_read b n\<close> takes at most \<open>n\<close> bytes out of the input, \<open>be_write\<close> appends to the output,
  \<open>be_pending\<close> is the length of the output that was not sent yet.
\<close>

record 'b libevent =
  be_read :: "'b \<Rightarrow> nat \<Rightarrow> string \<times> 'b"
  be_write :: "'b \<Rightarrow> string \<Rightarrow> 'b"
  be_pending :: "'b \<Rightarrow> nat"

text \<open>
  What the documentation promises: a read gives at most the number of bytes asked for and leaves
  the output alone, a write adds its bytes to the output.
\<close>

locale libevent_laws =
  fixes ev :: "'b libevent"
  assumes read_length: "length (fst (be_read ev b n)) \<le> n"
    and read_output: "be_pending ev (snd (be_read ev b n)) = be_pending ev b"
    and write_output: "be_pending ev (be_write ev b d) = be_pending ev b + length d"

section \<open>Callbacks\<close>

definition MESSAGE :: string where
  "MESSAGE = ''Hello, World!'' @ [CHR 0x0A]"

definition PORT :: int where
  "PORT = 6001"

text \<open>What \<^verbatim>\<open>puts\<close> prints of an array: the characters up to the first 0; without one it reads on.\<close>

definition c_string :: "string \<Rightarrow> string res" where
  "c_string arr = (if CHR 0x00 \<in> set arr then Inr (takeWhile (\<lambda>c. c \<noteq> CHR 0x00) arr) else Inl OutOfBounds)"

text \<open>The result has what is printed.\<close>

definition conn_readcb :: "'b libevent \<Rightarrow> 'b \<Rightarrow> (string \<times> 'b) res" where
  "conn_readcb ev bev =
     (case be_read ev bev 256 of (d, bev) \<Rightarrow>
      bindR (c_string (d @ replicate (256 - length d) (CHR 0x00))) (\<lambda>printed.
      Inr (printed, be_write ev bev MESSAGE)))"

text \<open>\<open>None\<close>: the connection was freed.\<close>

definition conn_writecb :: "'b libevent \<Rightarrow> 'b \<Rightarrow> string \<times> 'b option" where
  "conn_writecb ev bev =
     (if be_pending ev bev = 0 then (''flushed answer'', None) else (''xxxx'', Some bev))"

definition conn_eventcb :: "bool \<Rightarrow> bool \<Rightarrow> 'b \<Rightarrow> string \<times> 'b option" where
  "conn_eventcb eof err bev =
     (if eof then ''Connection closed.'' else if err then ''Got an error on the connection'' else [], None)"

text \<open>A new connection, if libevent could make one; otherwise the loop is broken.\<close>

definition listener_cb :: "'b option \<Rightarrow> bool \<Rightarrow> 'b option \<times> bool" where
  "listener_cb new_bev looping = (case new_bev of None \<Rightarrow> (None, False) | Some bev \<Rightarrow> (Some bev, looping))"

text \<open>An interrupt: the loop is to end after this time, in seconds and microseconds.\<close>

definition signal_cb :: "nat \<times> nat" where
  "signal_cb = (2, 0)"

text \<open>The callbacks of one connection, in the order libevent makes them.\<close>

datatype conn_event = Readable | Drained | Ended bool bool

fun conn_step :: "'b libevent \<Rightarrow> conn_event \<Rightarrow> 'b option \<Rightarrow> (string \<times> 'b option) res" where
  "conn_step ev e None = Inl UseAfterFree"
| "conn_step ev Readable (Some b) = bindR (conn_readcb ev b) (\<lambda>(out, b). Inr (out, Some b))"
| "conn_step ev Drained (Some b) = Inr (conn_writecb ev b)"
| "conn_step ev (Ended eof err) (Some b) = Inr (conn_eventcb eof err b)"

section \<open>The main program\<close>

datatype ev_object = Base | Listener | Signal

text \<open>
  The arguments say which of the objects could be made and whether the signal event could be added;
  the result has the exit code, what was freed, in order, and what was not.
\<close>

definition cluster_main :: "bool \<Rightarrow> bool \<Rightarrow> bool \<Rightarrow> bool \<Rightarrow> int \<times> ev_object list \<times> ev_object list" where
  "cluster_main base listener signal added =
     (if \<not> base then (1, [], [])
      else if \<not> listener then (1, [], [Base])
      else if \<not> signal then (1, [], [Listener, Base])
      else if \<not> added then (1, [], [Signal, Listener, Base])
      else (0, [Listener, Signal, Base], []))"

lemma cluster_main_exit:
  "cluster_main base listener signal added = (code, freed, leaked) \<Longrightarrow>
   (code = 0 \<longleftrightarrow> base \<and> listener \<and> signal \<and> added) \<and> (code = 0 \<longleftrightarrow> freed \<noteq> []) \<and> (code = 0 \<or> \<not> base \<longleftrightarrow> leaked = [])"
  by (auto simp: cluster_main_def split: if_splits)

section \<open>Reading\<close>

context libevent_laws
begin

lemma conn_readcb_result:
  assumes "be_read ev b 256 = (d, b')"
  shows "conn_readcb ev b =
     (if length d = 256 \<and> CHR 0x00 \<notin> set d then Inl OutOfBounds
      else Inr (takeWhile (\<lambda>c. c \<noteq> CHR 0x00) d, be_write ev b' MESSAGE))"
proof -
  have len: "length d \<le> 256" using read_length [of b 256] assms by simp
  have "takeWhile (\<lambda>c. c \<noteq> CHR 0x00) (d @ replicate k (CHR 0x00)) = takeWhile (\<lambda>c. c \<noteq> CHR 0x00) d" for k
    by (induction d) (auto simp: takeWhile_replicate)
  then show ?thesis using len by (auto simp: conn_readcb_def assms c_string_def)
qed

end

text \<open>A bufferevent as its two buffers.\<close>

definition two_buffers :: "(string \<times> string) libevent" where
  "two_buffers =
     \<lparr>be_read = (\<lambda>(i, out) n. (take n i, drop n i, out)), be_write = (\<lambda>(i, out) d. (i, out @ d)),
      be_pending = (\<lambda>(i, out). length out)\<rparr>"

interpretation two_buffers: libevent_laws two_buffers
  by unfold_locales (auto simp: two_buffers_def)

section \<open>Properties\<close>

text \<open>
  C39. Reading from a client: the callback prints the text up to its first 0 and queues the 14 bytes
  of the answer, except that 256 bytes without a 0 fill the array, and printing then runs beyond its
  end; when the answer has been sent the connection is freed, and so it is at its end or an error.
\<close>

theorem cluster_read_bounds:
  assumes "libevent_laws ev" and "be_read ev b 256 = (d, b')"
  shows "conn_step ev Readable (Some b) =
     (if length d = 256 \<and> CHR 0x00 \<notin> set d then Inl OutOfBounds
      else Inr (takeWhile (\<lambda>c. c \<noteq> CHR 0x00) d, Some (be_write ev b' MESSAGE))) \<and>
     be_pending ev (be_write ev b' MESSAGE) = be_pending ev b + 14 \<and>
     (\<forall>b2. conn_step ev Drained (Some b2) = Inr (if be_pending ev b2 = 0 then (''flushed answer'', None) else (''xxxx'', Some b2))) \<and>
     (\<forall>b2 eof err. \<exists>out. conn_step ev (Ended eof err) (Some b2) = Inr (out, None))"
proof -
  have "be_pending ev (be_write ev b' MESSAGE) = be_pending ev b + 14"
    using libevent_laws.write_output [OF assms(1)] libevent_laws.read_output [OF assms(1), of b 256] assms(2)
    by (simp add: MESSAGE_def)
  then show ?thesis
    using libevent_laws.conn_readcb_result [OF assms] by (simp add: conn_writecb_def conn_eventcb_def)
qed

lemma cluster_read_bounds_witness:
  "conn_step two_buffers Readable (Some (replicate 300 (CHR ''a''), [])) = Inl OutOfBounds \<and>
   conn_step two_buffers Readable (Some (''hi'', [])) = Inr (''hi'', Some ([], MESSAGE))"
proof -
  have r: "be_read two_buffers (replicate 300 (CHR ''a''), []) 256 = (replicate 256 (CHR ''a''), replicate 44 (CHR ''a''), [])"
    "be_read two_buffers (''hi'', []) 256 = (''hi'', [], [])" "be_write two_buffers ([], []) MESSAGE = ([], MESSAGE)"
    by (simp_all add: two_buffers_def)
  show ?thesis
    using cluster_read_bounds [OF two_buffers.libevent_laws_axioms r(1)] cluster_read_bounds [OF two_buffers.libevent_laws_axioms r(2)] r(3)
    by simp
qed

end
