(* ===== verification/Pressure_Test.thy ===== *)
theory Pressure_Test
  imports Prelude
begin

text \<open>
  The pressure test \<^verbatim>\<open>presureTestTool\<close>: rounds of threads that each send one greeting to the server and
  count their successes in a global variable without a lock. A thread's increment is a read and a
  write; the threads are interleaved by a schedule, the sequence of the numbers of the threads that
  take a step.
\<close>

section \<open>The threads\<close>

text \<open>Where \<^verbatim>\<open>work\<close> is: before its \<^verbatim>\<open>send\<close>, between reading and writing \<^verbatim>\<open>sendSuccess\<close>, at its end.\<close>

datatype work_pc = Sending | Counting int | Returned

text \<open>\<open>sent i\<close>: whether thread \<open>i\<close> could send all of \<^verbatim>\<open>data\<close>. A step of a thread that is not there does nothing.\<close>

definition work :: "(nat \<Rightarrow> bool) \<Rightarrow> nat \<Rightarrow> int \<times> work_pc list \<Rightarrow> int \<times> work_pc list" where
  "work sent i st =
     (case st of (sendSuccess, ts) \<Rightarrow>
      if length ts \<le> i then st
      else
        (case ts ! i of
           Sending \<Rightarrow> (sendSuccess, ts[i := (if sent i then Counting sendSuccess else Returned)])
         | Counting n \<Rightarrow> (n + 1, ts[i := Returned])
         | Returned \<Rightarrow> st))"

definition run_threads :: "(nat \<Rightarrow> bool) \<Rightarrow> nat list \<Rightarrow> int \<times> work_pc list \<Rightarrow> int \<times> work_pc list" where
  "run_threads sent sched st = fold (work sent) sched st"

definition all_returned :: "work_pc list \<Rightarrow> bool" where
  "all_returned ts \<longleftrightarrow> list_all (\<lambda>t. t = Returned) ts"

section \<open>A round\<close>

text \<open>
  \<^verbatim>\<open>CreateTests\<close>: \<open>version\<close> is what \<^verbatim>\<open>WSAStartup\<close> gives (\<open>None\<close> if it fails). The threads run until the
  main thread is woken; the result is what is printed, the number of threads and \<^verbatim>\<open>sendSuccess\<close>, and
  the new value of the global variable, which is never set back.
\<close>

definition CreateTests ::
  "(nat \<times> nat) option \<Rightarrow> (nat \<Rightarrow> bool) \<Rightarrow> nat list \<Rightarrow> nat \<Rightarrow> int \<Rightarrow> (nat \<times> int) option \<times> int" where
  "CreateTests version sent sched num sendSuccess =
     (case version of
        None \<Rightarrow> (None, sendSuccess)
      | Some v \<Rightarrow>
          if v \<noteq> (2, 2) then (None, sendSuccess)
          else case run_threads sent sched (sendSuccess, replicate num Sending) of
            (sendSuccess, _) \<Rightarrow> (Some (num, sendSuccess), sendSuccess))"

section \<open>The main program\<close>

text \<open>
  One question: a character is read and then the rest of its line. At the end of the input the loop
  that skips the line never ends.
\<close>

definition ask_continue :: "string \<Rightarrow> (char \<times> string) option" where
  "ask_continue inp =
     (case inp of
        [] \<Rightarrow> None
      | ch # rest \<Rightarrow>
          (case dropWhile (\<lambda>c. c \<noteq> CHR 0x0A) rest of
             [] \<Rightarrow> None
           | _ # rest \<Rightarrow> Some (ch, rest)))"

lemma ask_continue_shorter: "ask_continue inp = Some (ch, rest) \<Longrightarrow> length rest < length inp"
proof (cases inp)
  case (Cons c cs)
  assume "ask_continue inp = Some (ch, rest)"
  then have "Suc (length rest) = length (dropWhile (\<lambda>c. c \<noteq> CHR 0x0A) cs)"
    using Cons by (auto simp: ask_continue_def split: list.splits)
  then show ?thesis using length_dropWhile_le [of "\<lambda>c. c \<noteq> CHR 0x0A" cs] Cons by simp
qed (simp add: ask_continue_def)

text \<open>The rounds \<^verbatim>\<open>main\<close> asks for: \<open>None\<close> if it never ends.\<close>

function press_main :: "string \<Rightarrow> nat option" where
  "press_main inp =
     (case ask_continue inp of
        None \<Rightarrow> None
      | Some (ch, rest) \<Rightarrow> if ch = CHR ''N'' \<or> ch = CHR ''n'' then Some 0 else map_option Suc (press_main rest))"
  by pat_completeness auto

termination by (relation "measure length") (auto dest: ask_continue_shorter)

declare press_main.simps [simp del]

section \<open>Any schedule\<close>

text \<open>How many threads have counted: those at their end that could send.\<close>

definition counted :: "(nat \<Rightarrow> bool) \<Rightarrow> work_pc list \<Rightarrow> nat" where
  "counted sent ts = card {i. i < length ts \<and> sent i \<and> ts ! i = Returned}"

text \<open>What every step keeps, starting from the value \<open>c\<close>.\<close>

definition count_inv :: "(nat \<Rightarrow> bool) \<Rightarrow> int \<Rightarrow> int \<times> work_pc list \<Rightarrow> bool" where
  "count_inv sent c st \<longleftrightarrow> (case st of (n, ts) \<Rightarrow>
     c \<le> n \<and> n \<le> c + int (counted sent ts) \<and> (0 < counted sent ts \<longrightarrow> c < n) \<and>
     (\<forall>i < length ts. \<forall>v. ts ! i = Counting v \<longrightarrow> sent i \<and> c \<le> v \<and> v \<le> c + int (counted sent ts)))"

lemma counted_update:
  assumes "i < length ts" and "ts ! i \<noteq> Returned"
  shows "counted sent (ts[i := t]) = (if t = Returned \<and> sent i then Suc (counted sent ts) else counted sent ts)"
proof -
  have "{j. j < length (ts[i := t]) \<and> sent j \<and> ts[i := t] ! j = Returned} =
      (if t = Returned \<and> sent i then insert i {j. j < length ts \<and> sent j \<and> ts ! j = Returned}
       else {j. j < length ts \<and> sent j \<and> ts ! j = Returned})"
    using assms by (auto simp: nth_list_update split: if_splits)
  then show ?thesis using assms(2) by (simp add: counted_def)
qed

lemma work_keeps_count: "count_inv sent c st \<Longrightarrow> count_inv sent c (work sent i st)"
proof -
  assume inv: "count_inv sent c st"
  obtain n ts where st: "st = (n, ts)" by (cases st)
  show ?thesis
  proof (cases "i < length ts")
    case True
    show ?thesis
    proof (cases "ts ! i")
      case Sending
      then show ?thesis
        using inv True by (auto simp: st count_inv_def work_def counted_update nth_list_update)
    next
      case (Counting v)
      then have "sent i" "c \<le> v" "v \<le> c + int (counted sent ts)" using inv True by (auto simp: st count_inv_def)
      then show ?thesis
        using inv True Counting by (fastforce simp: st count_inv_def work_def counted_update nth_list_update)
    qed (use inv st in \<open>simp add: work_def\<close>)
  qed (use inv st in \<open>simp add: work_def\<close>)
qed

lemma run_keeps_count: "count_inv sent c st \<Longrightarrow> count_inv sent c (run_threads sent sched st)"
  by (induction sched arbitrary: st) (simp_all add: run_threads_def work_keeps_count)

lemma length_run_threads: "length (snd (run_threads sent sched st)) = length (snd st)"
proof (induction sched arbitrary: st)
  case (Cons i sched)
  have "length (snd (work sent i st)) = length (snd st)" by (auto simp: work_def split: work_pc.split prod.split)
  with Cons show ?case by (simp add: run_threads_def)
qed (simp add: run_threads_def)

lemma count_inv_start: "count_inv sent c (c, replicate num Sending)"
  by (simp add: count_inv_def counted_def)

lemma count_bounds:
  assumes "run_threads sent sched (c, replicate num Sending) = (n, ts)" and "all_returned ts"
  shows "(if \<exists>i < num. sent i then c + 1 else c) \<le> n \<and> n \<le> c + int (card {i. i < num \<and> sent i})"
proof -
  have "length ts = num" using length_run_threads [of sent sched "(c, replicate num Sending)"] assms(1) by simp
  then have k: "counted sent ts = card {i. i < num \<and> sent i}"
    using assms(2) by (auto simp: counted_def all_returned_def list_all_length intro!: arg_cong [where f = card])
  have "count_inv sent c (n, ts)" using run_keeps_count [OF count_inv_start] assms(1) by metis
  moreover have "0 < card {i. i < num \<and> sent i}" if "\<exists>i < num. sent i" using that by (auto simp: card_gt_0_iff)
  ultimately show ?thesis by (auto simp: count_inv_def k)
qed

section \<open>Schedules that lose updates\<close>

text \<open>The first \<open>a\<close> threads one after another, then all the others read before one of them writes.\<close>

definition lossy :: "nat \<Rightarrow> nat \<Rightarrow> nat list" where
  "lossy a num = concat (map (\<lambda>i. [i, i]) [0..<a]) @ [a..<num] @ [a..<num]"

lemma sequential_run:
  "a \<le> num \<Longrightarrow> run_threads (\<lambda>_. True) (concat (map (\<lambda>i. [i, i]) [0..<a])) (c, replicate num Sending) =
     (c + int a, replicate a Returned @ replicate (num - a) Sending)"
proof (induction a)
  case (Suc a)
  then have "run_threads (\<lambda>_. True) (concat (map (\<lambda>i. [i, i]) [0..<a])) (c, replicate num Sending) =
     (c + int a, replicate a Returned @ replicate (num - a) Sending)" by simp
  moreover have "num - a = Suc (num - Suc a)" using Suc.prems by simp
  ultimately show ?case
    using Suc.prems
    by (simp add: run_threads_def work_def nth_append list_update_append replicate_app_Cons_same)
qed (simp add: run_threads_def)

lemma all_read:
  "m \<le> k \<Longrightarrow> run_threads (\<lambda>_. True) [a..<a + m] (c, replicate a Returned @ replicate k Sending) =
     (c, replicate a Returned @ replicate m (Counting c) @ replicate (k - m) Sending)"
proof (induction m)
  case (Suc m)
  then have "k - m = Suc (k - Suc m)" by simp
  with Suc show ?case
    by (simp add: run_threads_def work_def nth_append list_update_append replicate_app_Cons_same)
qed (simp add: run_threads_def)

lemma all_write:
  "m \<le> k \<Longrightarrow> run_threads (\<lambda>_. True) [a..<a + m] (c, replicate a Returned @ replicate k (Counting c)) =
     (if m = 0 then c else c + 1, replicate (a + m) Returned @ replicate (k - m) (Counting c))"
proof (induction m)
  case (Suc m)
  then have "k - m = Suc (k - Suc m)" by simp
  with Suc show ?case
    by (simp add: run_threads_def work_def nth_append list_update_append replicate_app_Cons_same)
qed (simp add: run_threads_def)

lemma lossy_run:
  assumes "a < num"
  shows "run_threads (\<lambda>_. True) (lossy a num) (c, replicate num Sending) = (c + int a + 1, replicate num Returned)"
proof -
  have n: "num = a + (num - a)" using assms by simp
  have "run_threads s (xs @ ys) st = run_threads s ys (run_threads s xs st)" for s xs ys st
    by (simp add: run_threads_def)
  then show ?thesis
    using sequential_run [of a num c] all_read [of "num - a" "num - a" a "c + int a"] all_write [of "num - a" "num - a" a "c + int a"] assms n
    by (simp add: lossy_def)
qed

section \<open>The end of the program\<close>

text \<open>It ends with the first line that starts with N or n; without one it never does.\<close>

lemma press_main_lines:
  "\<forall>l \<in> set ls. l \<noteq> [] \<and> CHR 0x0A \<notin> set l \<Longrightarrow>
   press_main (concat (map (\<lambda>l. l @ [CHR 0x0A]) ls)) =
     (if \<exists>l \<in> set ls. hd l \<in> {CHR ''N'', CHR ''n''}
      then Some (length (takeWhile (\<lambda>l. hd l \<notin> {CHR ''N'', CHR ''n''}) ls)) else None)"
proof (induction ls)
  case Nil
  then show ?case by (simp add: press_main.simps ask_continue_def)
next
  case (Cons l ls)
  then obtain c cs where l: "l = c # cs" "CHR 0x0A \<notin> set cs" by (cases l) auto
  then have "dropWhile (\<lambda>c. c \<noteq> CHR 0x0A) (cs @ CHR 0x0A # rest) = CHR 0x0A # rest" for rest
    by (subst dropWhile_append2) auto
  then have "ask_continue (l @ CHR 0x0A # rest) = Some (c, rest)" for rest
    using l(1) by (simp add: ask_continue_def)
  then show ?case
    using Cons by (subst press_main.simps) (auto simp: l(1))
qed

section \<open>Properties\<close>

text \<open>
  C28. The count of a round is not the number of successful sends: with \<open>k\<close> successes it is, for every
  schedule in which all threads end, between 1 (0 if \<open>k\<close> is 0) and \<open>k\<close> more than before; if all
  threads succeed, each of these values is the outcome of some schedule.
\<close>

theorem press_count_races:
  "(all_returned (snd (run_threads sent sched (c, replicate num Sending))) \<longrightarrow>
      (\<exists>n. CreateTests (Some (2, 2)) sent sched num c = (Some (num, n), n) \<and>
        (if \<exists>i < num. sent i then c + 1 else c) \<le> n \<and> n \<le> c + int (card {i. i < num \<and> sent i}))) \<and>
   (1 \<le> j \<and> j \<le> num \<longrightarrow>
      all_returned (snd (run_threads (\<lambda>_. True) (lossy (j - 1) num) (c, replicate num Sending))) \<and>
      CreateTests (Some (2, 2)) (\<lambda>_. True) (lossy (j - 1) num) num c = (Some (num, c + int j), c + int j))"
proof (intro conjI impI)
  assume "all_returned (snd (run_threads sent sched (c, replicate num Sending)))"
  moreover obtain n ts where r: "run_threads sent sched (c, replicate num Sending) = (n, ts)" by fastforce
  ultimately show "\<exists>n. CreateTests (Some (2, 2)) sent sched num c = (Some (num, n), n) \<and>
       (if \<exists>i < num. sent i then c + 1 else c) \<le> n \<and> n \<le> c + int (card {i. i < num \<and> sent i})"
    using count_bounds [OF r] by (simp add: CreateTests_def r)
next
  assume j: "1 \<le> j \<and> j \<le> num"
  then have r: "run_threads (\<lambda>_. True) (lossy (j - 1) num) (c, replicate num Sending) = (c + int j, replicate num Returned)"
  proof -
    have "j - 1 < num" "c + int (j - 1) + 1 = c + int j" using j by auto
    then show ?thesis using lossy_run [of "j - 1" num c] by simp
  qed
  show "all_returned (snd (run_threads (\<lambda>_. True) (lossy (j - 1) num) (c, replicate num Sending)))"
    by (simp only: r snd_conv) (simp add: all_returned_def list_all_length)
  show "CreateTests (Some (2, 2)) (\<lambda>_. True) (lossy (j - 1) num) num c = (Some (num, c + int j), c + int j)"
    by (simp add: CreateTests_def r del: One_nat_def)
qed

lemma press_count_races_witness:
  "CreateTests (Some (2, 2)) (\<lambda>_. True) (lossy 0 50) 50 0 = (Some (50, 1), 1) \<and>
   (\<exists>n. CreateTests (Some (2, 2)) (\<lambda>i. i = 0) [1, 0, 0] 2 7 = (Some (2, n), n) \<and> n = 8)"
proof -
  have r: "all_returned (snd (run_threads (\<lambda>i. i = 0) [1, 0, 0] (7, replicate 2 Sending)))"
    by (simp add: run_threads_def work_def all_returned_def numeral_2_eq_2)
  have k: "card {i :: nat. i < 2 \<and> i = 0} = 1" "\<exists>i < 2 :: nat. i = 0"
  proof -
    have "{i :: nat. i < 2 \<and> i = 0} = {0}" by auto
    then show "card {i :: nat. i < 2 \<and> i = 0} = 1" by (simp only:) simp
  qed auto
  from press_count_races [of "\<lambda>i. i = 0" "[1, 0, 0]" 7 2 0] r k
  have "\<exists>n. CreateTests (Some (2, 2)) (\<lambda>i. i = 0) [1, 0, 0] 2 7 = (Some (2, n), n) \<and> n = 8" by auto
  moreover from press_count_races [of "\<lambda>_. True" "[]" 0 50 1]
  have "CreateTests (Some (2, 2)) (\<lambda>_. True) (lossy 0 50) 50 0 = (Some (50, 1), 1)"
    by simp
  ultimately show ?thesis by blast
qed

end
