(* ===== verification/Spec2Isabelle.thy ===== *)
theory Spec2Isabelle
  imports Session_Show Server_Runs IOCP_Traffic IOCP_Stop Log_Module MD5_Digest Zlib_Wrappers Crawler_Mains Pool_Demo
    Svrutil_Parts Cluster_Echo Pressure_Test
begin

text \<open>
  Server8: a server framework for Windows on I/O completion ports, its utilities, and two crawlers
  built on the utilities. This development models the C++ sources of the repository and proves what
  makes them correct; where the code does something else, the theorems say exactly what.

  \<^bold>\<open>The program.\<close> \<^verbatim>\<open>src/Server8/main.cpp\<close> creates an \<^verbatim>\<open>svr::Server\<close> (\<^verbatim>\<open>server.h\<close>, \<^verbatim>\<open>server.cpp\<close>), which owns a
  \<^verbatim>\<open>Session\<close> (an event queue with a key-value map), a \<^verbatim>\<open>SessionManager\<close> (sessions by key), an \<^verbatim>\<open>IOCPModule\<close>
  (connections, overlapped operations, worker threads), a \<^verbatim>\<open>ThreadPool\<close> and a key-value map. Bytes that
  the \<^verbatim>\<open>IOCPModule\<close> receives are cut into packets by the headers of \<^verbatim>\<open>protocol.h\<close>, \<^verbatim>\<open>protocol.cpp\<close>, whose
  fields \<^verbatim>\<open>svrutil.h\<close> generates (time stamps, random keys, digests by \<^verbatim>\<open>md5.h\<close>). The crawlers
  (\<^verbatim>\<open>src/Indexer/Indexer2.cpp\<close>, \<^verbatim>\<open>src/Indexer3/Indexer3.cpp\<close>) run callbacks of an \<^verbatim>\<open>EventDispatcher\<close> that fetch
  pages and submit further events.

  \<^bold>\<open>How it is modelled.\<close> A class is a record, an enumeration a datatype, a method a function from the
  state to a result \<open>'a res\<close>: \<open>Inr\<close> a value (usually with the new state), \<open>Inl\<close> the fault that
  ended it (use of freed memory, access out of bounds, a call that never returns, division by zero, a
  failed allocation, the end of the process). Arrays on the heap are an explicit store, so leaks, double
  frees and overruns are visible. 32-bit arithmetic is done on words or written out where it matters.
  What the operating system, zlib, boost and the database do is a parameter of the definitions; what the
  code relies on is a hypothesis that a concrete instance satisfies (\<open>srw_laws\<close> and \<open>cs_laws\<close> for
  locks, \<open>zlib_laws\<close> for the compression library, \<open>libevent_laws\<close>, \<open>ado_laws\<close>, \<open>double_division\<close>). The answers of the system in the I/O module are
  unrestricted functions, so its theorems hold for everything the system may do.

  \<^bold>\<open>Theories, in the order they build on each other.\<close>
  \<^item> \<open>Prelude\<close>: faults and sequencing, the rules for what a step returns (\<open>returns\<close>), the heap,
    \<^verbatim>\<open>std::map\<close> as an ordered association list, and the locales \<open>refinement\<close> (a simulation of one
    machine by another lifts to all runs), \<open>ordered_map\<close> and \<open>kv_store\<close>.
  \<^item> \<open>Locks\<close>: \<^verbatim>\<open>svrutil::SRWLock\<close>, \<^verbatim>\<open>CriticalSection\<close>. Methods that run between acquire and release are
    reduced to their bodies once and for all under the lock laws.
  \<^item> \<open>Events\<close>, \<open>Sessions\<close>, \<open>Session_Deque\<close>, \<open>Session_Show\<close>, \<open>Session_Manager\<close>: \<^verbatim>\<open>svr::Event\<close>, \<^verbatim>\<open>Session\<close>,
    \<^verbatim>\<open>SessionManager\<close>. A session refines a bounded double-ended queue and owns each heap block once; the
    maps of session, manager and server are instances of \<open>kv_store\<close>; \<^verbatim>\<open>addSession\<close> never adds.
  \<^item> \<open>Protocol\<close>: \<^verbatim>\<open>Packet::createHeader\<close>, \<^verbatim>\<open>matchHeader\<close> with a matcher for the regular expressions
    used. Headers are recognised exactly in the documented form; what is printed is read back.
  \<^item> \<open>MD5_Digest\<close>: \<^verbatim>\<open>md5.h\<close> equals RFC 1321, also when fed in pieces; \<^verbatim>\<open>svrutil::MD5::create\<close>.
  \<^item> \<open>Log_Module\<close>: \<^verbatim>\<open>svrutil::LogModule\<close>; nothing logged to a file is lost or reordered.
  \<^item> \<open>Dispatcher\<close>: \<^verbatim>\<open>svrutil::EventDispatcher\<close> as an interleaving system of workers and clients; order
    and uniqueness of deliveries, safety without removal, progress, and the races of removal and
    destruction.
  \<^item> \<open>IOCP_Contexts\<close>, \<open>IOCP_Module\<close>, \<open>IOCP_Receive\<close>, \<open>IOCP_Invariant\<close>,
    \<open>IOCP_Lifecycle\<close>: \<^verbatim>\<open>svr::IOCPModule\<close>. Every operation keeps the stores well-formed; whole packets are
    cut correctly, pieces are not put together; how connections begin and end.
  \<^item> \<open>IOCP_Traffic\<close>, \<open>IOCP_Stop\<close>: the module over several operations: an accepted connection, a send with
    its completion (which deletes the connection's receive), a packet from one module to another, and
    the end of the worker threads.
  \<^item> \<open>IOCP_Turns\<close>, \<open>IOCP_Service\<close>: the turns of the workers for completed operations, and the module under
    any traffic of clients that connect, send whole packets, leave or fail: it refines a service that knows
    of each client only whether it is connected (an instance of \<open>refinement\<close>).
  \<^item> \<open>Thread_Pool\<close>: \<^verbatim>\<open>svrutil::ThreadPool\<close>, which the I/O module and the server use.
  \<^item> \<open>Sysutil\<close>: \<^verbatim>\<open>RandomString\<close>, \<^verbatim>\<open>TimeStamp\<close>, \<^verbatim>\<open>SystemInfo\<close>, \<^verbatim>\<open>SocketLibrary\<close>, \<^verbatim>\<open>GetHostByName\<close>.
  \<^item> \<open>Zlib_Wrappers\<close>: the compression functions of \<^verbatim>\<open>svrutil.h\<close> over any library that keeps zlib's
    documented laws.
  \<^item> \<open>Server\<close>: \<^verbatim>\<open>svr::Server\<close>, \<^verbatim>\<open>IOCPModule::run\<close> and \<^verbatim>\<open>main\<close>, which starts a module that serves its clients.
  \<^item> \<open>Server_Runs\<close>: the server composed of its parts: every state a run can reach is well-formed, every
    proper call returns into such a state, and the server can be destroyed.
  \<^item> \<open>Crawler_Http\<close>, \<open>Crawler3\<close>, \<open>Crawler\<close>, \<open>Crawler_Mains\<close>: the HTTP client, the two crawlers on the
    dispatcher's model, and their main programs with the endless loops.
  \<^item> \<open>Svrutil_Parts\<close>: \<^verbatim>\<open>Timer\<close> (exact milliseconds below \<open>2 ^ 53\<close>), \<^verbatim>\<open>RegexEx\<close>, the connection of
    \<^verbatim>\<open>SQLServerADO\<close>.
  \<^item> \<open>Cluster_Echo\<close>: the program \<^verbatim>\<open>Cluster\<close> over any library that keeps libevent's documented laws.
  \<^item> \<open>Pressure_Test\<close>: \<^verbatim>\<open>presureTestTool\<close> as an interleaving of threads that share a counter.
  \<^item> \<open>Pool_Demo\<close>: \<^verbatim>\<open>ThreadPoolTest/threadPool.cpp\<close>; its clean-up releases every object once on every path.

  \<^bold>\<open>Bounds and fuel.\<close> Loops that follow a list, a buffer or a counter are functions with a termination
  proof. The inflate and deflate loops, whose end depends on the library, take fuel; \<open>Zlib_Wrappers\<close>
  proves from the laws that fuel above the bytes of input plus the room for output always gives the
  result. The endless loops of the worker threads
  are sequences of steps, and statements about them hold for sequences of every length. Operations of
  the I/O module are atomic steps; in the dispatcher a step is what happens between taking and releasing
  its lock, so that its races show.

  \<^bold>\<open>Not modelled.\<close> \<^verbatim>\<open>Indexer.cpp\<close> (commented out), \<^verbatim>\<open>test.cpp\<close> (an empty main), \<^verbatim>\<open>svrlib.h\<close> (includes and macros);
  the methods \<^verbatim>\<open>server.h\<close> declares and nothing defines; and the third-party code (boost, libevent, zlib, ADO),
  which is a parameter where the sources rely on it. Of logging in the server only \<^verbatim>\<open>LogModule\<close> itself is
  modelled; the crawlers keep a record of what they log, other programs' messages are left out.
\<close>

end
